(* ===== verification/Kinetis_Prelude.thy ===== *)
theory Kinetis_Prelude
  imports Main "HOL-Library.Word" "HOL-Library.Multiset"
begin

text \<open>
  Shared vocabulary of the development: the C integer types, the errno values, the
  arithmetic of C on signed values, the array loops the drivers use, and the interface
  locale for components that are driven by a sequence of events.

  \<^item> Unsigned C integers are words (\<open>u8\<close>, \<open>u16\<close>, \<open>u32\<close>, \<open>u64\<close>); arithmetic on
    them wraps as in C.
  \<^item> Signed C integers are \<open>int\<close> with the width written out: \<open>s32 x\<close> and \<open>s64 x\<close> are
    \<open>x\<close> wrapped into the type's range, \<open>cdiv\<close> and \<open>cmod\<close> are C's division (towards zero) and remainder, and \<open>asr\<close>
    the arithmetic shift right.
  \<^item> Array loops that move elements by one place are \<open>shift_up\<close> and \<open>shift_down\<close>.
\<close>

unbundle bit_operations_syntax

section \<open>Integer types\<close>

type_synonym u8 = "8 word"
type_synonym u16 = "16 word"
type_synonym u32 = "32 word"
type_synonym u64 = "64 word"

named_theorems c_arith \<open>facts that remove the wrap-around of a bounded C expression\<close>

abbreviation EIO :: int where "EIO \<equiv> 5"
abbreviation ENOMEM :: int where "ENOMEM \<equiv> 12"
abbreviation EINVAL :: int where "EINVAL \<equiv> 22"
abbreviation ENOSPC :: int where "ENOSPC \<equiv> 28"
abbreviation ENOENT :: int where "ENOENT \<equiv> 2"
abbreviation EACCES :: int where "EACCES \<equiv> 13"
abbreviation EBUSY :: int where "EBUSY \<equiv> 16"
abbreviation ENODEV :: int where "ENODEV \<equiv> 19"
abbreviation EPROTO :: int where "EPROTO \<equiv> 71"
abbreviation ETIMEDOUT :: int where "ETIMEDOUT \<equiv> 110"
abbreviation ERANGE :: int where "ERANGE \<equiv> 34"
abbreviation EOVERFLOW :: int where "EOVERFLOW \<equiv> 75"

definition s32 :: "int \<Rightarrow> int" where
  "s32 x = signed_take_bit 31 x"

definition s64 :: "int \<Rightarrow> int" where
  "s64 x = signed_take_bit 63 x"

definition asr :: "int \<Rightarrow> nat \<Rightarrow> int" where
  "asr x n = x div 2 ^ n"

definition cdiv :: "int \<Rightarrow> int \<Rightarrow> int" where
  "cdiv a b = sgn a * sgn b * (\<bar>a\<bar> div \<bar>b\<bar>)"

definition cmod :: "int \<Rightarrow> int \<Rightarrow> int" where
  "cmod a b = a - b * cdiv a b"

lemma s32_id [c_arith]: "- 2147483648 \<le> x \<Longrightarrow> x \<le> 2147483647 \<Longrightarrow> s32 x = x"
  by (simp add: s32_def signed_take_bit_int_eq_self)

lemma s64_id [c_arith]:
  "- 9223372036854775808 \<le> x \<Longrightarrow> x \<le> 9223372036854775807 \<Longrightarrow> s64 x = x"
  by (simp add: s64_def signed_take_bit_int_eq_self)

lemma s32_range: "- 2147483648 \<le> s32 x \<and> s32 x \<le> 2147483647"
  using signed_take_bit_int_greater_eq_minus_exp [of 31 x] signed_take_bit_int_less_exp [of 31 x]
  by (simp add: s32_def)

lemma asr_mono: "x \<le> y \<Longrightarrow> asr x n \<le> asr y n"
  by (simp add: asr_def zdiv_mono1)

lemma asr_mult [simp]: "asr (x * 2 ^ n) n = x"
  by (simp add: asr_def)

lemma cdiv_nonneg: "0 \<le> a \<Longrightarrow> 0 < b \<Longrightarrow> cdiv a b = a div b"
  by (cases "a = 0") (auto simp: cdiv_def)

lemma cmod_nonneg: "0 \<le> a \<Longrightarrow> 0 < b \<Longrightarrow> cmod a b = a mod b"
  by (simp add: cmod_def cdiv_nonneg minus_mult_div_eq_mod)

lemma cdiv_abs_le: "\<bar>cdiv a b\<bar> \<le> \<bar>a\<bar>"
proof (cases "b = 0")
  case True
  then show ?thesis by (simp add: cdiv_def)
next
  case False
  then have "\<bar>a\<bar> div \<bar>b\<bar> \<le> \<bar>a\<bar>"
    by (cases "a = 0") (auto simp: zdiv_mono2 [of _ 1, simplified] intro!: order_trans [OF zdiv_mono2 [of "\<bar>a\<bar>" 1 "\<bar>b\<bar>"]])
  with False show ?thesis by (cases "a = 0") (auto simp: cdiv_def abs_mult pos_imp_zdiv_nonneg_iff)
qed

section \<open>Words read as natural numbers\<close>

lemma unat_add_no_wrap:
  fixes a b :: "'a::len word"
  shows "unat a + unat b < 2 ^ LENGTH('a) \<Longrightarrow> unat (a + b) = unat a + unat b"
  by (simp add: unat_word_ariths)

lemma unat_sub_no_wrap:
  fixes a b :: "'a::len word"
  shows "unat b \<le> unat a \<Longrightarrow> unat (a - b) = unat a - unat b"
  by (simp add: unat_sub word_le_nat_alt)

lemma unat_ucast_32_64 [simp]: "unat (ucast (x :: u32) :: u64) = unat x"
  by (simp add: unsigned_ucast_eq take_bit_nat_eq_self_iff order_less_le_trans [OF unsigned_less])

lemma unat_ucast_16_32 [simp]: "unat (ucast (x :: u16) :: u32) = unat x"
  by (simp add: unsigned_ucast_eq take_bit_nat_eq_self_iff order_less_le_trans [OF unsigned_less])

lemma unat_lt_32: "unat (x :: u32) < 4294967296"
  using unsigned_less [of x] by simp

lemma unat_lt_64: "unat (x :: u64) < 18446744073709551616"
  using unsigned_less [of x] by simp

lemma unat_exp: "k < LENGTH('a) \<Longrightarrow> unat (2 ^ k :: 'a::len word) = 2 ^ k"
proof -
  assume k: "k < LENGTH('a)"
  have "unat (of_nat (2 ^ k) :: 'a word) = 2 ^ k mod 2 ^ LENGTH('a)"
    by (simp only: unat_of_nat)
  then show ?thesis using k by simp
qed

lemma unat_exp_minus_1:
  "k < LENGTH('a) \<Longrightarrow> unat (2 ^ k - 1 :: 'a::len word) = 2 ^ k - 1"
  by (subst unat_minus_one) (auto simp: unat_exp)

section \<open>Array loops\<close>

text \<open>\<open>for (i = hi; i > lo; i--) a[i] = a[i - 1];\<close>\<close>

fun shift_up :: "nat \<Rightarrow> nat \<Rightarrow> 'a list \<Rightarrow> 'a list" where
  "shift_up lo 0 a = a"
| "shift_up lo (Suc hi) a =
     (if lo < Suc hi then shift_up lo hi (a[Suc hi := a ! hi]) else a)"

text \<open>\<open>for (; i + 1 < n; i++) a[i] = a[i + 1];\<close>\<close>

function shift_down :: "nat \<Rightarrow> nat \<Rightarrow> 'a list \<Rightarrow> 'a list" where
  "shift_down i n a = (if i + 1 < n then shift_down (i + 1) n (a[i := a ! (i + 1)]) else a)"
  by pat_completeness auto
termination
  by (relation "measure (\<lambda>(i, n, a). n - i)") auto

declare shift_down.simps [simp del]

lemma length_shift_up [simp]: "length (shift_up lo hi a) = length a"
  by (induction hi arbitrary: a) auto

lemma length_shift_down [simp]: "length (shift_down i n a) = length a"
  by (induction i n a rule: shift_down.induct) (subst shift_down.simps, simp)

lemma nth_shift_up:
  "hi < length a \<Longrightarrow> k < length a \<Longrightarrow>
   shift_up lo hi a ! k = (if lo < k \<and> k \<le> hi then a ! (k - 1) else a ! k)"
proof (induction hi arbitrary: a)
  case 0
  then show ?case by simp
next
  case (Suc hi)
  show ?case
  proof (cases "lo < Suc hi")
    case True
    then show ?thesis using Suc
      by (auto simp: nth_list_update)
  next
    case False
    then show ?thesis by auto
  qed
qed

lemma nth_shift_down:
  "n \<le> length a \<Longrightarrow> k < length a \<Longrightarrow>
   shift_down i n a ! k = (if i \<le> k \<and> k + 1 < n then a ! (k + 1) else a ! k)"
proof (induction i n a rule: shift_down.induct)
  case (1 i n a)
  show ?case
  proof (cases "i + 1 < n")
    case True
    with 1 show ?thesis
      by (subst shift_down.simps) (auto simp: nth_list_update)
  next
    case False
    then show ?thesis by (subst shift_down.simps) auto
  qed
qed

lemma shift_up_insert:
  assumes "pos \<le> n" "n < length a"
  shows "(shift_up pos n a)[pos := x] = take pos a @ x # drop pos (take n a) @ drop (Suc n) a"
proof (rule nth_equalityI)
  show "length ((shift_up pos n a)[pos := x])
      = length (take pos a @ x # drop pos (take n a) @ drop (Suc n) a)"
    using assms by simp
next
  fix k assume "k < length ((shift_up pos n a)[pos := x])"
  then have k: "k < length a" by simp
  then show "(shift_up pos n a)[pos := x] ! k
      = (take pos a @ x # drop pos (take n a) @ drop (Suc n) a) ! k"
    using assms by (auto simp: nth_list_update nth_append nth_Cons nth_shift_up min_def
        split: nat.split intro!: arg_cong [where f = "(!) a"])
qed

lemma shift_down_delete:
  assumes "i < n" "n \<le> length a"
  shows "(shift_down i n a)[n - 1 := x] = take i a @ drop (Suc i) (take n a) @ x # drop n a"
proof (rule nth_equalityI)
  show "length ((shift_down i n a)[n - 1 := x])
      = length (take i a @ drop (Suc i) (take n a) @ x # drop n a)"
    using assms by simp
next
  fix k assume "k < length ((shift_down i n a)[n - 1 := x])"
  then have k: "k < length a" by simp
  then show "(shift_down i n a)[n - 1 := x] ! k
      = (take i a @ drop (Suc i) (take n a) @ x # drop n a) ! k"
    using assms
    by (auto simp: nth_list_update nth_append nth_Cons nth_shift_down min_def
        split: nat.split intro!: arg_cong [where f = "(!) a"])
qed

section \<open>Components driven by events\<close>

text \<open>
  A component whose handlers all keep an invariant: the laws are one-step preservation, and
  the invariant then holds after every sequence of events.
\<close>

locale event_driven =
  fixes step :: "'e \<Rightarrow> 's \<Rightarrow> 's"
    and inv :: "'s \<Rightarrow> bool"
  assumes step_inv: "inv s \<Longrightarrow> inv (step e s)"
begin

lemma run_inv: "inv s \<Longrightarrow> inv (fold step es s)"
  by (induction es arbitrary: s) (auto intro: step_inv)

lemma run_prefix_inv: "inv s \<Longrightarrow> inv (fold step (take n es) s)"
  by (rule run_inv)

end

section \<open>Components that settle\<close>

text \<open>
  A step function that comes closer to a set of rest states as long as it is outside: the laws are that a
  rest state does not move and that every other step lowers the distance.  Every run then reaches a rest
  state and stays there.
\<close>

locale settling =
  fixes move :: "'s \<Rightarrow> 's"
    and ok :: "'s \<Rightarrow> bool"
    and rest :: "'s \<Rightarrow> bool"
    and distance :: "'s \<Rightarrow> nat"
  assumes move_ok: "ok s \<Longrightarrow> ok (move s)"
    and rest_fixed: "ok s \<Longrightarrow> rest s \<Longrightarrow> move s = s"
    and closer: "ok s \<Longrightarrow> \<not> rest s \<Longrightarrow> distance (move s) < distance s"
begin

lemma stays: "ok s \<Longrightarrow> rest s \<Longrightarrow> (move ^^ n) s = s"
  by (induction n) (simp_all add: rest_fixed)

lemma settles: "ok s \<Longrightarrow> \<exists>n\<le>distance s. rest ((move ^^ n) s)"
proof (induction "distance s" arbitrary: s rule: less_induct)
  case less
  show ?case
  proof (cases "rest s")
    case True
    then show ?thesis by (intro exI [of _ 0]) simp
  next
    case False
    then obtain n where "n \<le> distance (move s)" "rest ((move ^^ n) (move s))"
      using less.hyps [OF closer move_ok] less.prems by blast
    then show ?thesis using closer [OF less.prems False]
      by (intro exI [of _ "Suc n"]) (simp add: funpow_swap1)
  qed
qed

lemma run_move_ok: "ok s \<Longrightarrow> ok ((move ^^ n) s)"
  by (induction n) (simp_all add: move_ok)

lemma rests_for_ever:
  assumes "ok s" "distance s \<le> n"
  shows "rest ((move ^^ n) s)"
proof -
  obtain k where k: "k \<le> distance s" "rest ((move ^^ k) s)" using settles [OF assms(1)] by blast
  then have "(move ^^ n) s = (move ^^ (n - k)) ((move ^^ k) s)"
    using assms(2) by (metis funpow_add comp_apply le_add_diff_inverse2 order_trans)
  then show ?thesis using stays [OF run_move_ok [OF assms(1)] k(2)] k(2) by simp
qed

end

end
