(* ===== verification/Memory_Allocator.thy ===== *)
theory Memory_Allocator
  imports Kinetis_Prelude
begin

text \<open>
  The static multi-region allocator of \<^verbatim>\<open>drivers/kinetis/memory_allocator.c\<close>, the
  allocator behind \<open>kmalloc\<close>: descriptors of the used blocks in one sorted array shared by
  up to four RAM regions, first fit inside a region, regions tried in priority order.

  Pointers are the 64-bit addresses the code casts them to, NULL is 0. The state record holds
  the file's static variables and the memory the pointers address (for \<open>memset\<close> and
  \<open>memmove\<close>). \<open>block_count\<close> is a C int that the code never makes negative, here a \<open>nat\<close>. The
  mutex around the entry points (a no-op on the target) and the log output are not modelled;
  the queries made while logging are, since they sort the descriptors. The linker symbols
  \<open>_mempoolN_start/_end\<close> are the parameter \<open>lk\<close>.
\<close>

section \<open>State\<close>

datatype block_status = BLOCK_FREE | BLOCK_USED

record memory_block_detailed =
  b_start :: u64
  b_size :: u32
  b_actual_size :: u32
  b_status :: block_status
  b_region_id :: u8

record mem_region_t =
  r_start :: u64
  r_size :: u32
  r_name :: string
  r_memory_used :: u32

record mem_region_config =
  c_start :: u64
  c_size :: u32
  c_name :: "string option"

record mem_state =
  blocks :: "memory_block_detailed list"
  block_count :: nat
  initialized :: bool
  need_sort :: bool
  g_regions :: "mem_region_t list"
  g_region_count :: int
  heap :: "u64 \<Rightarrow> u8"

type_synonym linker_pools = "nat \<Rightarrow> u32 \<times> u32"

abbreviation MAX_BLOCKS :: nat where "MAX_BLOCKS \<equiv> 256"
abbreviation MAX_MEM_REGIONS :: nat where "MAX_MEM_REGIONS \<equiv> 4"

definition ALIGN_UP64 :: "u64 \<Rightarrow> u32 \<Rightarrow> u64" where
  "ALIGN_UP64 val align = (val + ucast align - 1) AND NOT (ucast align - 1)"

definition ALIGN_UP32 :: "u32 \<Rightarrow> u32 \<Rightarrow> u64" where
  "ALIGN_UP32 val align = ucast (val + align - 1) AND NOT (ucast align - 1)"

definition IS_POWER_OF_2 :: "u32 \<Rightarrow> bool" where
  "IS_POWER_OF_2 x \<longleftrightarrow> x \<noteq> 0 \<and> x AND (x - 1) = 0"

definition free_block :: memory_block_detailed where
  "free_block = \<lparr>b_start = 0, b_size = 0, b_actual_size = 0, b_status = BLOCK_FREE,
     b_region_id = 0\<rparr>"

definition zero_region :: mem_region_t where
  "zero_region = \<lparr>r_start = 0, r_size = 0, r_name = [], r_memory_used = 0\<rparr>"

text \<open>The static variables before the first call: zero-initialised.\<close>

definition boot_state :: "(u64 \<Rightarrow> u8) \<Rightarrow> mem_state" where
  "boot_state h = \<lparr>blocks = replicate MAX_BLOCKS free_block, block_count = 0,
     initialized = False, need_sort = False,
     g_regions = replicate MAX_MEM_REGIONS zero_region, g_region_count = 0, heap = h\<rparr>"

section \<open>Internal helpers\<close>

fun find_free_from :: "memory_block_detailed list \<Rightarrow> int \<Rightarrow> int" where
  "find_free_from [] i = - 1"
| "find_free_from (b # bs) i = (if b_status b = BLOCK_FREE then i else find_free_from bs (i + 1))"

definition find_free_block :: "mem_state \<Rightarrow> int" where
  "find_free_block s = find_free_from (take MAX_BLOCKS (blocks s)) 0"

text \<open>One comparison of the exchange sort, its inner loop and its outer loop.\<close>

definition exchange :: "nat \<Rightarrow> nat \<Rightarrow> memory_block_detailed list \<Rightarrow> memory_block_detailed list" where
  "exchange i j bs = (if b_start (bs ! j) < b_start (bs ! i)
     then bs[i := bs ! j, j := bs ! i] else bs)"

definition sort_row :: "nat \<Rightarrow> nat \<Rightarrow> memory_block_detailed list \<Rightarrow> memory_block_detailed list" where
  "sort_row n i bs = fold (exchange i) [Suc i..<n] bs"

definition sort_blocks :: "nat \<Rightarrow> memory_block_detailed list \<Rightarrow> memory_block_detailed list" where
  "sort_blocks n bs = fold (sort_row n) [0..<n - 1] bs"

definition ensure_blocks_sorted :: "mem_state \<Rightarrow> mem_state" where
  "ensure_blocks_sorted s =
     (if \<not> need_sort s \<or> block_count s \<le> 1 then s
      else s\<lparr>blocks := sort_blocks (block_count s) (blocks s), need_sort := False\<rparr>)"

fun insert_pos :: "u64 \<Rightarrow> memory_block_detailed list \<Rightarrow> nat" where
  "insert_pos p [] = 0"
| "insert_pos p (b # bs) = (if p < b_start b then 0 else Suc (insert_pos p bs))"

definition insert_block_sorted :: "nat \<Rightarrow> u64 \<Rightarrow> u32 \<Rightarrow> u32 \<Rightarrow> mem_state \<Rightarrow> mem_state" where
  "insert_block_sorted region_id start sz actual_size s =
     (if block_count s \<ge> MAX_BLOCKS then s
      else
        let s = ensure_blocks_sorted s;
            n = block_count s;
            pos = insert_pos start (take n (blocks s));
            bs = shift_up pos n (blocks s)
        in s\<lparr>blocks := bs[pos := \<lparr>b_start = start, b_size = sz, b_actual_size = actual_size,
               b_status = BLOCK_USED, b_region_id = of_nat region_id\<rparr>],
             block_count := n + 1, need_sort := True\<rparr>)"

text \<open>The used blocks of one region, in array order (\<open>used_indices\<close> of the code).\<close>

definition used_indices :: "nat \<Rightarrow> mem_state \<Rightarrow> nat list" where
  "used_indices r s = filter (\<lambda>i. b_status (blocks s ! i) = BLOCK_USED
     \<and> unat (b_region_id (blocks s ! i)) = r) [0..<block_count s]"

definition block_end :: "memory_block_detailed \<Rightarrow> u64" where
  "block_end b = b_start b + ucast (b_actual_size b)"

definition gap_bounds :: "nat \<Rightarrow> mem_state \<Rightarrow> nat list \<Rightarrow> nat \<Rightarrow> u64 \<times> u64" where
  "gap_bounds r s used i =
     (let region_start = r_start (g_regions s ! r);
          region_end = region_start + ucast (r_size (g_regions s ! r))
      in (if i = 0 then region_start else block_end (blocks s ! (used ! (i - 1))),
          if i = length used then region_end else b_start (blocks s ! (used ! i))))"

fun first_fit :: "u32 \<Rightarrow> u32 \<Rightarrow> (u64 \<times> u64) list \<Rightarrow> u64" where
  "first_fit sz alignment [] = 0"
| "first_fit sz alignment ((gap_start, gap_end) # gs) =
     (if gap_end - gap_start < ucast sz then first_fit sz alignment gs
      else
        let aligned_start = ALIGN_UP64 gap_start alignment;
            allocated_end = aligned_start + ucast sz
        in if gap_start \<le> aligned_start \<and> allocated_end \<le> gap_end then aligned_start
           else first_fit sz alignment gs)"

definition find_fit_in_region :: "nat \<Rightarrow> u32 \<Rightarrow> u32 \<Rightarrow> mem_state \<Rightarrow> u64 \<times> mem_state" where
  "find_fit_in_region r sz alignment s =
     (let s = ensure_blocks_sorted s; used = used_indices r s
      in (first_fit sz alignment (map (gap_bounds r s used) [0..<Suc (length used)]), s))"

section \<open>Initialisation\<close>

definition region_of_config :: "mem_region_config \<Rightarrow> mem_region_t" where
  "region_of_config c = \<lparr>r_start = c_start c, r_size = c_size c,
     r_name = (case c_name c of None \<Rightarrow> ''UNKNOWN'' | Some n \<Rightarrow> n), r_memory_used = 0\<rparr>"

definition mem_init_with_config ::
  "mem_region_config list \<Rightarrow> int \<Rightarrow> mem_state \<Rightarrow> mem_state" where
  "mem_init_with_config configs num_regions s =
     (let n = (if num_regions > int MAX_MEM_REGIONS then int MAX_MEM_REGIONS else num_regions)
      in s\<lparr>blocks := replicate MAX_BLOCKS free_block, block_count := 0, need_sort := False,
           g_region_count := n,
           g_regions := fold (\<lambda>i rs. rs[i := region_of_config (configs ! i)]) [0..<nat n]
             (g_regions s),
           initialized := True\<rparr>)"

definition mempool_names :: "nat \<Rightarrow> string" where
  "mempool_names i = [''POOL0'', ''POOL1'', ''POOL2'', ''POOL3''] ! i"

definition mempool_get_bounds :: "linker_pools \<Rightarrow> nat \<Rightarrow> u32 \<times> u32" where
  "mempool_get_bounds lk idx = (if idx < MAX_MEM_REGIONS then lk idx else (0, 0))"

definition mempool_configs :: "linker_pools \<Rightarrow> mem_region_config list" where
  "mempool_configs lk = concat (map (\<lambda>i.
     let (start, stop) = mempool_get_bounds lk i; pool_size = stop - start
     in if pool_size > 0
        then [\<lparr>c_start = ucast start, c_size = pool_size, c_name = Some (mempool_names i)\<rparr>]
        else []) [0..<MAX_MEM_REGIONS])"

definition mem_init :: "linker_pools \<Rightarrow> mem_state \<Rightarrow> mem_state" where
  "mem_init lk s =
     (let configs = mempool_configs lk
      in if length configs = 0 then s
         else mem_init_with_config configs (int (length configs)) s)"

section \<open>Region queries and statistics\<close>

definition valid_region :: "int \<Rightarrow> mem_state \<Rightarrow> bool" where
  "valid_region r s \<longleftrightarrow> \<not> (r < 0 \<or> r \<ge> g_region_count s)"

definition mem_get_region_name :: "int \<Rightarrow> mem_state \<Rightarrow> string option" where
  "mem_get_region_name r s = (if valid_region r s then Some (r_name (g_regions s ! nat r)) else None)"

definition mem_get_region_size :: "int \<Rightarrow> mem_state \<Rightarrow> u32" where
  "mem_get_region_size r s = (if valid_region r s then r_size (g_regions s ! nat r) else 0)"

definition mem_get_region_used :: "int \<Rightarrow> mem_state \<Rightarrow> u32" where
  "mem_get_region_used r s = (if valid_region r s then r_memory_used (g_regions s ! nat r) else 0)"

definition mem_get_region_free :: "int \<Rightarrow> mem_state \<Rightarrow> u32" where
  "mem_get_region_free r s =
     (if valid_region r s
      then r_size (g_regions s ! nat r) - r_memory_used (g_regions s ! nat r) else 0)"

definition active_regions :: "mem_state \<Rightarrow> mem_region_t list" where
  "active_regions s = take (nat (g_region_count s)) (g_regions s)"

definition mem_get_used :: "mem_state \<Rightarrow> u32" where
  "mem_get_used s = fold (\<lambda>r total. total + r_memory_used r) (active_regions s) 0"

definition mem_get_free :: "mem_state \<Rightarrow> u32" where
  "mem_get_free s = fold (\<lambda>r total. total + (r_size r - r_memory_used r)) (active_regions s) 0"

definition mem_get_total :: "mem_state \<Rightarrow> u32" where
  "mem_get_total s = fold (\<lambda>r total. total + r_size r) (active_regions s) 0"

definition mem_get_usage_percent :: "mem_state \<Rightarrow> int" where
  "mem_get_usage_percent s =
     (if mem_get_total s = 0 then 0
      else s32 (uint ((mem_get_used s * 100) div mem_get_total s)))"

definition mem_get_used_blocks_count :: "mem_state \<Rightarrow> int" where
  "mem_get_used_blocks_count s =
     int (length (filter (\<lambda>b. b_status b = BLOCK_USED) (take (block_count s) (blocks s))))"

definition mem_get_free_blocks_count :: "mem_state \<Rightarrow> int" where
  "mem_get_free_blocks_count s =
     int (length (filter (\<lambda>b. b_status b = BLOCK_FREE) (take MAX_BLOCKS (blocks s))))"

text \<open>The body of the loop over the regions: the largest gap of region \<open>r\<close>.\<close>

definition region_largest :: "nat \<Rightarrow> mem_state \<Rightarrow> u32" where
  "region_largest r s =
     (let used = used_indices r s; reg = g_regions s ! r; n = length used
      in if n = 0 then r_size reg
         else
           let first_space = ucast (b_start (blocks s ! (used ! 0)) - r_start reg) :: u32;
               largest = (if first_space > 0 then first_space else 0);
               largest = fold (\<lambda>i l.
                 let gap = ucast (b_start (blocks s ! (used ! i))
                              - block_end (blocks s ! (used ! (i - 1)))) :: u32
                 in if gap > l then gap else l) [1..<n] largest;
               after_last = ucast (r_start reg + ucast (r_size reg)
                              - block_end (blocks s ! (used ! (n - 1)))) :: u32
           in if after_last > largest then after_last else largest)"

definition mem_get_largest_free_block :: "mem_state \<Rightarrow> u32 \<times> mem_state" where
  "mem_get_largest_free_block s =
     fold (\<lambda>r (largest, s).
       let s = ensure_blocks_sorted s; l = region_largest r s
       in (if l > largest then l else largest, s)) [0..<nat (g_region_count s)] (0, s)"

definition mem_get_fragmentation_percent :: "mem_state \<Rightarrow> int \<times> mem_state" where
  "mem_get_fragmentation_percent s =
     (let total_free = mem_get_free s; (largest_free, s) = mem_get_largest_free_block s
      in (if total_free = 0 \<or> largest_free = 0 then 0
          else s32 (uint (100 - (largest_free * 100) div total_free)), s))"

section \<open>Allocation\<close>

definition try_alloc_in_region ::
  "nat \<Rightarrow> u32 \<Rightarrow> u32 \<Rightarrow> u32 \<Rightarrow> mem_state \<Rightarrow> u64 \<times> mem_state" where
  "try_alloc_in_region r sz alignment aligned_size s =
     (if aligned_size > r_size (g_regions s ! r) then (0, s)
      else if find_free_block s = - 1 then (0, s)
      else
        let (aligned_ptr, s) = find_fit_in_region r aligned_size alignment s
        in if aligned_ptr = 0 then (0, s)
           else
             let region_start = r_start (g_regions s ! r);
                 region_end = region_start + ucast (r_size (g_regions s ! r))
             in if aligned_ptr < region_start \<or> aligned_ptr \<ge> region_end then (0, s)
                else if aligned_ptr + ucast aligned_size > region_end then (0, s)
                else
                  let s = insert_block_sorted r aligned_ptr sz aligned_size s;
                      reg = g_regions s ! r
                  in (aligned_ptr, s\<lparr>g_regions := (g_regions s)[r :=
                        reg\<lparr>r_memory_used := r_memory_used reg + aligned_size\<rparr>]\<rparr>))"

fun try_regions ::
  "nat list \<Rightarrow> u32 \<Rightarrow> u32 \<Rightarrow> u32 \<Rightarrow> mem_state \<Rightarrow> u64 \<times> mem_state" where
  "try_regions [] sz alignment aligned_size s = (0, s)"
| "try_regions (r # rs) sz alignment aligned_size s =
     (let (p, s) = try_alloc_in_region r sz alignment aligned_size s
      in if p \<noteq> 0 then (p, s) else try_regions rs sz alignment aligned_size s)"

definition mem_alloc_aligned :: "linker_pools \<Rightarrow> u32 \<Rightarrow> u32 \<Rightarrow> mem_state \<Rightarrow> u64 \<times> mem_state" where
  "mem_alloc_aligned lk sz alignment s =
     (let s = (if initialized s then s else mem_init lk s)
      in if sz = 0 then (0, s)
         else
           let alignment = (if alignment = 0 then 1 else alignment)
           in if \<not> IS_POWER_OF_2 alignment then (0, s)
              else if sz > 0xFFFFFFFF - (alignment - 1) then (0, s)
              else
                let aligned_size = ucast (ALIGN_UP32 sz alignment);
                    (p, s) = try_regions [0..<nat (g_region_count s)] sz alignment aligned_size s
                in if p \<noteq> 0 then (p, s) else (0, snd (mem_get_largest_free_block s)))"

definition mem_alloc :: "linker_pools \<Rightarrow> u32 \<Rightarrow> mem_state \<Rightarrow> u64 \<times> mem_state" where
  "mem_alloc lk sz s = mem_alloc_aligned lk sz 4 s"

definition mem_alloc_aligned_from_region ::
  "linker_pools \<Rightarrow> int \<Rightarrow> u32 \<Rightarrow> u32 \<Rightarrow> mem_state \<Rightarrow> u64 \<times> mem_state" where
  "mem_alloc_aligned_from_region lk region_id sz alignment s =
     (let s = (if initialized s then s else mem_init lk s)
      in if region_id < 0 \<or> region_id \<ge> g_region_count s then (0, s)
         else if sz = 0 then (0, s)
         else
           let alignment = (if alignment = 0 then 1 else alignment)
           in if \<not> IS_POWER_OF_2 alignment then (0, s)
              else if sz > 0xFFFFFFFF - (alignment - 1) then (0, s)
              else try_alloc_in_region (nat region_id) sz alignment
                     (ucast (ALIGN_UP32 sz alignment)) s)"

definition mem_alloc_from_region ::
  "linker_pools \<Rightarrow> int \<Rightarrow> u32 \<Rightarrow> mem_state \<Rightarrow> u64 \<times> mem_state" where
  "mem_alloc_from_region lk region_id sz s = mem_alloc_aligned_from_region lk region_id sz 4 s"

fun find_used :: "u64 \<Rightarrow> memory_block_detailed list \<Rightarrow> nat option" where
  "find_used p [] = None"
| "find_used p (b # bs) =
     (if b_start b = p \<and> b_status b = BLOCK_USED then Some 0 else map_option Suc (find_used p bs))"

definition mem_free :: "u64 \<Rightarrow> mem_state \<Rightarrow> mem_state" where
  "mem_free ptr s =
     (if ptr = 0 then s
      else
        case find_used ptr (take (block_count s) (blocks s)) of
          None \<Rightarrow> s
        | Some i \<Rightarrow>
            let b = blocks s ! i; region_id = unat (b_region_id b); freed = b_actual_size b;
                reg = g_regions s ! region_id;
                s = (if int region_id < g_region_count s
                     then s\<lparr>g_regions := (g_regions s)[region_id := reg\<lparr>r_memory_used :=
                            (if r_memory_used reg < freed then 0 else r_memory_used reg - freed)\<rparr>]\<rparr>
                     else s);
                n = block_count s
            in s\<lparr>blocks := (shift_down i n (blocks s))[n - 1 := free_block],
                 block_count := n - 1, need_sort := False\<rparr>)"

section \<open>Zeroed and resized allocation\<close>

definition memset :: "u64 \<Rightarrow> u8 \<Rightarrow> u32 \<Rightarrow> (u64 \<Rightarrow> u8) \<Rightarrow> (u64 \<Rightarrow> u8)" where
  "memset p c n h = (\<lambda>a. if a - p < ucast n then c else h a)"

definition memmove :: "u64 \<Rightarrow> u64 \<Rightarrow> u32 \<Rightarrow> (u64 \<Rightarrow> u8) \<Rightarrow> (u64 \<Rightarrow> u8)" where
  "memmove dst src n h = (\<lambda>a. if a - dst < ucast n then h (src + (a - dst)) else h a)"

definition mem_calloc_aligned ::
  "linker_pools \<Rightarrow> u32 \<Rightarrow> u32 \<Rightarrow> u32 \<Rightarrow> mem_state \<Rightarrow> u64 \<times> mem_state" where
  "mem_calloc_aligned lk cnt sz alignment s =
     (if sz \<noteq> 0 \<and> cnt > 0xFFFFFFFF div sz then (0, s)
      else
        let total_size = cnt * sz; (p, s) = mem_alloc_aligned lk total_size alignment s
        in if p \<noteq> 0 then (p, s\<lparr>heap := memset p 0 total_size (heap s)\<rparr>) else (p, s))"

definition mem_calloc :: "linker_pools \<Rightarrow> u32 \<Rightarrow> u32 \<Rightarrow> mem_state \<Rightarrow> u64 \<times> mem_state" where
  "mem_calloc lk cnt sz s = mem_calloc_aligned lk cnt sz 4 s"

definition mem_realloc_aligned ::
  "linker_pools \<Rightarrow> u64 \<Rightarrow> u32 \<Rightarrow> u32 \<Rightarrow> mem_state \<Rightarrow> u64 \<times> mem_state" where
  "mem_realloc_aligned lk ptr new_size alignment s =
     (if ptr = 0 then mem_alloc_aligned lk new_size alignment s
      else if new_size = 0 then (0, mem_free ptr s)
      else
        let alignment = (if alignment = 0 then 1 else alignment)
        in if \<not> IS_POWER_OF_2 alignment then (0, s)
           else
             case find_used ptr (take (block_count s) (blocks s)) of
               None \<Rightarrow> (0, s)
             | Some i \<Rightarrow>
                 let b = blocks s ! i; old_size = b_size b
                 in if new_size \<le> old_size
                    then (ptr, s\<lparr>blocks := (blocks s)[i := b\<lparr>b_size := new_size\<rparr>]\<rparr>)
                    else
                      let (new_ptr, s) = mem_alloc_aligned lk new_size alignment s
                      in if new_ptr = 0 then (ptr, s)
                         else
                           let copy_size = (if new_size < old_size then new_size else old_size)
                           in (new_ptr,
                               mem_free ptr (s\<lparr>heap := memmove new_ptr ptr copy_size (heap s)\<rparr>)))"

definition mem_realloc :: "linker_pools \<Rightarrow> u64 \<Rightarrow> u32 \<Rightarrow> mem_state \<Rightarrow> u64 \<times> mem_state" where
  "mem_realloc lk ptr new_size s = mem_realloc_aligned lk ptr new_size 4 s"

definition mem_is_aligned :: "u64 \<Rightarrow> u32 \<Rightarrow> bool" where
  "mem_is_aligned ptr alignment \<longleftrightarrow> alignment = 0 \<or> ptr AND ucast (alignment - 1) = 0"

end
