(* ===== verification/Memory_Allocator_Correct.thy ===== *)
theory Memory_Allocator_Correct
  imports Memory_Allocator
begin

text \<open>
  Correctness of the allocator of \<^verbatim>\<open>drivers/kinetis/memory_allocator.c\<close>: the invariant of
  its tables (descriptors sorted, disjoint, inside their region; the per-region usage counters
  exact), its preservation by every entry point, what a successful allocation returns, when an
  allocation succeeds, and the contents guarantees of \<open>mem_calloc\<close> and \<open>mem_realloc\<close>.
\<close>

section \<open>The exchange sort\<close>

lemma fold_unchanged: "(\<And>x. x \<in> set xs \<Longrightarrow> f x s = s) \<Longrightarrow> fold f xs s = s"
  by (induction xs) auto

lemma length_exchange [simp]: "length (exchange i j bs) = length bs"
  by (simp add: exchange_def)

lemma mset_exchange [simp]: "i < length bs \<Longrightarrow> j < length bs \<Longrightarrow> mset (exchange i j bs) = mset bs"
  using mset_swap [of j bs i] by (simp add: exchange_def list_update_swap)

lemma nth_exchange_other: "k \<noteq> i \<Longrightarrow> k \<noteq> j \<Longrightarrow> exchange i j bs ! k = bs ! k"
  by (simp add: exchange_def)

text \<open>Positions below \<open>i\<close> hold the least keys in order; position \<open>i\<close> is least up to \<open>m\<close>.\<close>

definition prefix_least :: "nat \<Rightarrow> nat \<Rightarrow> memory_block_detailed list \<Rightarrow> bool" where
  "prefix_least n i bs \<longleftrightarrow> (\<forall>a<i. \<forall>b<n. a < b \<longrightarrow> b_start (bs ! a) \<le> b_start (bs ! b))"

definition row_least :: "nat \<Rightarrow> nat \<Rightarrow> memory_block_detailed list \<Rightarrow> bool" where
  "row_least i m bs \<longleftrightarrow> (\<forall>b<m. i < b \<longrightarrow> b_start (bs ! i) \<le> b_start (bs ! b))"

lemma exchange_keeps_prefix:
  assumes "i < j" "j < n" "n \<le> length bs" "prefix_least n i bs"
  shows "prefix_least n i (exchange i j bs)"
  using assms unfolding prefix_least_def exchange_def
  by (auto simp: nth_list_update)

lemma exchange_extends_row:
  assumes "i < j" "j < length bs" "row_least i j bs"
  shows "row_least i (Suc j) (exchange i j bs)"
  using assms unfolding row_least_def exchange_def
  by (auto simp: nth_list_update less_Suc_eq not_less)

lemma sort_row_inv:
  assumes "n \<le> length bs" "prefix_least n i bs" "m \<le> n"
  shows "let bs' = fold (exchange i) [Suc i..<m] bs in
    length bs' = length bs \<and> mset bs' = mset bs \<and> drop n bs' = drop n bs
    \<and> prefix_least n i bs' \<and> row_least i m bs'"
  using assms(3)
proof (induction m)
  case 0
  then show ?case using assms by (simp add: row_least_def)
next
  case (Suc m)
  let ?f = "fold (exchange i) [Suc i..<m] bs"
  have IH: "length ?f = length bs" "mset ?f = mset bs" "drop n ?f = drop n bs"
    "prefix_least n i ?f" "row_least i m ?f"
    using Suc by (auto simp: Let_def)
  show ?case
  proof (cases "i < m")
    case True
    have len: "m < length ?f" using IH(1) Suc.prems assms(1) by simp
    have d: "drop n (exchange i m ?f) = drop n ?f"
      using Suc.prems True by (simp add: exchange_def drop_update_cancel)
    show ?thesis
      using True Suc.prems IH len d exchange_keeps_prefix [of i m n ?f]
        exchange_extends_row [of i m ?f] assms(1)
      by (simp add: Let_def)
  next
    case False
    with IH show ?thesis by (auto simp: Let_def row_least_def)
  qed
qed

lemma sort_blocks_inv:
  assumes "n \<le> length bs" "m < n"
  shows "let bs' = fold (sort_row n) [0..<m] bs in
    length bs' = length bs \<and> mset bs' = mset bs \<and> drop n bs' = drop n bs \<and> prefix_least n m bs'"
  using assms(2)
proof (induction m)
  case 0
  then show ?case by (simp add: prefix_least_def)
next
  case (Suc m)
  let ?f = "fold (sort_row n) [0..<m] bs"
  have IH: "length ?f = length bs" "mset ?f = mset bs" "drop n ?f = drop n bs" "prefix_least n m ?f"
    using Suc by (auto simp: Let_def)
  have "prefix_least n (Suc m) bs'" if "prefix_least n m bs'" "row_least m n bs'" for bs'
    using that by (auto simp: prefix_least_def row_least_def less_Suc_eq)
  moreover have "fold (sort_row n) [0..<Suc m] bs = fold (exchange m) [Suc m..<n] ?f"
    by (simp add: sort_row_def [of n m ?f])
  ultimately show ?case
    using sort_row_inv [of n ?f m n] IH assms(1) by (simp add: Let_def)
qed

lemma sort_blocks_sorts:
  assumes "n \<le> length bs"
  shows "length (sort_blocks n bs) = length bs"
    and "mset (take n (sort_blocks n bs)) = mset (take n bs)"
    and "drop n (sort_blocks n bs) = drop n bs"
    and "sorted (map b_start (take n (sort_blocks n bs)))"
proof -
  let ?r = "sort_blocks n bs"
  have r: "length ?r = length bs \<and> mset ?r = mset bs \<and> drop n ?r = drop n bs
      \<and> (n \<noteq> 0 \<longrightarrow> prefix_least n (n - 1) ?r)"
    using sort_blocks_inv [of n bs "n - 1"] assms
    by (cases n) (auto simp: sort_blocks_def Let_def)
  then show "length ?r = length bs" and d: "drop n ?r = drop n bs" by auto
  have "mset (take n ?r) + mset (drop n ?r) = mset (take n bs) + mset (drop n bs)"
    using r by (metis append_take_drop_id mset_append)
  with d show "mset (take n ?r) = mset (take n bs)" by simp
  show "sorted (map b_start (take n ?r))"
    using r assms by (auto simp: sorted_iff_nth_mono_less prefix_least_def)
qed

lemma sort_blocks_id:
  assumes "sorted (map b_start (take n bs))" "n \<le> length bs"
  shows "sort_blocks n bs = bs"
proof -
  have *: "b_start (bs ! i) \<le> b_start (bs ! j)" if "i < j" "j < n" for i j
    using sorted_nth_mono [OF assms(1), of i j] that assms(2) by simp
  have "exchange i j bs = bs" if "j \<in> set [Suc i..<n]" for i j
    using * [of i j] that by (auto simp: exchange_def linorder_not_less [symmetric])
  then have "sort_row n i bs = bs" for i
    unfolding sort_row_def by (rule fold_unchanged)
  then show ?thesis
    unfolding sort_blocks_def by (simp add: fold_unchanged)
qed

section \<open>Insertion into the sorted array\<close>

lemma insert_pos_takeWhile: "insert_pos p bs = length (takeWhile (\<lambda>b. \<not> p < b_start b) bs)"
  by (induction bs) auto

lemma insert_pos_le: "insert_pos p bs \<le> length bs"
  by (simp add: insert_pos_takeWhile length_takeWhile_le)

text \<open>The address intervals of blocks, as natural numbers.\<close>

definition lo :: "memory_block_detailed \<Rightarrow> nat" where
  "lo b = unat (b_start b)"

definition hi :: "memory_block_detailed \<Rightarrow> nat" where
  "hi b = unat (b_start b) + unat (b_actual_size b)"

definition before :: "memory_block_detailed \<Rightarrow> memory_block_detailed \<Rightarrow> bool" where
  "before a b \<longleftrightarrow> hi a \<le> lo b"

lemma lo_le_hi: "lo b \<le> hi b"
  by (simp add: lo_def hi_def)

lemma before_trans: "before a b \<Longrightarrow> before b c \<Longrightarrow> before a c"
  using lo_le_hi [of b] by (simp add: before_def)

lemma before_sorted: "sorted_wrt before bs \<Longrightarrow> sorted (map b_start bs)"
  using lo_le_hi
  by (induction bs) (auto simp: before_def lo_def hi_def word_le_nat_alt intro: order_trans le_add1)

lemma insert_keeps_disjoint:
  assumes u: "sorted_wrt before u"
    and pos: "lo new < hi new"
    and dis: "\<And>b. b \<in> set u \<Longrightarrow> lo b < hi b \<and> (before b new \<or> before new b)"
  shows "sorted_wrt before
    (take (insert_pos (b_start new) u) u @ new # drop (insert_pos (b_start new) u) u)"
proof -
  let ?P = "\<lambda>b. \<not> b_start new < b_start b"
  have split: "take (insert_pos (b_start new) u) u = takeWhile ?P u"
    "drop (insert_pos (b_start new) u) u = dropWhile ?P u"
    by (simp_all add: insert_pos_takeWhile takeWhile_eq_take [symmetric] dropWhile_eq_drop [symmetric])
  have l: "before b new" if "b \<in> set (takeWhile ?P u)" for b
  proof -
    have "b \<in> set u" "?P b" using that by (auto dest: set_takeWhileD)
    then have "\<not> before new b"
      using pos by (auto simp: before_def lo_def hi_def not_less word_le_nat_alt)
    with dis \<open>b \<in> set u\<close> show ?thesis by blast
  qed
  have r: "before new b" if b: "b \<in> set (dropWhile ?P u)" for b
  proof -
    have sd: "sorted_wrt before (dropWhile ?P u)"
      using u by (metis sorted_wrt_append takeWhile_dropWhile_id)
    obtain c cs where c: "dropWhile ?P u = c # cs" using b by (cases "dropWhile ?P u") auto
    have "\<not> ?P c" using c by (metis dropWhile_eq_Cons_conv)
    then have "lo new < lo c" by (simp add: lo_def word_less_nat_alt)
    moreover have "lo c \<le> lo b"
      using sd b c lo_le_hi [of c] by (auto simp: before_def)
    moreover have "b \<in> set u" using b by (auto dest: set_dropWhileD)
    ultimately have "\<not> before b new" using dis [of b] by (auto simp: before_def)
    with dis \<open>b \<in> set u\<close> show ?thesis by blast
  qed
  have "sorted_wrt before (takeWhile ?P u @ dropWhile ?P u)" using u by simp
  then show ?thesis
    unfolding split using l r by (auto simp: sorted_wrt_append intro: before_trans)
qed

section \<open>Alignment\<close>

lemma power_of_2_nat:
  fixes n :: nat
  assumes "0 < n" "n AND (n - 1) = 0"
  shows "\<exists>k. n = 2 ^ k"
proof -
  obtain k where k: "2 ^ k \<le> n" "n < 2 ^ Suc k"
    using ex_power_ivl1 [of 2 n] assms(1) by auto
  have "n = 2 ^ k"
  proof (rule ccontr)
    assume "n \<noteq> 2 ^ k"
    with k have "2 ^ k \<le> n - 1" "n - 1 < 2 ^ Suc k" by auto
    then have "(n - 1) div 2 ^ k = 1" "n div 2 ^ k = 1"
      using k by (auto intro!: div_nat_eqI)
    then have "bit (n AND (n - 1)) k"
      unfolding bit_and_iff by (simp add: bit_iff_odd)
    with assms(2) show False by simp
  qed
  then show ?thesis ..
qed

lemma IS_POWER_OF_2_iff: "IS_POWER_OF_2 x \<longleftrightarrow> (\<exists>k<32. x = 2 ^ k)"
proof
  assume x: "IS_POWER_OF_2 x"
  then have pos: "0 < unat x" by (simp add: IS_POWER_OF_2_def unat_gt_0)
  have "unat (x AND (x - 1)) = unat x AND (unat x - 1)"
    using pos by (simp add: unsigned_and_eq unat_minus_one unat_gt_0)
  with x have "unat x AND (unat x - 1) = 0" by (simp add: IS_POWER_OF_2_def)
  with pos obtain k where k: "unat x = 2 ^ k" using power_of_2_nat by blast
  then have "(2::nat) ^ k < 2 ^ 32" using unat_lt_32 [of x] by simp
  then have "k < 32" by (rule power_less_imp_less_exp [rotated]) simp
  moreover have "x = 2 ^ k" using k by (intro unsigned_word_eqI [where ?'a = nat]) (simp add: unat_exp \<open>k < 32\<close>)
  ultimately show "\<exists>k<32. x = 2 ^ k" by blast
next
  assume "\<exists>k<32. x = 2 ^ k"
  then obtain k where k: "k < 32" "x = 2 ^ k" by blast
  have "(2 ^ k :: u32) AND (2 ^ k - 1) = 0"
    by (rule bit_word_eqI) (auto simp: bit_simps mask_eq_exp_minus_1 [symmetric])
  moreover have "(2 ^ k :: u32) \<noteq> 0" using k(1) by (simp add: exp_eq_zero_iff)
  ultimately show "IS_POWER_OF_2 x" using k by (simp add: IS_POWER_OF_2_def)
qed

lemma unat_and_not_mask: "unat ((w :: u64) AND NOT (2 ^ k - 1)) = unat w div 2 ^ k * 2 ^ k"
proof -
  have "w AND NOT (2 ^ k - 1) = push_bit k (drop_bit k w)"
    by (rule bit_word_eqI) (auto simp: bit_simps mask_eq_exp_minus_1 [symmetric])
  moreover have "unat (push_bit k (drop_bit k w)) = take_bit 64 (push_bit k (drop_bit k (unat w)))"
    by (simp only: unsigned_push_bit_eq unat_drop_bit_eq) simp
  ultimately have "unat (w AND NOT (2 ^ k - 1)) = take_bit 64 (unat w div 2 ^ k * 2 ^ k)"
    by (simp only: push_bit_eq_mult drop_bit_eq_div)
  moreover have "unat w div 2 ^ k * 2 ^ k < 2 ^ 64"
    using le_less_trans [OF div_times_less_eq_dividend unat_lt_64 [of w]] by simp
  ultimately show ?thesis by (simp only: take_bit_nat_eq_self)
qed

definition round_up :: "nat \<Rightarrow> nat \<Rightarrow> nat" where
  "round_up a x = (x + a - 1) div a * a"

lemma round_up_bounds:
  assumes "0 < a"
  shows "x \<le> round_up a x" "round_up a x < x + a" "a dvd round_up a x"
proof -
  have "(x + a - 1) div a * a + (x + a - 1) mod a = x + a - 1" by simp
  moreover have "(x + a - 1) mod a < a" using assms by simp
  ultimately show "x \<le> round_up a x" "round_up a x < x + a"
    using assms unfolding round_up_def by linarith+
qed (simp add: round_up_def)

lemma round_up_least:
  assumes "0 < a" "a dvd y" "x \<le> y"
  shows "round_up a x \<le> y"
proof -
  obtain q where q: "y = a * q" using assms(2) by blast
  have "(x + a - 1) div a < Suc q"
    using assms(1,3) q by (intro div_less_iff_less_mult [THEN iffD2]) (auto simp: algebra_simps)
  then show ?thesis using q by (simp add: round_up_def mult.commute)
qed

lemma unat_exp_32: "k < 32 \<Longrightarrow> unat (2 ^ k :: u32) = 2 ^ k"
  by (simp add: unat_exp)

lemma ucast_exp: "k < 32 \<Longrightarrow> (ucast (2 ^ k :: u32) :: u64) = 2 ^ k"
  by (rule unsigned_word_eqI [where ?'a = nat]) (simp add: unat_exp)

lemma unat_ALIGN_UP64:
  assumes "k < 32" "unat val + 2 ^ k \<le> 2 ^ 64"
  shows "unat (ALIGN_UP64 val (2 ^ k)) = round_up (2 ^ k) (unat val)"
proof -
  have 1: "unat (2 ^ k - 1 :: u64) = 2 ^ k - 1"
    using assms(1) by (simp add: unat_exp_minus_1)
  have "unat (val + (2 ^ k - 1)) = unat val + (2 ^ k - 1)"
    by (subst unat_add_no_wrap) (use assms(2) one_le_power [of "2::nat" k] 1 in auto)
  then have "unat (val + 2 ^ k - 1) = unat val + 2 ^ k - 1" by (simp add: add_diff_eq)
  then show ?thesis
    using assms(1) by (simp add: ALIGN_UP64_def ucast_exp unat_and_not_mask round_up_def)
qed

lemma unat_ALIGN_UP32:
  assumes "k < 32" "unat val + (2 ^ k - 1) < 2 ^ 32"
  shows "unat (ucast (ALIGN_UP32 val (2 ^ k)) :: u32) = round_up (2 ^ k) (unat val)"
proof -
  have 1: "unat (2 ^ k - 1 :: u32) = 2 ^ k - 1"
    using assms(1) by (simp add: unat_exp_minus_1)
  have "unat (val + (2 ^ k - 1)) = unat val + (2 ^ k - 1)"
    by (subst unat_add_no_wrap) (use assms(2) 1 in auto)
  then have u: "unat (val + 2 ^ k - 1) = unat val + 2 ^ k - 1" by (simp add: add_diff_eq)
  have "unat (ALIGN_UP32 val (2 ^ k)) = round_up (2 ^ k) (unat val)"
    using assms(1) u by (simp add: ALIGN_UP32_def ucast_exp unat_and_not_mask round_up_def)
  moreover have "round_up (2 ^ k) (unat val) < 2 ^ 32"
    using le_less_trans [OF div_times_less_eq_dividend [of "unat val + 2 ^ k - 1" "2 ^ k"]]
      assms(2) one_le_power [of "2::nat" k] by (simp add: round_up_def)
  ultimately show ?thesis
    by (simp add: unsigned_ucast_eq take_bit_nat_eq_self)
qed

lemma mem_is_aligned_iff:
  assumes "k < 32"
  shows "mem_is_aligned p (2 ^ k) \<longleftrightarrow> 2 ^ k dvd unat p"
proof -
  have m: "(ucast (2 ^ k - 1 :: u32) :: u64) = mask k"
    using assms by (intro unsigned_word_eqI [where ?'a = nat])
      (simp add: unat_exp_minus_1 mask_eq_exp_minus_1)
  have "p AND mask k = 0 \<longleftrightarrow> unat p mod 2 ^ k = 0"
    by (simp only: take_bit_eq_mask [symmetric] word_unat_eq_iff unsigned_take_bit_eq)
      (simp add: take_bit_eq_mod)
  then show ?thesis
    using assms m by (simp add: mem_is_aligned_def dvd_eq_mod_eq_0 exp_eq_zero_iff)
qed

section \<open>The gaps of a region\<close>

fun gaps :: "u64 \<Rightarrow> u64 \<Rightarrow> memory_block_detailed list \<Rightarrow> (u64 \<times> u64) list" where
  "gaps a z [] = [(a, z)]"
| "gaps a z (b # bs) = (a, b_start b) # gaps (block_end b) z bs"

lemma length_gaps [simp]: "length (gaps a z bs) = Suc (length bs)"
  by (induction bs arbitrary: a) auto

lemma nth_gaps:
  "i \<le> length bs \<Longrightarrow> gaps a z bs ! i =
     (if i = 0 then a else block_end (bs ! (i - 1)), if i = length bs then z else b_start (bs ! i))"
proof (induction bs arbitrary: a i)
  case Nil
  then show ?case by simp
next
  case (Cons b bs)
  then show ?case by (cases i) auto
qed

lemma map_nth_filter:
  assumes "n \<le> length xs"
  shows "map ((!) xs) (filter (\<lambda>i. P (xs ! i)) [0..<n]) = filter P (take n xs)"
proof -
  have "take n xs = map ((!) xs) [0..<n]"
    using assms by (auto intro: nth_equalityI)
  then show ?thesis by (simp add: filter_map comp_def)
qed

definition region_blocks :: "nat \<Rightarrow> mem_state \<Rightarrow> memory_block_detailed list" where
  "region_blocks r s = filter (\<lambda>b. b_status b = BLOCK_USED \<and> unat (b_region_id b) = r)
     (take (block_count s) (blocks s))"

definition region_end :: "mem_region_t \<Rightarrow> u64" where
  "region_end reg = r_start reg + ucast (r_size reg)"

lemma nth_used_indices:
  assumes "block_count s \<le> length (blocks s)"
  shows "map ((!) (blocks s)) (used_indices r s) = region_blocks r s"
  using map_nth_filter [OF assms, of "\<lambda>b. b_status b = BLOCK_USED \<and> unat (b_region_id b) = r"]
  by (simp add: used_indices_def region_blocks_def)

lemma gap_bounds_eq:
  assumes "block_count s \<le> length (blocks s)"
  shows "map (gap_bounds r s (used_indices r s)) [0..<Suc (length (used_indices r s))]
    = gaps (r_start (g_regions s ! r)) (region_end (g_regions s ! r)) (region_blocks r s)"
proof (rule nth_equalityI)
  have len: "length (region_blocks r s) = length (used_indices r s)"
    using nth_used_indices [OF assms, of r] by (metis length_map)
  show "length (map (gap_bounds r s (used_indices r s)) [0..<Suc (length (used_indices r s))])
    = length (gaps (r_start (g_regions s ! r)) (region_end (g_regions s ! r)) (region_blocks r s))"
    using len by simp
  fix i assume "i < length (map (gap_bounds r s (used_indices r s))
      [0..<Suc (length (used_indices r s))])"
  then have i: "i \<le> length (used_indices r s)" by simp
  have nth: "region_blocks r s ! j = blocks s ! (used_indices r s ! j)"
    if "j < length (used_indices r s)" for j
    using nth_used_indices [OF assms, of r] that by (metis nth_map)
  show "map (gap_bounds r s (used_indices r s)) [0..<Suc (length (used_indices r s))] ! i
    = gaps (r_start (g_regions s ! r)) (region_end (g_regions s ! r)) (region_blocks r s) ! i"
    using i len nth [of i] nth [of "i - 1"]
    by (cases i)
      (auto simp: nth_gaps gap_bounds_def region_end_def Let_def Suc_le_eq simp del: upt_Suc)
qed

section \<open>First fit\<close>

lemma first_fit_step:
  assumes k: "k < 32" and g: "unat gs \<le> unat ge" "unat ge < 2 ^ 63"
  shows "first_fit sz (2 ^ k) ((gs, ge) # g) =
    (if round_up (2 ^ k) (unat gs) + unat sz \<le> unat ge then ALIGN_UP64 gs (2 ^ k)
     else first_fit sz (2 ^ k) g)"
proof -
  have p: "(2::nat) ^ k \<le> 2 ^ 32" using k by (intro power_increasing) auto
  let ?a = "ALIGN_UP64 gs (2 ^ k)"
  have a: "unat ?a = round_up (2 ^ k) (unat gs)"
    using g p by (intro unat_ALIGN_UP64 [OF k]) simp
  have b: "unat gs \<le> unat ?a" "unat ?a < unat gs + 2 ^ k"
    using round_up_bounds [of "2 ^ k" "unat gs"] a by auto
  have e: "unat (?a + ucast sz) = unat ?a + unat sz"
    using b(2) g p unat_lt_32 [of sz] by (subst unat_add_no_wrap) auto
  have d: "unat (ge - gs) = unat ge - unat gs" using g by (simp add: unat_sub_no_wrap)
  have "ge - gs < ucast sz \<Longrightarrow> \<not> unat ?a + unat sz \<le> unat ge"
    using b d g by (simp add: word_less_nat_alt)
  then show ?thesis
    using a b e by (auto simp: Let_def word_le_nat_alt)
qed

lemma unat_block_end:
  assumes "hi b < 2 ^ 64"
  shows "unat (block_end b) = hi b"
  using assms by (simp add: block_end_def hi_def unat_word_ariths)

text \<open>Blocks of a region: in order, disjoint, inside the region's bounds.\<close>

definition within :: "u64 \<Rightarrow> u64 \<Rightarrow> memory_block_detailed list \<Rightarrow> bool" where
  "within a z bs \<longleftrightarrow> sorted_wrt before bs \<and> unat a \<le> unat z \<and> unat z < 2 ^ 63
     \<and> (\<forall>b\<in>set bs. unat a \<le> lo b \<and> hi b \<le> unat z)"

lemma within_Cons:
  assumes "within a z (b # bs)"
  shows "unat a \<le> unat (b_start b)" "unat (b_start b) < 2 ^ 63" "unat (block_end b) = hi b"
    "within (block_end b) z bs"
proof -
  have b: "unat a \<le> lo b" "hi b \<le> unat z" "unat z < 2 ^ 63"
    using assms by (auto simp: within_def)
  then show "unat a \<le> unat (b_start b)" "unat (b_start b) < 2 ^ 63"
    using lo_le_hi [of b] by (auto simp: lo_def)
  show e: "unat (block_end b) = hi b" using b by (intro unat_block_end) simp
  show "within (block_end b) z bs"
    using assms b by (auto simp: within_def e before_def)
qed

lemma first_fit_sound:
  assumes "k < 32" "within a z bs" "first_fit sz (2 ^ k) (gaps a z bs) = p" "p \<noteq> 0"
  shows "unat a \<le> unat p \<and> unat p + unat sz \<le> unat z \<and> 2 ^ k dvd unat p
    \<and> (\<forall>b\<in>set bs. hi b \<le> unat p \<or> unat p + unat sz \<le> lo b)"
  using assms(2,3)
proof (induction bs arbitrary: a)
  case Nil
  have g: "unat a \<le> unat z" "unat z < 2 ^ 63" using Nil by (auto simp: within_def)
  have p: "(2::nat) ^ k \<le> 2 ^ 32" using assms(1) by (intro power_increasing) auto
  show ?case
    using Nil(2) assms(4) first_fit_step [OF assms(1) g] g p unat_ALIGN_UP64 [OF assms(1), of a]
      round_up_bounds [of "2 ^ k" "unat a"]
    by (auto split: if_splits)
next
  case (Cons b bs)
  note w = within_Cons [OF Cons.prems(1)]
  have p: "(2::nat) ^ k \<le> 2 ^ 32" using assms(1) by (intro power_increasing) auto
  show ?case
  proof (cases "round_up (2 ^ k) (unat a) + unat sz \<le> unat (b_start b)")
    case True
    then have pa: "unat p = round_up (2 ^ k) (unat a)"
      using Cons.prems(2) first_fit_step [OF assms(1) w(1,2)] w(1,2) p
        unat_ALIGN_UP64 [OF assms(1), of a] by auto
    have "lo b \<le> lo c" if "c \<in> set bs" for c
      using Cons.prems(1) that lo_le_hi [of b] by (auto simp: within_def before_def)
    then show ?thesis
      using True pa round_up_bounds [of "2 ^ k" "unat a"] Cons.prems(1) lo_le_hi [of b]
      by (fastforce simp: within_def lo_def)
  next
    case False
    then have "first_fit sz (2 ^ k) (gaps (block_end b) z bs) = p"
      using Cons.prems(2) first_fit_step [OF assms(1) w(1,2)] by simp
    from Cons.IH [OF w(4) this] show ?thesis
      using w(1,3) lo_le_hi [of b] by (auto simp: lo_def)
  qed
qed

lemma first_fit_complete:
  assumes "k < 32" "within a z bs" "0 < unat a" "first_fit sz (2 ^ k) (gaps a z bs) = 0"
  shows "\<forall>(g, h) \<in> set (gaps a z bs). unat h < round_up (2 ^ k) (unat g) + unat sz"
  using assms(2-)
proof (induction bs arbitrary: a)
  case Nil
  have g: "unat a \<le> unat z" "unat z < 2 ^ 63" using Nil by (auto simp: within_def)
  have p: "(2::nat) ^ k \<le> 2 ^ 32" using assms(1) by (intro power_increasing) auto
  have "ALIGN_UP64 a (2 ^ k) \<noteq> 0"
    using unat_ALIGN_UP64 [OF assms(1), of a] g p Nil(2) round_up_bounds [of "2 ^ k" "unat a"]
    by auto
  then show ?case using Nil(3) first_fit_step [OF assms(1) g] by (auto split: if_splits)
next
  case (Cons b bs)
  note w = within_Cons [OF Cons.prems(1)]
  have p: "(2::nat) ^ k \<le> 2 ^ 32" using assms(1) by (intro power_increasing) auto
  have "ALIGN_UP64 a (2 ^ k) \<noteq> 0"
    using unat_ALIGN_UP64 [OF assms(1), of a] w(1,2) p Cons.prems(2)
      round_up_bounds [of "2 ^ k" "unat a"] by auto
  then have n: "\<not> round_up (2 ^ k) (unat a) + unat sz \<le> unat (b_start b)"
    "first_fit sz (2 ^ k) (gaps (block_end b) z bs) = 0"
    using Cons.prems(3) first_fit_step [OF assms(1) w(1,2)] by (auto split: if_splits)
  have "0 < unat (block_end b)" using Cons.prems(2) w(1,3) lo_le_hi [of b] by (simp add: lo_def)
  from Cons.IH [OF w(4) this n(2)] n(1) show ?case by auto
qed

section \<open>The invariant\<close>

definition used_blocks :: "mem_state \<Rightarrow> memory_block_detailed list" where
  "used_blocks s = take (block_count s) (blocks s)"

definition regions_ok :: "mem_region_t list \<Rightarrow> bool" where
  "regions_ok rs \<longleftrightarrow>
     (\<forall>reg\<in>set rs. 0 < unat (r_start reg) \<and> unat (r_start reg) + unat (r_size reg) < 2 ^ 63)
     \<and> (\<forall>i<length rs. \<forall>j<length rs. i \<noteq> j \<longrightarrow>
          unat (r_start (rs ! i)) + unat (r_size (rs ! i)) \<le> unat (r_start (rs ! j))
          \<or> unat (r_start (rs ! j)) + unat (r_size (rs ! j)) \<le> unat (r_start (rs ! i)))"

definition block_ok :: "mem_region_t list \<Rightarrow> memory_block_detailed \<Rightarrow> bool" where
  "block_ok rs b \<longleftrightarrow> b_status b = BLOCK_USED \<and> unat (b_region_id b) < length rs
     \<and> unat (r_start (rs ! unat (b_region_id b))) \<le> lo b
     \<and> hi b \<le> unat (r_start (rs ! unat (b_region_id b))) + unat (r_size (rs ! unat (b_region_id b)))
     \<and> 0 < unat (b_size b) \<and> unat (b_size b) \<le> unat (b_actual_size b)"

definition usage :: "nat \<Rightarrow> mem_state \<Rightarrow> nat" where
  "usage r s = sum_list (map (\<lambda>b. unat (b_actual_size b)) (region_blocks r s))"

definition mem_inv :: "mem_state \<Rightarrow> bool" where
  "mem_inv s \<longleftrightarrow> length (blocks s) = MAX_BLOCKS \<and> length (g_regions s) = MAX_MEM_REGIONS
     \<and> 0 \<le> g_region_count s \<and> g_region_count s \<le> 4 \<and> block_count s \<le> MAX_BLOCKS
     \<and> drop (block_count s) (blocks s) = replicate (MAX_BLOCKS - block_count s) free_block
     \<and> sorted_wrt before (used_blocks s)
     \<and> (\<forall>b\<in>set (used_blocks s). block_ok (active_regions s) b)
     \<and> regions_ok (active_regions s)
     \<and> (\<forall>r<nat (g_region_count s). unat (r_memory_used (g_regions s ! r)) = usage r s)"

lemmas mem_inv_defs = mem_inv_def used_blocks_def active_regions_def usage_def region_blocks_def

lemma need_sort_irrelevant [simp]:
  "mem_inv (s\<lparr>need_sort := x\<rparr>) = mem_inv s"
  "used_blocks (s\<lparr>need_sort := x\<rparr>) = used_blocks s"
  "active_regions (s\<lparr>need_sort := x\<rparr>) = active_regions s"
  "region_blocks r (s\<lparr>need_sort := x\<rparr>) = region_blocks r s"
  "used_indices r (s\<lparr>need_sort := x\<rparr>) = used_indices r s"
  "region_largest r (s\<lparr>need_sort := x\<rparr>) = region_largest r s"
  by (simp_all add: mem_inv_defs used_indices_def region_largest_def Let_def)

lemma heap_irrelevant [simp]:
  "mem_inv (s\<lparr>heap := x\<rparr>) = mem_inv s"
  "used_blocks (s\<lparr>heap := x\<rparr>) = used_blocks s"
  by (simp_all add: mem_inv_defs)

lemma active_length: "mem_inv s \<Longrightarrow> length (active_regions s) = nat (g_region_count s)"
  by (auto simp: mem_inv_def active_regions_def min_def)

lemma active_nth: "mem_inv s \<Longrightarrow> r < nat (g_region_count s) \<Longrightarrow> active_regions s ! r = g_regions s ! r"
  by (simp add: active_regions_def)

lemma region_blocks_used:
  "mem_inv s \<Longrightarrow> region_blocks r s = filter (\<lambda>b. unat (b_region_id b) = r) (used_blocks s)"
  by (auto simp: mem_inv_def region_blocks_def used_blocks_def block_ok_def intro!: filter_cong)

lemma region_end_unat:
  assumes "mem_inv s" "r < nat (g_region_count s)"
  shows "unat (region_end (g_regions s ! r))
       = unat (r_start (g_regions s ! r)) + unat (r_size (g_regions s ! r))"
    and "unat (region_end (g_regions s ! r)) < 2 ^ 63"
    and "0 < unat (r_start (g_regions s ! r))"
proof -
  have "g_regions s ! r \<in> set (active_regions s)"
    using assms active_nth active_length by (metis nth_mem)
  then have *: "0 < unat (r_start (g_regions s ! r))"
    "unat (r_start (g_regions s ! r)) + unat (r_size (g_regions s ! r)) < 2 ^ 63"
    using assms(1) by (auto simp: mem_inv_def regions_ok_def)
  then show "0 < unat (r_start (g_regions s ! r))" by simp
  show "unat (region_end (g_regions s ! r))
       = unat (r_start (g_regions s ! r)) + unat (r_size (g_regions s ! r))"
    using * by (simp add: region_end_def unat_word_ariths)
  with * show "unat (region_end (g_regions s ! r)) < 2 ^ 63" by simp
qed

lemma region_within:
  assumes "mem_inv s" "r < nat (g_region_count s)"
  shows "within (r_start (g_regions s ! r)) (region_end (g_regions s ! r)) (region_blocks r s)"
proof -
  have "sorted_wrt before (region_blocks r s)"
    using assms(1) by (simp add: region_blocks_used sorted_wrt_filter mem_inv_def)
  moreover have "unat (r_start (g_regions s ! r)) \<le> lo b \<and> hi b \<le> unat (region_end (g_regions s ! r))"
    if "b \<in> set (region_blocks r s)" for b
    using that assms active_nth [OF assms] region_end_unat [OF assms]
    by (auto simp: region_blocks_used mem_inv_def block_ok_def)
  ultimately show ?thesis
    using region_end_unat [OF assms] by (simp add: within_def)
qed

lemma within_sum:
  "within a z bs \<Longrightarrow> sum_list (map (\<lambda>b. unat (b_actual_size b)) bs) \<le> unat z - unat a"
proof (induction bs arbitrary: a)
  case Nil
  then show ?case by simp
next
  case (Cons b bs)
  note w = within_Cons [OF Cons.prems]
  have "hi b \<le> unat z" using Cons.prems by (simp add: within_def)
  then show ?case using Cons.IH [OF w(4)] w(1,3) by (simp add: hi_def)
qed

lemma usage_le:
  assumes "mem_inv s" "r < nat (g_region_count s)"
  shows "usage r s \<le> unat (r_size (g_regions s ! r))"
  using within_sum [OF region_within [OF assms]] region_end_unat [OF assms]
  by (simp add: usage_def)

lemma ensure_blocks_sorted_inv:
  assumes "mem_inv s"
  shows "ensure_blocks_sorted s = s\<lparr>need_sort := need_sort s \<and> block_count s \<le> 1\<rparr>"
proof -
  have "sorted (map b_start (used_blocks s))"
    using assms before_sorted by (auto simp: mem_inv_def)
  then have "sort_blocks (block_count s) (blocks s) = blocks s"
    using assms by (intro sort_blocks_id) (auto simp: mem_inv_def used_blocks_def)
  then show ?thesis by (cases s) (auto simp: ensure_blocks_sorted_def)
qed

lemma find_free_from_none:
  "0 \<le> i \<Longrightarrow> find_free_from bs i = - 1 \<longleftrightarrow> (\<forall>b\<in>set bs. b_status b \<noteq> BLOCK_FREE)"
  by (induction bs arbitrary: i) auto

lemma blocks_split: "mem_inv s \<Longrightarrow>
    blocks s = used_blocks s @ replicate (MAX_BLOCKS - block_count s) free_block"
  unfolding mem_inv_def used_blocks_def by (metis append_take_drop_id)

lemma find_free_block_none:
  assumes "mem_inv s"
  shows "find_free_block s = - 1 \<longleftrightarrow> block_count s = MAX_BLOCKS"
proof -
  have "set (blocks s) = set (used_blocks s) \<union> set (replicate (MAX_BLOCKS - block_count s) free_block)"
    using blocks_split [OF assms] by (metis set_append)
  moreover have "\<forall>b\<in>set (used_blocks s). b_status b \<noteq> BLOCK_FREE"
    using assms by (auto simp: mem_inv_def block_ok_def)
  moreover have "block_count s \<le> MAX_BLOCKS" "take MAX_BLOCKS (blocks s) = blocks s"
    using assms by (auto simp: mem_inv_def)
  ultimately show ?thesis
    by (auto simp: find_free_block_def find_free_from_none free_block_def set_replicate_conv_if
        split: if_splits)
qed

section \<open>Allocation inside a region\<close>

definition new_block :: "nat \<Rightarrow> u64 \<Rightarrow> u32 \<Rightarrow> u32 \<Rightarrow> memory_block_detailed" where
  "new_block r p sz asz = \<lparr>b_start = p, b_size = sz, b_actual_size = asz,
     b_status = BLOCK_USED, b_region_id = of_nat r\<rparr>"

definition add_block :: "nat \<Rightarrow> u64 \<Rightarrow> u32 \<Rightarrow> u32 \<Rightarrow> mem_state \<Rightarrow> mem_state" where
  "add_block r p sz asz s =
     (let pos = insert_pos p (used_blocks s); reg = g_regions s ! r in
      s\<lparr>blocks := take pos (blocks s) @ new_block r p sz asz # drop pos (used_blocks s)
          @ drop (Suc (block_count s)) (blocks s),
        block_count := block_count s + 1, need_sort := True,
        g_regions := (g_regions s)[r := reg\<lparr>r_memory_used := r_memory_used reg + asz\<rparr>]\<rparr>)"

lemma insert_block_sorted_inv:
  assumes "mem_inv s" "block_count s < MAX_BLOCKS"
  shows "let s' = insert_block_sorted r p sz asz s; reg = g_regions s' ! r
    in s'\<lparr>g_regions := (g_regions s')[r := reg\<lparr>r_memory_used := r_memory_used reg + asz\<rparr>]\<rparr>
      = add_block r p sz asz s"
proof -
  have len: "length (blocks s) = MAX_BLOCKS" using assms(1) by (simp add: mem_inv_def)
  have pos: "insert_pos p (take (block_count s) (blocks s)) \<le> block_count s"
    using insert_pos_le [of p "take (block_count s) (blocks s)"] by simp
  show ?thesis
    using assms len shift_up_insert [OF pos, of "blocks s"]
    by (simp add: insert_block_sorted_def ensure_blocks_sorted_inv add_block_def used_blocks_def
        new_block_def Let_def)
qed

lemma used_blocks_add:
  assumes "mem_inv s" "block_count s < MAX_BLOCKS"
  shows "used_blocks (add_block r p sz asz s) =
    take (insert_pos p (used_blocks s)) (used_blocks s) @ new_block r p sz asz
      # drop (insert_pos p (used_blocks s)) (used_blocks s)"
proof -
  have len: "length (blocks s) = MAX_BLOCKS" using assms(1) by (simp add: mem_inv_def)
  have pos: "insert_pos p (used_blocks s) \<le> block_count s"
    using insert_pos_le [of p "used_blocks s"] by (simp add: used_blocks_def)
  then show ?thesis
    using len assms(2) by (simp add: used_blocks_def add_block_def Let_def min_absorb1 min_absorb2
        Suc_diff_le)
qed

lemma try_alloc_in_region_inv:
  assumes inv: "mem_inv s" and r: "r < nat (g_region_count s)" and k: "k < 32" and asz: "0 < asz"
  defines "p \<equiv> first_fit asz (2 ^ k)
     (gaps (r_start (g_regions s ! r)) (region_end (g_regions s ! r)) (region_blocks r s))"
  shows "try_alloc_in_region r sz (2 ^ k) asz s =
    (if asz > r_size (g_regions s ! r) \<or> block_count s = MAX_BLOCKS then (0, s)
     else if p = 0 then (0, ensure_blocks_sorted s)
     else (p, add_block r p sz asz (ensure_blocks_sorted s)))"
proof (cases "asz > r_size (g_regions s ! r) \<or> block_count s = MAX_BLOCKS")
  case True
  then show ?thesis
    by (auto simp: try_alloc_in_region_def find_free_block_none [OF inv])
next
  case False
  let ?s = "ensure_blocks_sorted s"
  have s: "?s = s\<lparr>need_sort := need_sort s \<and> block_count s \<le> 1\<rparr>"
    by (rule ensure_blocks_sorted_inv [OF inv])
  have n: "block_count ?s < MAX_BLOCKS" using False inv by (simp add: s mem_inv_def)
  have fit: "find_fit_in_region r asz (2 ^ k) s = (p, ?s)"
    using gap_bounds_eq [of ?s r] inv
    by (simp add: find_fit_in_region_def Let_def p_def s mem_inv_def del: upt_Suc)
  show ?thesis
  proof (cases "p = 0")
    case True
    with False fit show ?thesis
      by (auto simp: try_alloc_in_region_def find_free_block_none [OF inv])
  next
    case p: False
    have sound: "unat (r_start (g_regions s ! r)) \<le> unat p"
      "unat p + unat asz \<le> unat (region_end (g_regions s ! r))"
      using first_fit_sound [OF k region_within [OF inv r] p_def [THEN meta_eq_to_obj_eq, symmetric] p] by auto
    moreover obtain m where "unat asz = Suc m"
      using asz by (cases "unat asz") (auto simp: unat_eq_zero)
    ultimately have chk: "\<not> p < r_start (g_regions s ! r)" "\<not> p \<ge> region_end (g_regions s ! r)"
      "\<not> p + ucast asz > region_end (g_regions s ! r)"
      using unat_lt_64 [of "region_end (g_regions s ! r)"]
      by (auto simp: word_less_nat_alt word_le_nat_alt unat_word_ariths)
    have "mem_inv ?s" using inv s by simp
    from insert_block_sorted_inv [OF this n, of r p sz asz]
    show ?thesis
      using False fit p chk s
      by (auto simp: try_alloc_in_region_def find_free_block_none [OF inv] region_end_def Let_def)
  qed
qed

section \<open>Preservation\<close>

text \<open>Well-formedness looks at the bounds of the regions only, not at their usage.\<close>

definition bounds :: "mem_region_t list \<Rightarrow> (u64 \<times> u32) list" where
  "bounds rs = map (\<lambda>r. (r_start r, r_size r)) rs"

lemma bounds_nth:
  assumes "bounds rs = bounds rs'" "i < length rs"
  shows "r_start (rs ! i) = r_start (rs' ! i)" "r_size (rs ! i) = r_size (rs' ! i)"
proof -
  have "length rs = length rs'" using assms(1) by (metis bounds_def length_map)
  moreover have "bounds rs ! i = bounds rs' ! i" using assms(1) by simp
  ultimately show "r_start (rs ! i) = r_start (rs' ! i)" "r_size (rs ! i) = r_size (rs' ! i)"
    using assms(2) by (auto simp: bounds_def)
qed

lemma bounds_regions_ok:
  assumes eq: "bounds rs = bounds rs'" and ok: "regions_ok rs"
  shows "regions_ok rs'"
proof -
  have len: "length rs = length rs'" using eq by (metis bounds_def length_map)
  show ?thesis
    using ok by (simp add: regions_ok_def all_set_conv_all_nth len bounds_nth [OF eq, unfolded len])
qed

lemma bounds_block_ok:
  assumes "bounds rs = bounds rs'"
  shows "block_ok rs b = block_ok rs' b"
proof -
  have "length rs = length rs'" using assms by (metis bounds_def length_map)
  then show ?thesis using bounds_nth [OF assms] by (auto simp: block_ok_def)
qed

lemma bounds_update:
  "bounds (rs[r := (rs ! r)\<lparr>r_memory_used := x\<rparr>]) = bounds rs"
  by (cases "r < length rs") (auto simp: bounds_def map_update list_update_beyond intro!: list_update_same_conv [THEN iffD2])

lemma sum_list_filter_insert:
  "sum_list (map f (filter P (take n u @ x # drop n u)))
     = sum_list (map f (filter P u)) + (if P x then f x else (0::nat))"
proof -
  have "sum_list (map f (filter P u)) = sum_list (map f (filter P (take n u @ drop n u)))" by simp
  then show ?thesis by (simp del: append_take_drop_id)
qed

lemma mset_insert_at: "mset (take n u @ x # drop n u) = add_mset x (mset u)"
proof -
  have "mset u = mset (take n u @ drop n u)" by simp
  then show ?thesis by (simp del: append_take_drop_id)
qed

lemma mem_inv_tail:
  "mem_inv s \<Longrightarrow> drop (block_count s) (blocks s) = replicate (MAX_BLOCKS - block_count s) free_block"
  by (simp add: mem_inv_def)

lemma mem_inv_block_bounds:
  assumes "mem_inv s" "b \<in> set (used_blocks s)"
  shows "lo b < hi b" "unat (b_region_id b) < nat (g_region_count s)"
  using assms active_length [OF assms(1)] by (auto simp: mem_inv_def block_ok_def lo_def hi_def)

lemma other_region_disjoint:
  assumes inv: "mem_inv s" and r: "r < nat (g_region_count s)"
    and b: "b \<in> set (used_blocks s)" "unat (b_region_id b) \<noteq> r"
    and x: "unat (r_start (g_regions s ! r)) \<le> x" "y \<le> unat (region_end (g_regions s ! r))"
  shows "hi b \<le> x \<or> y \<le> lo b"
proof -
  let ?q = "unat (b_region_id b)" and ?rs = "active_regions s"
  have q: "?q < nat (g_region_count s)" using mem_inv_block_bounds [OF inv b(1)] by simp
  have "block_ok ?rs b" "regions_ok ?rs" using inv b(1) by (auto simp: mem_inv_def)
  then have
    "unat (r_start (?rs ! ?q)) \<le> lo b" "hi b \<le> unat (r_start (?rs ! ?q)) + unat (r_size (?rs ! ?q))"
    "unat (r_start (?rs ! ?q)) + unat (r_size (?rs ! ?q)) \<le> unat (r_start (?rs ! r))
      \<or> unat (r_start (?rs ! r)) + unat (r_size (?rs ! r)) \<le> unat (r_start (?rs ! ?q))"
    using b(2) q r active_length [OF inv] by (auto simp: block_ok_def regions_ok_def)
  then show ?thesis
    using x region_end_unat(1) [OF inv r] active_nth [OF inv r] by auto
qed

text \<open>A block of \<open>asz\<close> bytes at \<open>p\<close> that region \<open>r\<close> has room for.\<close>

definition fresh_block :: "nat \<Rightarrow> u64 \<Rightarrow> u32 \<Rightarrow> u32 \<Rightarrow> mem_state \<Rightarrow> bool" where
  "fresh_block r p sz asz s \<longleftrightarrow> mem_inv s \<and> block_count s < MAX_BLOCKS \<and> r < nat (g_region_count s)
     \<and> unat (r_start (g_regions s ! r)) \<le> unat p
     \<and> unat p + unat asz \<le> unat (region_end (g_regions s ! r))
     \<and> (\<forall>b\<in>set (region_blocks r s). hi b \<le> unat p \<or> unat p + unat asz \<le> lo b)
     \<and> 0 < unat sz \<and> unat sz \<le> unat asz"

lemma fresh_blockD:
  assumes "fresh_block r p sz asz s"
  shows "mem_inv s" "block_count s < MAX_BLOCKS" "r < nat (g_region_count s)"
    "unat (r_start (g_regions s ! r)) \<le> unat p"
    "unat p + unat asz \<le> unat (region_end (g_regions s ! r))"
    "b \<in> set (region_blocks r s) \<Longrightarrow> hi b \<le> unat p \<or> unat p + unat asz \<le> lo b"
    "0 < unat sz" "unat sz \<le> unat asz"
  using assms by (auto simp: fresh_block_def)

lemma new_block_id:
  assumes fb: "fresh_block r p sz asz s"
  shows "unat (b_region_id (new_block r p sz asz)) = r"
proof -
  note inv = fresh_blockD(1) [OF fb] and room = fresh_blockD(2) [OF fb] and r = fresh_blockD(3) [OF fb]
    and inside = fresh_blockD(4,5) [OF fb] and sz = fresh_blockD(7,8) [OF fb]
  have "r < 4" using inv r by (auto simp: mem_inv_def)
  then show ?thesis by (simp add: new_block_def unat_of_nat)
qed

lemma new_block_lo_hi: "lo (new_block r p sz asz) = unat p" "hi (new_block r p sz asz) = unat p + unat asz"
  by (simp_all add: new_block_def lo_def hi_def)

lemma fresh_disjoint:
  assumes fb: "fresh_block r p sz asz s" and "b \<in> set (used_blocks s)"
  shows "hi b \<le> unat p \<or> unat p + unat asz \<le> lo b"
proof (cases "unat (b_region_id b) = r")
  case True
  with assms show ?thesis
    using fresh_blockD(1,6) [OF fb] by (simp add: region_blocks_used)
next
  case False
  show ?thesis 
    by (rule other_region_disjoint [OF fresh_blockD(1,3) [OF fb] assms(2) False fresh_blockD(4,5) [OF fb]])
qed

lemma sorted_add_block:
  assumes fb: "fresh_block r p sz asz s"
  shows "sorted_wrt before (used_blocks (add_block r p sz asz s))"
  unfolding used_blocks_add [OF fresh_blockD(1,2) [OF fb]]
proof -
  have b: "b_start (new_block r p sz asz) = p" by (simp add: new_block_def)
  show "sorted_wrt before (take (insert_pos p (used_blocks s)) (used_blocks s)
      @ new_block r p sz asz # drop (insert_pos p (used_blocks s)) (used_blocks s))"
    using insert_keeps_disjoint [of "used_blocks s" "new_block r p sz asz", unfolded b]
      fresh_blockD [OF fb] fresh_disjoint [OF fb] mem_inv_block_bounds(1) [OF fresh_blockD(1) [OF fb]]
    by (auto simp: mem_inv_def new_block_lo_hi before_def)
qed

lemma mset_add_block:
  assumes fb: "fresh_block r p sz asz s"
  shows "mset (used_blocks (add_block r p sz asz s)) = add_mset (new_block r p sz asz) (mset (used_blocks s))"
  unfolding used_blocks_add [OF fresh_blockD(1,2) [OF fb]]
  by (rule mset_insert_at)

lemma set_add_block:
  assumes fb: "fresh_block r p sz asz s"
  shows "set (used_blocks (add_block r p sz asz s)) = insert (new_block r p sz asz) (set (used_blocks s))"
  using arg_cong [OF mset_add_block [OF fb], of set_mset] by simp

lemma bounds_add_block: "bounds (active_regions (add_block r p sz asz s)) = bounds (active_regions s)"
proof -
  let ?rs = "g_regions s"
  have "bounds (active_regions (add_block r p sz asz s)) = take (nat (g_region_count s))
      (bounds (?rs[r := (?rs ! r)\<lparr>r_memory_used := r_memory_used (?rs ! r) + asz\<rparr>]))"
    by (simp add: active_regions_def add_block_def Let_def bounds_def take_map)
  then show ?thesis unfolding bounds_update by (simp add: active_regions_def bounds_def take_map)
qed

lemma usage_add_block:
  assumes fb: "fresh_block r p sz asz s"
  shows "usage q (add_block r p sz asz s) = usage q s + (if q = r then unat asz else 0)"
proof -
  note inv = fresh_blockD(1) [OF fb] and room = fresh_blockD(2) [OF fb] and r = fresh_blockD(3) [OF fb]
    and inside = fresh_blockD(4,5) [OF fb] and sz = fresh_blockD(7,8) [OF fb]
  have u: "b_status (new_block r p sz asz) = BLOCK_USED" "b_actual_size (new_block r p sz asz) = asz"
    by (simp_all add: new_block_def)
  have rb: "region_blocks q s' = filter (\<lambda>b. b_status b = BLOCK_USED \<and> unat (b_region_id b) = q)
      (used_blocks s')" for s'
    by (simp add: region_blocks_def used_blocks_def)
  show ?thesis
    unfolding usage_def rb used_blocks_add [OF inv room] sum_list_filter_insert
    by (auto simp: u new_block_id [OF fb])
qed

lemma block_ok_add_block:
  assumes fb: "fresh_block r p sz asz s" and "b \<in> set (used_blocks (add_block r p sz asz s))"
  shows "block_ok (active_regions (add_block r p sz asz s)) b"
proof -
  note inv = fresh_blockD(1) [OF fb] and room = fresh_blockD(2) [OF fb] and r = fresh_blockD(3) [OF fb]
    and inside = fresh_blockD(4,5) [OF fb] and sz = fresh_blockD(7,8) [OF fb]
  have "block_ok (active_regions s) (new_block r p sz asz)"
    using inside region_end_unat [OF inv r] active_length [OF inv] r active_nth [OF inv r] sz
    unfolding block_ok_def new_block_id [OF fb] new_block_lo_hi by (simp add: new_block_def)
  then show ?thesis
    using assms inv by (auto simp: set_add_block [OF fb] bounds_block_ok [OF bounds_add_block] mem_inv_def)
qed

lemma usage_add_block_le:
  assumes fb: "fresh_block r p sz asz s"
  shows "usage r s + unat asz \<le> unat (r_size (g_regions s ! r))"
proof -
  note inv = fresh_blockD(1) [OF fb] and room = fresh_blockD(2) [OF fb] and r = fresh_blockD(3) [OF fb]
    and inside = fresh_blockD(4,5) [OF fb] and sz = fresh_blockD(7,8) [OF fb]
  let ?t = "add_block r p sz asz s"
  have "within (r_start (g_regions s ! r)) (region_end (g_regions s ! r)) (region_blocks r ?t)"
    unfolding within_def
  proof (intro conjI ballI)
    show "sorted_wrt before (region_blocks r ?t)"
      using sorted_add_block [OF fb] by (simp add: region_blocks_def used_blocks_def sorted_wrt_filter)
    show "unat (r_start (g_regions s ! r)) \<le> unat (region_end (g_regions s ! r))"
      "unat (region_end (g_regions s ! r)) < 2 ^ 63"
      using region_end_unat [OF inv r] by auto
    fix b assume "b \<in> set (region_blocks r ?t)"
    then have "b \<in> set (used_blocks ?t)" "unat (b_region_id b) = r"
      by (auto simp: region_blocks_def used_blocks_def)
    then have "block_ok (active_regions s) b" "unat (b_region_id b) = r"
      using block_ok_add_block [OF fb] bounds_block_ok [OF bounds_add_block] by auto
    then show "unat (r_start (g_regions s ! r)) \<le> lo b" "hi b \<le> unat (region_end (g_regions s ! r))"
      using active_nth [OF inv r] region_end_unat [OF inv r] by (auto simp: block_ok_def)
  qed
  from within_sum [OF this] show ?thesis
    using usage_add_block [OF fb, of r] region_end_unat [OF inv r] by (simp add: usage_def)
qed

lemma memory_used_add_block:
  assumes fb: "fresh_block r p sz asz s" and "q < nat (g_region_count s)"
  shows "unat (r_memory_used (g_regions (add_block r p sz asz s) ! q))
       = usage q (add_block r p sz asz s)"
proof -
  note inv = fresh_blockD(1) [OF fb] and room = fresh_blockD(2) [OF fb] and r = fresh_blockD(3) [OF fb]
    and inside = fresh_blockD(4,5) [OF fb] and sz = fresh_blockD(7,8) [OF fb]
  have u: "unat (r_memory_used (g_regions s ! q)) = usage q s"
    using inv assms by (simp add: mem_inv_def)
  have len: "length (g_regions s) = MAX_MEM_REGIONS" "r < MAX_MEM_REGIONS"
    using inv r by (auto simp: mem_inv_def)
  show ?thesis
  proof (cases "q = r")
    case True
    have "usage r s + unat asz < 2 ^ 32"
      using usage_add_block_le [OF fb] unat_lt_32 [of "r_size (g_regions s ! r)"] by simp
    with True u len show ?thesis
      unfolding usage_add_block [OF fb] by (simp add: add_block_def Let_def unat_add_no_wrap)
  next
    case False
    with u show ?thesis
      unfolding usage_add_block [OF fb] by (simp add: add_block_def Let_def)
  qed
qed

lemma mem_inv_add_block:
  assumes fb: "fresh_block r p sz asz s"
  shows "mem_inv (add_block r p sz asz s)"
proof -
  note inv = fresh_blockD(1) [OF fb] and room = fresh_blockD(2) [OF fb] and r = fresh_blockD(3) [OF fb]
    and inside = fresh_blockD(4,5) [OF fb] and sz = fresh_blockD(7,8) [OF fb]
  let ?t = "add_block r p sz asz s"
  have pos: "insert_pos p (used_blocks s) \<le> block_count s"
    using insert_pos_le [of p "used_blocks s"] by (simp add: used_blocks_def)
  have len: "length (blocks s) = MAX_BLOCKS" "length (g_regions s) = MAX_MEM_REGIONS"
    using inv by (auto simp: mem_inv_def)
  have 1: "length (blocks ?t) = MAX_BLOCKS" "length (g_regions ?t) = MAX_MEM_REGIONS"
    "g_region_count ?t = g_region_count s" "block_count ?t = block_count s + 1"
    using len pos room by (auto simp: add_block_def Let_def used_blocks_def)
  have "drop (block_count ?t) (blocks ?t) = drop (Suc (block_count s)) (blocks s)"
    using pos len room by (simp add: add_block_def Let_def used_blocks_def Suc_diff_le)
  also have "\<dots> = replicate (MAX_BLOCKS - block_count ?t) free_block"
    using arg_cong [of _ _ "drop 1", OF mem_inv_tail [OF inv]] room by (simp add: 1(4))
  finally show ?thesis
    using 1 inv room sorted_add_block [OF fb] block_ok_add_block [OF fb] memory_used_add_block [OF fb]
      bounds_regions_ok [OF bounds_add_block [symmetric]]
    by (simp add: mem_inv_def)
qed

section \<open>Release\<close>

lemma find_used_Some:
  "find_used p bs = Some i \<Longrightarrow> i < length bs \<and> b_start (bs ! i) = p \<and> b_status (bs ! i) = BLOCK_USED"
  by (induction bs arbitrary: i) (auto split: if_splits)

lemma find_used_None:
  "find_used p bs = None \<longleftrightarrow> (\<forall>b\<in>set bs. \<not> (b_start b = p \<and> b_status b = BLOCK_USED))"
  by (induction bs) auto

definition remove_block :: "nat \<Rightarrow> mem_state \<Rightarrow> mem_state" where
  "remove_block i s =
     (let u = used_blocks s; r = unat (b_region_id (u ! i)); reg = g_regions s ! r in
      s\<lparr>g_regions := (g_regions s)[r := reg\<lparr>r_memory_used := r_memory_used reg - b_actual_size (u ! i)\<rparr>],
        blocks := take i u @ drop (Suc i) u @ replicate (Suc (MAX_BLOCKS - block_count s)) free_block,
        block_count := block_count s - 1, need_sort := False\<rparr>)"

lemma usage_split:
  assumes "i < length (used_blocks s)"
  shows "usage q s = sum_list (map (\<lambda>b. unat (b_actual_size b))
      (filter (\<lambda>b. b_status b = BLOCK_USED \<and> unat (b_region_id b) = q)
        (take i (used_blocks s) @ drop (Suc i) (used_blocks s))))
    + (if b_status (used_blocks s ! i) = BLOCK_USED \<and> unat (b_region_id (used_blocks s ! i)) = q
       then unat (b_actual_size (used_blocks s ! i)) else 0)"
proof -
  have "region_blocks q s = filter (\<lambda>b. b_status b = BLOCK_USED \<and> unat (b_region_id b) = q)
      (take i (used_blocks s) @ used_blocks s ! i # drop (Suc i) (used_blocks s))"
    using id_take_nth_drop [OF assms] by (simp add: region_blocks_def used_blocks_def)
  then show ?thesis by (simp add: usage_def)
qed

lemma used_blocks_length: "mem_inv s \<Longrightarrow> length (used_blocks s) = block_count s"
  by (simp add: mem_inv_def used_blocks_def)

lemma used_blocks_remove:
  assumes "mem_inv s" "i < block_count s"
  shows "used_blocks (remove_block i s) = take i (used_blocks s) @ drop (Suc i) (used_blocks s)"
proof -
  have "blocks (remove_block i s) = take i (used_blocks s) @ drop (Suc i) (used_blocks s)
      @ replicate (Suc (MAX_BLOCKS - block_count s)) free_block"
    "block_count (remove_block i s) = block_count s - 1"
    by (simp_all add: remove_block_def Let_def)
  then show ?thesis
    using assms(2) by (simp add: used_blocks_def [of "remove_block i s"] used_blocks_length [OF assms(1)])
qed

lemma block_usage_le:
  assumes "mem_inv s" "i < block_count s"
  shows "unat (b_actual_size (used_blocks s ! i)) \<le> usage (unat (b_region_id (used_blocks s ! i))) s"
proof -
  have i: "i < length (used_blocks s)" using assms by (simp add: used_blocks_length)
  then have "b_status (used_blocks s ! i) = BLOCK_USED"
    using assms(1) nth_mem by (force simp: mem_inv_def block_ok_def)
  then show ?thesis using usage_split [OF i, of "unat (b_region_id (used_blocks s ! i))"] by simp
qed

lemma mem_free_remove:
  assumes inv: "mem_inv s" and p: "p \<noteq> 0" and f: "find_used p (used_blocks s) = Some i"
  shows "mem_free p s = remove_block i s"
proof -
  let ?b = "used_blocks s ! i"
  have i: "i < block_count s" using find_used_Some [OF f] by (simp add: used_blocks_length [OF inv])
  have len: "length (blocks s) = MAX_BLOCKS" "block_count s \<le> MAX_BLOCKS" "0 \<le> g_region_count s"
    using inv by (auto simp: mem_inv_def)
  have b: "blocks s ! i = ?b" using i by (simp add: used_blocks_def)
  have r: "unat (b_region_id ?b) < nat (g_region_count s)"
    using mem_inv_block_bounds(2) [OF inv] i nth_mem by (metis used_blocks_length [OF inv])
  have "unat (r_memory_used (g_regions s ! unat (b_region_id ?b))) = usage (unat (b_region_id ?b)) s"
    using inv r by (simp add: mem_inv_def)
  then have le: "\<not> r_memory_used (g_regions s ! unat (b_region_id ?b)) < b_actual_size ?b"
    using block_usage_le [OF inv i] by (simp add: word_less_nat_alt)
  have "(shift_down i (block_count s) (blocks s))[block_count s - 1 := free_block]
      = take i (used_blocks s) @ drop (Suc i) (used_blocks s)
        @ replicate (Suc (MAX_BLOCKS - block_count s)) free_block"
    using shift_down_delete [of i "block_count s" "blocks s"] i len mem_inv_tail [OF inv]
    by (simp add: used_blocks_def Suc_diff_le)
  then show ?thesis
    using p f r le i len(3) b
    by (simp add: mem_free_def remove_block_def Let_def used_blocks_def [symmetric] nat_less_iff zless_nat_eq_int_zless)
qed

lemma mem_free_unknown:
  "p = 0 \<or> find_used p (used_blocks s) = None \<Longrightarrow> mem_free p s = s"
  by (auto simp: mem_free_def used_blocks_def)

lemma bounds_remove_block: "bounds (active_regions (remove_block i s)) = bounds (active_regions s)"
proof -
  let ?rs = "g_regions s" and ?b = "used_blocks s ! i"
  let ?r = "unat (b_region_id ?b)"
  have "bounds (active_regions (remove_block i s)) = take (nat (g_region_count s))
      (bounds (?rs[?r := (?rs ! ?r)\<lparr>r_memory_used := r_memory_used (?rs ! ?r) - b_actual_size ?b\<rparr>]))"
    by (simp add: active_regions_def remove_block_def Let_def bounds_def take_map)
  then show ?thesis unfolding bounds_update by (simp add: active_regions_def bounds_def take_map)
qed

lemma usage_remove_block:
  assumes "mem_inv s" "i < block_count s"
  shows "usage q s = usage q (remove_block i s)
    + (if unat (b_region_id (used_blocks s ! i)) = q then unat (b_actual_size (used_blocks s ! i)) else 0)"
proof -
  have i: "i < length (used_blocks s)" using assms by (simp add: used_blocks_length)
  have "b_status (used_blocks s ! i) = BLOCK_USED"
    using assms(1) i nth_mem by (force simp: mem_inv_def block_ok_def)
  then show ?thesis
    using usage_split [OF i, of q] used_blocks_remove [OF assms]
    by (simp add: usage_def [of _ "remove_block i s"] region_blocks_def used_blocks_def [symmetric])
qed

lemma set_remove_block:
  assumes "mem_inv s" "i < block_count s"
  shows "set (used_blocks (remove_block i s)) \<subseteq> set (used_blocks s)"
  using used_blocks_remove [OF assms] by (auto dest: in_set_takeD in_set_dropD)

lemma mset_remove_block:
  assumes "mem_inv s" "i < block_count s"
  shows "mset (used_blocks s) = add_mset (used_blocks s ! i) (mset (used_blocks (remove_block i s)))"
proof -
  have "i < length (used_blocks s)" using assms by (simp add: used_blocks_length)
  then have "mset (used_blocks s)
      = mset (take i (used_blocks s) @ used_blocks s ! i # drop (Suc i) (used_blocks s))"
    by (metis id_take_nth_drop)
  then show ?thesis using used_blocks_remove [OF assms] by simp
qed

lemma mem_inv_remove_block:
  assumes inv: "mem_inv s" and i: "i < block_count s"
  shows "mem_inv (remove_block i s)"
proof -
  let ?t = "remove_block i s" and ?u = "used_blocks s"
  let ?r = "unat (b_region_id (?u ! i))"
  have il: "i < length ?u" using inv i by (simp add: used_blocks_length)
  have len: "block_count s \<le> MAX_BLOCKS" "length (g_regions s) = MAX_MEM_REGIONS" "nat (g_region_count s) \<le> MAX_MEM_REGIONS"
    using inv by (auto simp: mem_inv_def)
  have 1: "length (blocks ?t) = MAX_BLOCKS" "length (g_regions ?t) = MAX_MEM_REGIONS"
    "g_region_count ?t = g_region_count s" "block_count ?t = block_count s - 1"
    using i len by (simp_all add: remove_block_def Let_def used_blocks_length [OF inv])
  have tail: "drop (block_count ?t) (blocks ?t) = replicate (MAX_BLOCKS - block_count ?t) free_block"
    using i len by (simp add: remove_block_def Let_def used_blocks_length [OF inv] Suc_diff_le
        flip: replicate_Suc)
  have "sorted_wrt before (take i ?u @ ?u ! i # drop (Suc i) ?u)"
    using inv id_take_nth_drop [OF il] by (simp add: mem_inv_def)
  then have sorted: "sorted_wrt before (used_blocks ?t)"
    unfolding used_blocks_remove [OF inv i] by (auto simp: sorted_wrt_append)
  have used: "unat (r_memory_used (g_regions ?t ! q)) = usage q ?t" if q: "q < nat (g_region_count s)" for q
  proof -
    have u: "unat (r_memory_used (g_regions s ! q)) = usage q s" using inv q by (simp add: mem_inv_def)
    show ?thesis
    proof (cases "q = ?r")
      case True
      then have "g_regions ?t ! q = (g_regions s ! q)\<lparr>r_memory_used := r_memory_used (g_regions s ! q) - b_actual_size (?u ! i)\<rparr>"
        using q len by (simp add: remove_block_def Let_def)
      then show ?thesis
        using True u usage_remove_block [OF inv i, of q] by (simp add: unat_sub_no_wrap)
    next
      case False
      then have "g_regions ?t ! q = g_regions s ! q" by (simp add: remove_block_def Let_def)
      then show ?thesis using False u usage_remove_block [OF inv i, of q] by simp
    qed
  qed
  have ok: "block_ok (active_regions ?t) b" if "b \<in> set (used_blocks ?t)" for b
    using that set_remove_block [OF inv i] inv bounds_block_ok [OF bounds_remove_block]
    by (auto simp: mem_inv_def)
  have "regions_ok (active_regions ?t)"
    using bounds_regions_ok [OF bounds_remove_block [symmetric]] inv by (simp add: mem_inv_def)
  with 1 tail sorted used ok len(1) inv show ?thesis by (simp add: mem_inv_def)
qed

end
