(* ===== verification/Memory_Allocator_Spec.thy ===== *)
theory Memory_Allocator_Spec
  imports Memory_Allocator_Correct
begin

text \<open>
  What the operations of \<^verbatim>\<open>drivers/kinetis/memory_allocator.c\<close> promise.  Every operation is
  characterised on states that satisfy the invariant \<open>mem_inv\<close> of \<open>Memory_Allocator_Correct\<close>:
  allocation either fails and leaves the table alone or adds one aligned block disjoint from all
  the others, release removes exactly one block, and the initialisers establish the invariant.
  The \<open>allocator\<close> locale is the contract seen by the clients of the allocator.
\<close>

section \<open>Allocation over the regions\<close>

text \<open>No gap of region \<open>r\<close> holds an aligned block of \<open>asz\<close> bytes, or the table is full.\<close>

definition no_fit :: "nat \<Rightarrow> nat \<Rightarrow> u32 \<Rightarrow> mem_state \<Rightarrow> bool" where
  "no_fit r k asz s \<longleftrightarrow> block_count s = MAX_BLOCKS
     \<or> (\<forall>(g, h)\<in>set (gaps (r_start (g_regions s ! r)) (region_end (g_regions s ! r)) (region_blocks r s)).
          unat h < round_up (2 ^ k) (unat g) + unat asz)"

lemma add_block_need_sort [simp]: "add_block r p sz asz (s\<lparr>need_sort := x\<rparr>) = add_block r p sz asz s"
  by (simp add: add_block_def Let_def)

lemma gaps_inside:
  "within a z bs \<Longrightarrow> (g, h) \<in> set (gaps a z bs) \<Longrightarrow> unat a \<le> unat g \<and> unat g \<le> unat h \<and> unat h \<le> unat z"
proof (induction bs arbitrary: a)
  case Nil
  then show ?case by (simp add: within_def)
next
  case (Cons b bs)
  note w = within_Cons [OF Cons.prems(1)]
  have "hi b \<le> unat z" using Cons.prems(1) by (simp add: within_def)
  then show ?case using Cons.IH [OF w(4)] Cons.prems(2) w(1,3) lo_le_hi [of b] by (auto simp: lo_def)
qed

lemma too_big_no_fit:
  assumes inv: "mem_inv s" and r: "r < nat (g_region_count s)" and "asz > r_size (g_regions s ! r)"
  shows "no_fit r k asz s"
proof -
  have "unat h < round_up (2 ^ k) (unat g) + unat asz"
    if "(g, h) \<in> set (gaps (r_start (g_regions s ! r)) (region_end (g_regions s ! r)) (region_blocks r s))"
    for g h
    using gaps_inside [OF region_within [OF inv r] that] region_end_unat [OF inv r] assms(3)
      round_up_bounds(1) [of "2 ^ k" "unat g"] by (simp add: word_less_nat_alt)
  then show ?thesis by (auto simp: no_fit_def)
qed

lemma try_alloc_cases:
  assumes inv: "mem_inv s" and r: "r < nat (g_region_count s)" and k: "k < 32"
    and sz: "0 < unat sz" "unat sz \<le> unat asz"
    and res: "try_alloc_in_region r sz (2 ^ k) asz s = (p, t)"
  shows "(p = 0 \<and> no_fit r k asz s \<and> t = s\<lparr>need_sort := need_sort t\<rparr>)
     \<or> (p \<noteq> 0 \<and> fresh_block r p sz asz s \<and> 2 ^ k dvd unat p \<and> t = add_block r p sz asz s)"
proof -
  let ?g = "gaps (r_start (g_regions s ! r)) (region_end (g_regions s ! r)) (region_blocks r s)"
  have pos: "0 < asz" using sz by (simp add: word_less_nat_alt)
  note w = region_within [OF inv r] and start = region_end_unat(3) [OF inv r]
  consider (big) "asz > r_size (g_regions s ! r)" | (full) "block_count s = MAX_BLOCKS"
    | (fit) "\<not> asz > r_size (g_regions s ! r)" "block_count s \<noteq> MAX_BLOCKS" by blast
  then show ?thesis
  proof cases
    case big
    then show ?thesis
      using res try_alloc_in_region_inv [OF inv r k pos, of sz] too_big_no_fit [OF inv r big] by auto
  next
    case full
    then show ?thesis
      using res try_alloc_in_region_inv [OF inv r k pos, of sz] by (auto simp: no_fit_def)
  next
    case fit
    then have eq: "(p, t) = (if first_fit asz (2 ^ k) ?g = 0 then (0, ensure_blocks_sorted s)
        else (first_fit asz (2 ^ k) ?g, add_block r (first_fit asz (2 ^ k) ?g) sz asz s))"
      using res try_alloc_in_region_inv [OF inv r k pos, of sz]
      by (auto simp: ensure_blocks_sorted_inv [OF inv] split: if_splits)
    show ?thesis
    proof (cases "first_fit asz (2 ^ k) ?g = 0")
      case True
      then show ?thesis
        using eq first_fit_complete [OF k w start True]
        by (auto simp: no_fit_def ensure_blocks_sorted_inv [OF inv])
    next
      case False
      with eq have p: "first_fit asz (2 ^ k) ?g = p" "p \<noteq> 0" "t = add_block r p sz asz s" by auto
      have "block_count s < MAX_BLOCKS" using fit inv by (simp add: mem_inv_def)
      then have "fresh_block r p sz asz s" "2 ^ k dvd unat p"
        using first_fit_sound [OF k w p(1,2)] inv r sz by (auto simp: fresh_block_def)
      with p show ?thesis by simp
    qed
  qed
qed

lemma no_fit_need_sort [simp]: "no_fit r k asz (s\<lparr>need_sort := x\<rparr>) = no_fit r k asz s"
  by (simp add: no_fit_def region_blocks_def)

lemma fresh_block_need_sort [simp]: "fresh_block r p sz asz (s\<lparr>need_sort := x\<rparr>) = fresh_block r p sz asz s"
  by (simp add: fresh_block_def region_blocks_def)

lemma try_regions_cases:
  assumes "mem_inv s" "\<forall>r\<in>set rs. r < nat (g_region_count s)" "k < 32" "0 < unat sz" "unat sz \<le> unat asz"
    and "try_regions rs sz (2 ^ k) asz s = (p, t)"
  shows "(p = 0 \<and> (\<forall>r\<in>set rs. no_fit r k asz s) \<and> t = s\<lparr>need_sort := need_sort t\<rparr>)
     \<or> (p \<noteq> 0 \<and> (\<exists>r\<in>set rs. fresh_block r p sz asz s \<and> 2 ^ k dvd unat p \<and> t = add_block r p sz asz s))"
  using assms
proof (induction rs arbitrary: s)
  case Nil
  then show ?case by simp
next
  case (Cons r rs)
  obtain q u where qu: "try_alloc_in_region r sz (2 ^ k) asz s = (q, u)" by fastforce
  note c = try_alloc_cases [OF Cons.prems(1) _ Cons.prems(3-5) qu]
  show ?case
  proof (cases "q = 0")
    case False
    then show ?thesis using c Cons.prems(2,6) qu by auto
  next
    case True
    then have u: "no_fit r k asz s" "u = s\<lparr>need_sort := need_sort u\<rparr>" using c Cons.prems(2) by auto
    have "mem_inv u" "\<forall>r\<in>set rs. r < nat (g_region_count u)"
      using Cons.prems(1,2) by (subst u(2), simp)+
    moreover have "try_regions rs sz (2 ^ k) asz u = (p, t)" using Cons.prems(6) qu True by simp
    ultimately have "(p = 0 \<and> (\<forall>r\<in>set rs. no_fit r k asz u) \<and> t = u\<lparr>need_sort := need_sort t\<rparr>)
     \<or> (p \<noteq> 0 \<and> (\<exists>r\<in>set rs. fresh_block r p sz asz u \<and> 2 ^ k dvd unat p \<and> t = add_block r p sz asz u))"
      using Cons.IH Cons.prems(3-5) by blast
    moreover have "no_fit r' k asz u = no_fit r' k asz s" "fresh_block r' p sz asz u = fresh_block r' p sz asz s"
      "add_block r' p sz asz u = add_block r' p sz asz s" "u\<lparr>need_sort := x\<rparr> = s\<lparr>need_sort := x\<rparr>" for r' x
      by (subst u(2), simp)+
    ultimately show ?thesis using u(1) by auto
  qed
qed

lemma largest_free_state:
  assumes "mem_inv s"
  shows "snd (mem_get_largest_free_block s) = s\<lparr>need_sort := need_sort (snd (mem_get_largest_free_block s))\<rparr>"
proof -
  have "mem_inv t \<Longrightarrow> t = s\<lparr>need_sort := need_sort t\<rparr> \<Longrightarrow>
    snd (fold (\<lambda>r (largest, s).
       let s = ensure_blocks_sorted s; l = region_largest r s
       in (if l > largest then l else largest, s)) rs (l, t))
     = s\<lparr>need_sort := need_sort (snd (fold (\<lambda>r (largest, s).
       let s = ensure_blocks_sorted s; l = region_largest r s
       in (if l > largest then l else largest, s)) rs (l, t)))\<rparr>" for rs l t
  proof (induction rs arbitrary: l t)
    case Nil
    then show ?case by simp
  next
    case (Cons r rs)
    let ?t = "ensure_blocks_sorted t"
    have "mem_inv ?t" "?t = s\<lparr>need_sort := need_sort ?t\<rparr>"
      using Cons.prems by (simp_all add: ensure_blocks_sorted_inv) (metis mem_state.surjective mem_state.update_convs(4))
    from Cons.IH [OF this] show ?case by (simp add: Let_def)
  qed
  from this [of s] assms show ?thesis by (simp add: mem_get_largest_free_block_def)
qed

text \<open>A request that passes the argument checks: the alignment is \<open>2 ^ k\<close> and rounding the
size up does not overflow.\<close>

definition request_ok :: "u32 \<Rightarrow> u32 \<Rightarrow> nat \<Rightarrow> bool" where
  "request_ok sz al k \<longleftrightarrow> k < 32 \<and> (if al = 0 then 1 else al) = 2 ^ k \<and> 0 < unat sz
     \<and> unat sz + (2 ^ k - 1) < 2 ^ 32"

definition rounded :: "u32 \<Rightarrow> nat \<Rightarrow> u32" where
  "rounded sz k = ucast (ALIGN_UP32 sz (2 ^ k))"

lemma rounded_bounds:
  assumes "request_ok sz al k"
  shows "unat (rounded sz k) = round_up (2 ^ k) (unat sz)" "unat sz \<le> unat (rounded sz k)"
    "unat (rounded sz k) < unat sz + 2 ^ k"
  using assms unat_ALIGN_UP32 [of k sz] round_up_bounds [of "2 ^ k" "unat sz"]
  by (auto simp: request_ok_def rounded_def)

lemma no_overflow_iff:
  assumes "k < 32"
  shows "sz > 0xFFFFFFFF - (2 ^ k - 1 :: u32) \<longleftrightarrow> \<not> unat sz + (2 ^ k - 1) < 2 ^ 32"
proof -
  have le: "(2::nat) ^ k \<le> 2 ^ 31" using assms by (intro power_increasing) auto
  then have "unat (2 ^ k - 1 :: u32) \<le> unat (0xFFFFFFFF :: u32)"
    using assms by (simp add: unat_exp_minus_1)
  then have "unat (0xFFFFFFFF - (2 ^ k - 1) :: u32) = 0xFFFFFFFF - (2 ^ k - 1)"
    using assms by (subst unat_sub_no_wrap) (simp_all add: unat_exp_minus_1)
  moreover have "0xFFFFFFFF - (a - 1) < z \<longleftrightarrow> \<not> z + (a - 1) < 2 ^ 32" if "a \<le> 2 ^ 31" for a z :: nat
  proof -
    have "(2::nat) ^ 31 = 2147483648" "(2::nat) ^ 32 = 4294967296" by simp_all
    then show ?thesis using that by arith
  qed
  ultimately show ?thesis using le unfolding word_less_nat_alt by metis
qed

lemma request_bad:
  assumes "\<nexists>k. request_ok sz al k"
  shows "sz = 0 \<or> \<not> IS_POWER_OF_2 (if al = 0 then 1 else al)
    \<or> sz > 0xFFFFFFFF - ((if al = 0 then 1 else al) - 1)"
proof (rule ccontr)
  assume a: "\<not> ?thesis"
  then obtain k where "k < 32" "(if al = 0 then 1 else al) = 2 ^ k" by (auto simp: IS_POWER_OF_2_iff)
  with a assms show False using no_overflow_iff [of k sz] by (auto simp: request_ok_def unat_gt_0)
qed

lemma mem_alloc_aligned_unfold:
  assumes init: "initialized s"
  shows "request_ok sz al k \<Longrightarrow> mem_alloc_aligned lk sz al s =
      (let (p, t) = try_regions [0..<nat (g_region_count s)] sz (2 ^ k) (rounded sz k) s
       in if p \<noteq> 0 then (p, t) else (0, snd (mem_get_largest_free_block t)))"
    and "(\<nexists>k. request_ok sz al k) \<Longrightarrow> mem_alloc_aligned lk sz al s = (0, s)"
proof -
  assume r: "request_ok sz al k"
  then have "sz \<noteq> 0" "IS_POWER_OF_2 (if al = 0 then 1 else al)"
    "\<not> sz > 0xFFFFFFFF - (2 ^ k - 1 :: u32)" "(if al = 0 then 1 else al) = 2 ^ k"
    using no_overflow_iff [of k sz] by (auto simp: request_ok_def IS_POWER_OF_2_iff)
  then show "mem_alloc_aligned lk sz al s =
      (let (p, t) = try_regions [0..<nat (g_region_count s)] sz (2 ^ k) (rounded sz k) s
       in if p \<noteq> 0 then (p, t) else (0, snd (mem_get_largest_free_block t)))"
    unfolding mem_alloc_aligned_def Let_def rounded_def using init by simp
next
  assume "\<nexists>k. request_ok sz al k"
  from request_bad [OF this] show "mem_alloc_aligned lk sz al s = (0, s)"
    unfolding mem_alloc_aligned_def Let_def using init by auto
qed

lemma mem_alloc_aligned_cases:
  assumes inv: "mem_inv s" and init: "initialized s" and res: "mem_alloc_aligned lk sz al s = (p, t)"
  shows "(p = 0 \<and> t = s\<lparr>need_sort := need_sort t\<rparr>
        \<and> (\<forall>k r. request_ok sz al k \<longrightarrow> r < nat (g_region_count s) \<longrightarrow> no_fit r k (rounded sz k) s))
     \<or> (p \<noteq> 0 \<and> (\<exists>r k. request_ok sz al k \<and> fresh_block r p sz (rounded sz k) s
          \<and> 2 ^ k dvd unat p \<and> t = add_block r p sz (rounded sz k) s))"
proof (cases "\<exists>k. request_ok sz al k")
  case False
  then have "p = 0" "t = s" using mem_alloc_aligned_unfold(2) [OF init False] res by auto
  with False show ?thesis by auto
next
  case True
  then obtain k where k: "request_ok sz al k" by blast
  have uniq: "k' = k" if "request_ok sz al k'" for k'
  proof -
    have "(2::u32) ^ k' = 2 ^ k" "k < 32" "k' < 32" using k that unfolding request_ok_def by auto
    then have "(2::nat) ^ k' = 2 ^ k" using unat_exp_32 by metis
    then show ?thesis by simp
  qed
  obtain q u where qu: "try_regions [0..<nat (g_region_count s)] sz (2 ^ k) (rounded sz k) s = (q, u)"
    by fastforce
  have pt: "(p, t) = (if q \<noteq> 0 then (q, u) else (0, snd (mem_get_largest_free_block u)))"
    using res mem_alloc_aligned_unfold(1) [OF init k, of lk] qu by simp
  note c = try_regions_cases [OF inv _ _ _ rounded_bounds(2) [OF k] qu]
  show ?thesis
  proof (cases "q = 0")
    case True
    with c k have u: "\<forall>r<nat (g_region_count s). no_fit r k (rounded sz k) s" "u = s\<lparr>need_sort := need_sort u\<rparr>"
      by (auto simp: request_ok_def)
    have "mem_inv u" using inv by (subst u(2)) simp
    then have "t = u\<lparr>need_sort := need_sort t\<rparr>" using largest_free_state [of u] pt True by simp
    moreover have "u\<lparr>need_sort := x\<rparr> = s\<lparr>need_sort := x\<rparr>" for x by (subst u(2)) simp
    ultimately show ?thesis using pt True u(1) uniq by auto
  next
    case False
    with c k pt show ?thesis by (auto simp: request_ok_def)
  qed
qed

section \<open>Initialisation\<close>

lemma fold_assign:
  "n \<le> length rs \<Longrightarrow> fold (\<lambda>i rs. rs[i := f i]) [0..<n] rs = map f [0..<n] @ drop n rs"
proof (induction n)
  case 0
  then show ?case by simp
next
  case (Suc n)
  then have "drop n rs = rs ! n # drop (Suc n) rs" by (simp add: Cons_nth_drop_Suc)
  with Suc show ?case by (simp add: list_update_append)
qed

text \<open>The configuration handed to \<open>mem_init_with_config\<close>, and the pools of the linker script:
addresses above zero, below \<open>2 ^ 63\<close>, and no two regions overlapping.  A pool that the linker
script leaves out has equal bounds (weak symbols, both zero) and is not constrained further.\<close>

definition config_ok :: "mem_region_config list \<Rightarrow> bool" where
  "config_ok cs \<longleftrightarrow> regions_ok (map region_of_config cs)"

definition pools_ok :: "linker_pools \<Rightarrow> bool" where
  "pools_ok lk \<longleftrightarrow> (\<forall>i<MAX_MEM_REGIONS. fst (lk i) = snd (lk i) \<or> 0 < fst (lk i) \<and> fst (lk i) < snd (lk i))
     \<and> (\<forall>i<MAX_MEM_REGIONS. \<forall>j<i. fst (lk i) = snd (lk i) \<or> fst (lk j) = snd (lk j)
          \<or> snd (lk i) \<le> fst (lk j) \<or> snd (lk j) \<le> fst (lk i))"

lemma regions_ok_take: "regions_ok rs \<Longrightarrow> regions_ok (take n rs)"
  by (auto simp: regions_ok_def dest: in_set_takeD)

lemma region_blocks_empty: "block_count s = 0 \<Longrightarrow> region_blocks r s = []"
  by (simp add: region_blocks_def)

lemma mem_init_with_config_inv:
  assumes cfg: "config_ok cs" and n: "0 \<le> n" "n \<le> int (length cs)"
    and len: "length (g_regions s) = MAX_MEM_REGIONS"
  shows "mem_inv (mem_init_with_config cs n s)"
    "used_blocks (mem_init_with_config cs n s) = []"
    "initialized (mem_init_with_config cs n s)"
    "active_regions (mem_init_with_config cs n s) = map region_of_config (take (min (nat n) MAX_MEM_REGIONS) cs)"
proof -
  let ?t = "mem_init_with_config cs n s" and ?m = "min (nat n) MAX_MEM_REGIONS"
  have m: "nat (if n > int MAX_MEM_REGIONS then int MAX_MEM_REGIONS else n) = ?m"
    using n by (auto simp: min_def)
  have f: "blocks ?t = replicate MAX_BLOCKS free_block" "block_count ?t = 0" "initialized ?t"
    "g_region_count ?t = int ?m"
    "g_regions ?t = map (\<lambda>i. region_of_config (cs ! i)) [0..<?m] @ drop ?m (g_regions s)"
    using n len fold_assign [of ?m "g_regions s" "\<lambda>i. region_of_config (cs ! i)"]
    unfolding mem_init_with_config_def Let_def m by (auto simp: min_def)
  have "map (\<lambda>i. region_of_config (cs ! i)) [0..<?m] = map region_of_config (take ?m cs)"
    using n by (intro nth_equalityI) auto
  then have act: "active_regions ?t = map region_of_config (take ?m cs)"
    using n by (simp add: active_regions_def f)
  then show "active_regions ?t = map region_of_config (take ?m cs)" .
  have "regions_ok (active_regions ?t)"
    using cfg regions_ok_take unfolding act config_ok_def take_map [symmetric] by blast
  moreover have "unat (r_memory_used (g_regions ?t ! r)) = usage r ?t" if "r < nat (g_region_count ?t)" for r
    using that n f(2) by (simp add: f(4,5) nth_append usage_def region_blocks_empty region_of_config_def)
  ultimately show "mem_inv ?t"
    using f(1,2,4,5) n len by (auto simp: mem_inv_def used_blocks_def)
  show "used_blocks ?t = []" "initialized ?t" using f by (simp_all add: used_blocks_def)
qed

lemma mem_init_with_config_blocks:
  "blocks (mem_init_with_config cs n s) = replicate MAX_BLOCKS free_block"
  "heap (mem_init_with_config cs n s) = heap s"
  by (simp_all add: mem_init_with_config_def Let_def)

lemma boot_state_inv: "mem_inv (boot_state h)" "\<not> initialized (boot_state h)"
  by (simp_all add: mem_inv_def boot_state_def used_blocks_def active_regions_def regions_ok_def)

definition apart :: "mem_region_t \<Rightarrow> mem_region_t \<Rightarrow> bool" where
  "apart a b \<longleftrightarrow> unat (r_start a) + unat (r_size a) \<le> unat (r_start b)
     \<or> unat (r_start b) + unat (r_size b) \<le> unat (r_start a)"

lemma regions_okI:
  assumes "\<forall>reg\<in>set rs. 0 < unat (r_start reg) \<and> unat (r_start reg) + unat (r_size reg) < 2 ^ 63"
    and "sorted_wrt apart rs"
  shows "regions_ok rs"
proof -
  have "apart (rs ! i) (rs ! j)" if "i < length rs" "j < length rs" "i \<noteq> j" for i j
    using assms(2) that unfolding sorted_wrt_iff_nth_less
    by (metis apart_def nat_neq_iff)
  then show ?thesis using assms(1) by (auto simp: regions_ok_def apart_def)
qed

definition pool_region :: "linker_pools \<Rightarrow> nat \<Rightarrow> mem_region_t" where
  "pool_region lk i = \<lparr>r_start = ucast (fst (lk i)), r_size = snd (lk i) - fst (lk i),
     r_name = mempool_names i, r_memory_used = 0\<rparr>"

lemma pools_regions:
  assumes "pools_ok lk"
  shows "map region_of_config (mempool_configs lk)
    = map (pool_region lk) (filter (\<lambda>i. fst (lk i) < snd (lk i)) [0..<MAX_MEM_REGIONS])"
proof -
  define f where "f i = (let (start, stop) = mempool_get_bounds lk i; pool_size = stop - start
     in if pool_size > 0
        then [\<lparr>c_start = ucast start, c_size = pool_size, c_name = Some (mempool_names i)\<rparr>]
        else [])" for i
  have "map region_of_config (f i) = (if fst (lk i) < snd (lk i) then [pool_region lk i] else [])"
    if "i < MAX_MEM_REGIONS" for i
  proof -
    have "fst (lk i) = snd (lk i) \<or> 0 < snd (lk i) - fst (lk i) \<and> fst (lk i) < snd (lk i)"
      using assms that by (auto simp: pools_ok_def word_greater_zero_iff)
    then show ?thesis
      using that by (auto simp: f_def mempool_get_bounds_def region_of_config_def pool_region_def Let_def split_beta)
  qed
  then have "concat (map (\<lambda>i. map region_of_config (f i)) is)
      = map (pool_region lk) (filter (\<lambda>i. fst (lk i) < snd (lk i)) is)"
    if "set is \<subseteq> {0..<MAX_MEM_REGIONS}" for "is"
    using that by (induction "is") auto
  then show ?thesis
    by (simp add: mempool_configs_def f_def [abs_def] map_concat o_def del: upt_rec_numeral)
qed

lemma pools_config_ok:
  assumes "pools_ok lk"
  shows "config_ok (mempool_configs lk)"
  unfolding config_ok_def pools_regions [OF assms]
proof (rule regions_okI)
  have reg: "unat (r_start (pool_region lk i)) = unat (fst (lk i))
      \<and> unat (r_start (pool_region lk i)) + unat (r_size (pool_region lk i)) = unat (snd (lk i))"
    if "fst (lk i) < snd (lk i)" for i
    using that by (simp add: pool_region_def word_less_nat_alt word_le_nat_alt unat_sub)
  have "0 < unat (r_start (pool_region lk i)) \<and> unat (r_start (pool_region lk i)) + unat (r_size (pool_region lk i)) < 2 ^ 63"
    if "i < MAX_MEM_REGIONS" "fst (lk i) < snd (lk i)" for i
  proof -
    have "0 < fst (lk i)" using assms that unfolding pools_ok_def by (metis less_irrefl)
    then show ?thesis
      using reg [OF that(2)] unat_lt_32 [of "snd (lk i)"] by (simp add: word_less_nat_alt)
  qed
  then show "\<forall>x\<in>set (map (pool_region lk) (filter (\<lambda>i. fst (lk i) < snd (lk i)) [0..<MAX_MEM_REGIONS])).
      0 < unat (r_start x) \<and> unat (r_start x) + unat (r_size x) < 2 ^ 63"
    by (simp del: upt_rec_numeral)
  have "apart (pool_region lk i) (pool_region lk j)"
    if "i < j" "j < MAX_MEM_REGIONS" "fst (lk i) < snd (lk i)" "fst (lk j) < snd (lk j)" for i j
  proof -
    have "fst (lk j) = snd (lk j) \<or> fst (lk i) = snd (lk i) \<or> snd (lk j) \<le> fst (lk i) \<or> snd (lk i) \<le> fst (lk j)"
      using assms that(1,2) unfolding pools_ok_def by blast
    then have "snd (lk j) \<le> fst (lk i) \<or> snd (lk i) \<le> fst (lk j)" using that(3,4) by auto
    then show ?thesis using reg [OF that(3)] reg [OF that(4)] by (auto simp: apart_def word_le_nat_alt)
  qed
  then have "sorted_wrt (\<lambda>i j. apart (pool_region lk i) (pool_region lk j))
      (filter (\<lambda>i. fst (lk i) < snd (lk i)) [0..<MAX_MEM_REGIONS])"
    by (rule sorted_wrt_mono_rel [OF _ sorted_wrt_filter [OF sorted_wrt_upt]])
      (simp_all del: upt_rec_numeral)
  then show "sorted_wrt apart (map (pool_region lk) (filter (\<lambda>i. fst (lk i) < snd (lk i)) [0..<MAX_MEM_REGIONS]))"
    by (simp add: sorted_wrt_map del: upt_rec_numeral)
qed

lemma pools_none:
  assumes "pools_ok lk"
  shows "mempool_configs lk = [] \<longleftrightarrow> (\<forall>i<MAX_MEM_REGIONS. fst (lk i) = snd (lk i))"
proof -
  have "mempool_configs lk = [] \<longleftrightarrow> filter (\<lambda>i. fst (lk i) < snd (lk i)) [0..<MAX_MEM_REGIONS] = []"
    using arg_cong [OF pools_regions [OF assms], of "\<lambda>x. x = []"] by (simp del: upt_rec_numeral)
  then show ?thesis using assms by (force simp: filter_empty_conv pools_ok_def simp del: upt_rec_numeral)
qed

lemma mem_init_inv:
  assumes "pools_ok lk" "mem_inv s"
  shows "mem_inv (mem_init lk s)"
proof (cases "mempool_configs lk = []")
  case True
  then show ?thesis using assms by (simp add: mem_init_def)
next
  case False
  moreover have "length (g_regions s) = MAX_MEM_REGIONS" using assms(2) by (simp add: mem_inv_def)
  ultimately show ?thesis
    using mem_init_with_config_inv(1) [OF pools_config_ok [OF assms(1)], of "int (length (mempool_configs lk))"]
    by (simp add: mem_init_def Let_def)
qed

section \<open>The contract of the allocator\<close>

text \<open>What a client may do, and what it may rely on: \<open>live s p\<close> is the extent in bytes of the
block that \<open>p\<close> points to, \<open>wanted q\<close> the number of bytes that request \<open>q\<close> asks for.\<close>

datatype 'q client_op = Alloc 'q | Release u64

locale allocator =
  fixes alloc :: "'q \<Rightarrow> 's \<Rightarrow> u64 \<times> 's"
    and release :: "u64 \<Rightarrow> 's \<Rightarrow> 's"
    and live :: "'s \<Rightarrow> u64 \<rightharpoonup> nat"
    and ok :: "'s \<Rightarrow> bool"
    and wanted :: "'q \<Rightarrow> nat"
  assumes alloc_ok: "ok s \<Longrightarrow> alloc q s = (p, t) \<Longrightarrow> ok t"
    and alloc_fail: "ok s \<Longrightarrow> alloc q s = (0, t) \<Longrightarrow> live t = live s"
    and alloc_live: "ok s \<Longrightarrow> alloc q s = (p, t) \<Longrightarrow> p \<noteq> 0 \<Longrightarrow>
      live s p = None \<and> (\<exists>n\<ge>wanted q. live t = (live s)(p \<mapsto> n))"
    and release_ok: "ok s \<Longrightarrow> ok (release p s)"
    and release_live: "ok s \<Longrightarrow> live (release p s) = (live s)(p := None)"
    and null_dead: "ok s \<Longrightarrow> live s 0 = None"
    and live_apart: "ok s \<Longrightarrow> live s p = Some m \<Longrightarrow> live s p' = Some m' \<Longrightarrow> p \<noteq> p' \<Longrightarrow>
      unat p + m \<le> unat p' \<or> unat p' + m' \<le> unat p"
begin

fun client_step :: "'q client_op \<Rightarrow> 's \<Rightarrow> 's" where
  "client_step (Alloc q) s = snd (alloc q s)"
| "client_step (Release p) s = release p s"

lemma client_step_ok: "ok s \<Longrightarrow> ok (client_step e s)"
  using alloc_ok release_ok by (cases e) (auto simp: prod_eq_iff)

lemma client_run_ok: "ok s \<Longrightarrow> ok (fold client_step es s)"
  by (induction es arbitrary: s) (auto simp: client_step_ok)

lemma alloc_then_release: "ok s \<Longrightarrow> alloc q s = (p, t) \<Longrightarrow> live (release p t) = live s"
  using alloc_ok alloc_fail alloc_live release_live null_dead
  by (cases "p = 0") (metis fun_upd_triv, metis fun_upd_triv fun_upd_upd)

lemma step_keeps:
  assumes "ok s" "live s p = Some n" "e \<noteq> Release p"
  shows "live (client_step e s) p = Some n"
proof (cases e)
  case (Alloc q)
  obtain p' t where a: "alloc q s = (p', t)" by fastforce
  show ?thesis
    using assms(1,2) Alloc a alloc_fail [OF assms(1)] alloc_live [OF assms(1) a] by (cases "p' = 0") auto
next
  case (Release p')
  then show ?thesis using assms release_live by auto
qed

lemma run_keeps:
  "ok s \<Longrightarrow> live s p = Some n \<Longrightarrow> Release p \<notin> set es \<Longrightarrow> live (fold client_step es s) p = Some n"
  by (induction es arbitrary: s) (auto simp: step_keeps client_step_ok)

lemma alloc_while_live:
  assumes "ok s" "live s p = Some n" "Release p \<notin> set es" "alloc q (fold client_step es s) = (p', t)" "p' \<noteq> 0"
  shows "unat p + n \<le> unat p' \<or> unat p' + wanted q \<le> unat p"
proof -
  let ?u = "fold client_step es s"
  have u: "ok ?u" "live ?u p = Some n" using assms client_run_ok run_keeps by blast+
  obtain m where m: "wanted q \<le> m" "live t = (live ?u)(p' \<mapsto> m)" "live ?u p' = None"
    using alloc_live [OF u(1) assms(4,5)] by blast
  then have "p \<noteq> p'" using u(2) by auto
  then show ?thesis
    using live_apart [OF alloc_ok [OF u(1) assms(4)], of p n p' m] u(2) m by auto
qed

end

definition live :: "mem_state \<Rightarrow> u64 \<rightharpoonup> nat" where
  "live s = map_of (map (\<lambda>b. (b_start b, unat (b_actual_size b))) (used_blocks s))"

definition mem_ready :: "mem_state \<Rightarrow> bool" where
  "mem_ready s \<longleftrightarrow> mem_inv s \<and> initialized s"

lemma before_distinct:
  "sorted_wrt before u \<Longrightarrow> \<forall>b\<in>set u. lo b < hi b \<Longrightarrow> distinct (map b_start u)"
  by (induction u) (force simp: before_def lo_def)+

lemma distinct_starts: "mem_inv s \<Longrightarrow> distinct (map b_start (used_blocks s))"
  using before_distinct mem_inv_block_bounds(1) by (auto simp: mem_inv_def)

lemma live_iff:
  assumes "mem_inv s"
  shows "live s p = Some n \<longleftrightarrow> (\<exists>b\<in>set (used_blocks s). b_start b = p \<and> unat (b_actual_size b) = n)"
proof -
  have "distinct (map fst (map (\<lambda>b. (b_start b, unat (b_actual_size b))) (used_blocks s)))"
    using distinct_starts [OF assms] by (simp add: o_def)
  from map_of_eq_Some_iff [OF this] show ?thesis by (auto simp: live_def)
qed

lemma live_None: "live s p = None \<longleftrightarrow> (\<forall>b\<in>set (used_blocks s). b_start b \<noteq> p)"
  by (auto simp: live_def map_of_eq_None_iff image_image)

lemma live_need_sort [simp]: "live (s\<lparr>need_sort := x\<rparr>) = live s"
  by (simp add: live_def)

lemma live_heap [simp]: "live (s\<lparr>heap := x\<rparr>) = live s"
  by (simp add: live_def)

lemma map_eqI: "(\<And>k v. f k = Some v \<longleftrightarrow> g k = Some v) \<Longrightarrow> f = g"
  by (rule ext) (metis not_None_eq)

lemma live_add_block:
  assumes fb: "fresh_block r p sz asz s"
  shows "live s p = None" "live (add_block r p sz asz s) = (live s)(p \<mapsto> unat asz)"
proof -
  have "b_start b \<noteq> p" if "b \<in> set (used_blocks s)" for b
    using fresh_disjoint [OF fb that] fresh_blockD(7,8) [OF fb]
      mem_inv_block_bounds(1) [OF fresh_blockD(1) [OF fb] that] by (auto simp: lo_def)
  then show n: "live s p = None" by (simp add: live_None)
  show "live (add_block r p sz asz s) = (live s)(p \<mapsto> unat asz)"
    using n live_iff [OF fresh_blockD(1) [OF fb]] live_iff [OF mem_inv_add_block [OF fb]]
    by (intro map_eqI) (auto simp: set_add_block [OF fb] new_block_def live_None)
qed

lemma live_remove_block:
  assumes inv: "mem_inv s" and i: "i < block_count s"
  shows "live (remove_block i s) = (live s)(b_start (used_blocks s ! i) := None)"
proof -
  let ?t = "remove_block i s" and ?b = "used_blocks s ! i"
  have m: "set (used_blocks s) = insert ?b (set (used_blocks ?t))"
    using arg_cong [OF mset_remove_block [OF inv i], of set_mset] by simp
  have "mset (map b_start (used_blocks s)) = add_mset (b_start ?b) (mset (map b_start (used_blocks ?t)))"
    using arg_cong [OF mset_remove_block [OF inv i], of "image_mset b_start"] by simp
  then have "distinct (b_start ?b # map b_start (used_blocks ?t))"
    using distinct_starts [OF inv] by (metis mset.simps(2) mset_eq_imp_distinct_iff)
  then have "b_start b \<noteq> b_start ?b" if "b \<in> set (used_blocks ?t)" for b
    using that by (metis distinct.simps(2) image_eqI list.set_map)
  then show ?thesis
    using live_iff [OF inv] live_iff [OF mem_inv_remove_block [OF inv i]]
    by (intro map_eqI) (auto simp: m)
qed

lemma mem_free_cases:
  assumes inv: "mem_inv s"
  shows "mem_inv (mem_free p s)" "live (mem_free p s) = (live s)(p := None)"
    "initialized (mem_free p s) = initialized s" "heap (mem_free p s) = heap s"
proof -
  have start: "b_start b \<noteq> 0" if "b \<in> set (used_blocks s)" for b
  proof -
    have "block_ok (active_regions s) b" "regions_ok (active_regions s)" using inv that by (auto simp: mem_inv_def)
    then have "0 < lo b" unfolding block_ok_def regions_ok_def using nth_mem by fastforce
    then show ?thesis by (auto simp: lo_def)
  qed
  have st: "b_status b = BLOCK_USED" if "b \<in> set (used_blocks s)" for b
    using inv that by (auto simp: mem_inv_def block_ok_def)
  have "mem_inv (mem_free p s) \<and> live (mem_free p s) = (live s)(p := None)
    \<and> initialized (mem_free p s) = initialized s \<and> heap (mem_free p s) = heap s"
  proof (cases "p = 0 \<or> find_used p (used_blocks s) = None")
    case True
    then have "live s p = None" using start st by (auto simp: live_None find_used_None)
    then have "(live s)(p := None) = live s" by (simp add: fun_upd_idem)
    with True mem_free_unknown [of p s] inv show ?thesis by simp
  next
    case False
    then obtain i where f: "find_used p (used_blocks s) = Some i" by auto
    then have "i < block_count s" "b_start (used_blocks s ! i) = p"
      using find_used_Some [OF f] by (auto simp: used_blocks_length [OF inv])
    then show ?thesis
      using False mem_free_remove [OF inv _ f] live_remove_block [OF inv] mem_inv_remove_block [OF inv]
      by (auto simp: remove_block_def Let_def)
  qed
  then show "mem_inv (mem_free p s)" "live (mem_free p s) = (live s)(p := None)"
    "initialized (mem_free p s) = initialized s" "heap (mem_free p s) = heap s" by auto
qed

lemma live_disjoint:
  assumes inv: "mem_inv s" and p: "live s p = Some m" and q: "live s q = Some n" and "p \<noteq> q"
  shows "unat p + m \<le> unat q \<or> unat q + n \<le> unat p"
proof -
  obtain b c where b: "b \<in> set (used_blocks s)" "b_start b = p" "unat (b_actual_size b) = m"
    and c: "c \<in> set (used_blocks s)" "b_start c = q" "unat (b_actual_size c) = n"
    using p q live_iff [OF inv] by metis
  then obtain i j where ij: "i < length (used_blocks s)" "j < length (used_blocks s)"
    "used_blocks s ! i = b" "used_blocks s ! j = c" by (metis in_set_conv_nth)
  then have "i < j \<or> j < i" using b c assms(4) by (metis nat_neq_iff)
  then have "before b c \<or> before c b"
    using inv ij unfolding mem_inv_def sorted_wrt_iff_nth_less by metis
  then show ?thesis using b c by (auto simp: before_def lo_def hi_def)
qed

lemma mem_alloc_aligned_contract:
  assumes inv: "mem_ready s" and res: "mem_alloc_aligned lk sz al s = (p, t)"
  shows "mem_ready t" "p = 0 \<Longrightarrow> live t = live s" "heap t = heap s"
    "p \<noteq> 0 \<Longrightarrow> live s p = None \<and> (\<exists>n\<ge>unat sz. live t = (live s)(p \<mapsto> n))"
proof -
  have s: "mem_inv s" "initialized s" using inv by (auto simp: mem_ready_def)
  have *: "initialized (add_block r p sz asz s) = initialized s" "heap (add_block r p sz asz s) = heap s"
    for r asz by (simp_all add: add_block_def Let_def)
  consider (fail) "p = 0" "t = s\<lparr>need_sort := need_sort t\<rparr>"
    | (ok) r k where "p \<noteq> 0" "request_ok sz al k" "fresh_block r p sz (rounded sz k) s"
      "t = add_block r p sz (rounded sz k) s"
    using mem_alloc_aligned_cases [OF s res] by blast
  then have "mem_ready t \<and> (p = 0 \<longrightarrow> live t = live s) \<and> heap t = heap s
    \<and> (p \<noteq> 0 \<longrightarrow> live s p = None \<and> (\<exists>n\<ge>unat sz. live t = (live s)(p \<mapsto> n)))"
  proof cases
    case fail
    have "mem_ready t" "live t = live s" "heap t = heap s" using s by (subst fail(2), simp add: mem_ready_def)+
    with fail(1) show ?thesis by simp
  next
    case ok
    then show ?thesis
      using mem_inv_add_block [OF ok(3)] live_add_block [OF ok(3)] rounded_bounds(2) [OF ok(2)] s(2) *
      by (auto simp: mem_ready_def)
  qed
  then show "mem_ready t" "p = 0 \<Longrightarrow> live t = live s" "heap t = heap s"
    "p \<noteq> 0 \<Longrightarrow> live s p = None \<and> (\<exists>n\<ge>unat sz. live t = (live s)(p \<mapsto> n))" by auto
qed

lemma mem_null_dead: "mem_inv s \<Longrightarrow> live s 0 = None"
  using mem_free_cases(2) [of s 0] mem_free_unknown [of 0 s] by (metis fun_upd_same)

interpretation mem: allocator "\<lambda>(sz, al). mem_alloc_aligned lk sz al" mem_free live mem_ready
  "\<lambda>(sz, al). unat sz" for lk
proof (unfold_locales, goal_cases)
  case (1 s q p t)
  then show ?case using mem_alloc_aligned_contract(1) by (cases q) auto
next
  case (2 s q t)
  then show ?case using mem_alloc_aligned_contract(2) by (cases q) auto
next
  case (3 s q p t)
  then show ?case using mem_alloc_aligned_contract(4) by (cases q) auto
next
  case (4 s p)
  then show ?case using mem_free_cases by (auto simp: mem_ready_def)
next
  case (5 s p)
  then show ?case using mem_free_cases by (auto simp: mem_ready_def)
next
  case (6 s)
  then show ?case using mem_null_dead by (auto simp: mem_ready_def)
next
  case (7 s p m p' m')
  then show ?case by (metis live_disjoint mem_ready_def)
qed

section \<open>Contents of the blocks\<close>

lemma live_address:
  assumes "mem_inv s" "live s p = Some n"
  shows "0 < unat p" "unat p + n < 2 ^ 63"
proof -
  obtain b where b: "b \<in> set (used_blocks s)" "b_start b = p" "unat (b_actual_size b) = n"
    using assms live_iff by blast
  have "block_ok (active_regions s) b" "regions_ok (active_regions s)"
    using assms(1) b(1) by (auto simp: mem_inv_def)
  moreover define reg where "reg = active_regions s ! unat (b_region_id b)"
  ultimately have "0 < unat (r_start reg)" "unat (r_start reg) + unat (r_size reg) < 2 ^ 63"
    "unat (r_start reg) \<le> lo b" "hi b \<le> unat (r_start reg) + unat (r_size reg)"
    using nth_mem by (auto simp: block_ok_def regions_ok_def)
  then show "0 < unat p" "unat p + n < 2 ^ 63" using b(2,3) by (auto simp: lo_def hi_def)
qed

text \<open>Byte \<open>i\<close> of a block at \<open>q\<close> lies in the \<open>n\<close> bytes from \<open>p\<close> on.\<close>

lemma unat_add_nat:
  assumes "unat q + i < 2 ^ 63"
  shows "unat (q + of_nat i :: u64) = unat q + i"
proof -
  have "unat (of_nat i :: u64) = i" using assms by (simp add: unat_of_nat)
  then show ?thesis using assms by (simp add: unat_word_ariths)
qed

lemma byte_in_range:
  fixes p q :: u64 and n :: u32
  assumes "unat q + i < 2 ^ 63" "unat p + unat n < 2 ^ 63"
  shows "q + of_nat i - p < ucast n \<longleftrightarrow> unat p \<le> unat q + i \<and> unat q + i < unat p + unat n"
proof (cases "unat p \<le> unat q + i")
  case True
  then have "unat (q + of_nat i - p) = unat q + i - unat p"
    using unat_add_nat [OF assms(1)] by (simp add: unat_sub_no_wrap)
  with True show ?thesis by (auto simp: word_less_nat_alt)
next
  case False
  let ?a = "q + of_nat i"
  have "unat (?a - p) = unat ?a + 2 ^ 64 - unat p"
    using False unat_add_nat [OF assms(1)] unat_lt_64 [of p]
    by (simp add: unat_sub_if' word_le_nat_alt)
  then have "2 ^ 63 \<le> unat (?a - p)" using False assms(2) by simp
  moreover have "unat (ucast n :: u64) < 2 ^ 32" using unat_lt_32 [of n] by simp
  ultimately show ?thesis using False by (simp add: word_less_nat_alt)
qed

lemma memset_byte:
  assumes "unat q + i < 2 ^ 63" "unat p + unat n < 2 ^ 63"
  shows "memset p c n h (q + of_nat i)
    = (if unat p \<le> unat q + i \<and> unat q + i < unat p + unat n then c else h (q + of_nat i))"
  using byte_in_range [OF assms] by (simp add: memset_def)

lemma memmove_byte:
  assumes "unat q + i < 2 ^ 63" "unat p + unat n < 2 ^ 63"
  shows "memmove p src n h (q + of_nat i)
    = (if unat p \<le> unat q + i \<and> unat q + i < unat p + unat n
       then h (src + (q + of_nat i - p)) else h (q + of_nat i))"
  using byte_in_range [OF assms] by (simp add: memmove_def)

definition bytes_kept :: "u64 \<Rightarrow> nat \<Rightarrow> (u64 \<Rightarrow> u8) \<Rightarrow> (u64 \<Rightarrow> u8) \<Rightarrow> bool" where
  "bytes_kept q n h h' \<longleftrightarrow> (\<forall>i<n. h' (q + of_nat i) = h (q + of_nat i))"

lemma mem_ready_heap [simp]: "mem_ready (s\<lparr>heap := h\<rparr>) = mem_ready s"
  by (simp add: mem_ready_def)

lemma calloc_total:
  assumes "\<not> (sz \<noteq> 0 \<and> cnt > 0xFFFFFFFF div sz)"
  shows "unat (cnt * sz :: u32) = unat cnt * unat sz"
proof (cases "sz = 0")
  case False
  then have "unat cnt \<le> 0xFFFFFFFF div unat sz"
    using assms by (simp add: word_le_nat_alt unat_div not_less)
  then have "unat cnt * unat sz \<le> 0xFFFFFFFF"
    by (metis div_times_less_eq_dividend le_trans mult_le_mono1)
  then show ?thesis by (simp add: unat_word_ariths)
qed simp

lemma calloc_contract:
  assumes s: "mem_ready s" and res: "mem_calloc_aligned lk cnt sz al s = (p, t)" and p: "p \<noteq> 0"
  shows "\<forall>i<unat cnt * unat sz. heap t (p + of_nat i) = 0"
    "\<exists>n\<ge>unat cnt * unat sz. live t = (live s)(p \<mapsto> n)" "live s p = None" "mem_ready t"
    "live s q = Some m \<Longrightarrow> bytes_kept q m (heap s) (heap t)"
proof -
  have ov: "\<not> (sz \<noteq> 0 \<and> cnt > 0xFFFFFFFF div sz)"
    using res p by (auto simp: mem_calloc_aligned_def split: if_splits)
  note tot = calloc_total [OF ov]
  obtain u where u: "mem_alloc_aligned lk (cnt * sz) al s = (p, u)" "t = u\<lparr>heap := memset p 0 (cnt * sz) (heap u)\<rparr>"
    using res p ov unfolding mem_calloc_aligned_def
    by (auto simp: Let_def split: if_splits prod.splits)
  note c = mem_alloc_aligned_contract [OF s u(1)]
  obtain n where n: "unat (cnt * sz) \<le> n" "live u = (live s)(p \<mapsto> n)" "live s p = None"
    using c(4) [OF p] by blast
  have inv: "mem_inv s" "mem_inv u" using s c(1) by (auto simp: mem_ready_def)
  have "unat p + n < 2 ^ 63" using live_address(2) [OF inv(2), of p n] n by simp
  then have r: "unat p + unat (cnt * sz) < 2 ^ 63" using n(1) by simp
  show "\<forall>i<unat cnt * unat sz. heap t (p + of_nat i) = 0"
    using r memset_byte [OF _ r] by (auto simp: u(2) tot)
  show "\<exists>n\<ge>unat cnt * unat sz. live t = (live s)(p \<mapsto> n)" using n u(2) tot by auto
  show "live s p = None" by (rule n(3))
  show "mem_ready t" using c(1) u(2) by simp
  assume q: "live s q = Some m"
  then have "q \<noteq> p" using n(3) by auto
  then have "unat q + m \<le> unat p \<or> unat p + n \<le> unat q"
    using live_disjoint [OF inv(2), of q m p n] q n(2) by simp
  then show "bytes_kept q m (heap s) (heap t)"
    using memset_byte [OF _ r] live_address(2) [OF inv(1) q] n(1) c(3)
    by (auto simp: bytes_kept_def u(2))
qed

section \<open>Resizing\<close>

text \<open>The size that the client asked for, as \<open>mem_realloc\<close> looks it up.\<close>

definition user_size :: "mem_state \<Rightarrow> u64 \<Rightarrow> u32 option" where
  "user_size s p = map_option (\<lambda>i. b_size (blocks s ! i)) (find_used p (take (block_count s) (blocks s)))"

lemma find_used_live:
  assumes "mem_inv s"
  shows "find_used p (used_blocks s) = None \<longleftrightarrow> live s p = None"
  using assms by (auto simp: find_used_None live_None mem_inv_def block_ok_def)

lemma live_lookup:
  assumes inv: "mem_inv s" and f: "find_used p (used_blocks s) = Some i"
  shows "i < block_count s" "used_blocks s ! i = blocks s ! i" "b_start (blocks s ! i) = p"
    "live s p = Some (unat (b_actual_size (blocks s ! i)))" "block_ok (active_regions s) (blocks s ! i)"
    "b_size (blocks s ! i) \<le> b_actual_size (blocks s ! i)"
proof -
  show i: "i < block_count s" "used_blocks s ! i = blocks s ! i"
    using find_used_Some [OF f] used_blocks_length [OF inv] by (auto simp: used_blocks_def)
  then have m: "blocks s ! i \<in> set (used_blocks s)"
    by (metis nth_mem used_blocks_length [OF inv])
  show st: "b_start (blocks s ! i) = p" using find_used_Some [OF f] i(2) by simp
  show "live s p = Some (unat (b_actual_size (blocks s ! i)))" using m st live_iff [OF inv] by auto
  show ok: "block_ok (active_regions s) (blocks s ! i)" using m inv by (simp add: mem_inv_def)
  then show "b_size (blocks s ! i) \<le> b_actual_size (blocks s ! i)"
    by (simp add: block_ok_def word_le_nat_alt)
qed

lemma take_update: "i < n \<Longrightarrow> take n (xs[i := x]) = (take n xs)[i := x]"
  by (simp add: take_update_swap)

lemma sorted_wrt_update:
  assumes "sorted_wrt before u" "i < length u" "lo x = lo (u ! i)" "hi x = hi (u ! i)"
  shows "sorted_wrt before (u[i := x])"
  using assms by (auto simp: sorted_wrt_iff_nth_less before_def nth_list_update)

lemma usage_update:
  assumes "i < length (used_blocks s)" "b_status x = b_status (used_blocks s ! i)"
    "b_region_id x = b_region_id (used_blocks s ! i)" "b_actual_size x = b_actual_size (used_blocks s ! i)"
    and t: "used_blocks t = (used_blocks s)[i := x]"
  shows "usage q t = usage q s"
proof -
  have "i < length (used_blocks t)" "used_blocks t ! i = x" using assms(1) t by simp_all
  then show ?thesis
    using usage_split [OF assms(1), of q] usage_split [of i t q] assms by simp
qed

lemma shrink_inv:
  assumes inv: "mem_inv s" and f: "find_used p (used_blocks s) = Some i"
    and n: "n \<noteq> 0" "n \<le> b_size (blocks s ! i)"
  defines "t \<equiv> s\<lparr>blocks := (blocks s)[i := (blocks s ! i)\<lparr>b_size := n\<rparr>]\<rparr>"
  shows "mem_inv t" "live t = live s"
proof -
  note l = live_lookup [OF inv f]
  let ?x = "(blocks s ! i)\<lparr>b_size := n\<rparr>"
  have ub: "used_blocks t = (used_blocks s)[i := ?x]"
    using l(1) by (simp add: used_blocks_def t_def take_update)
  have i: "i < length (used_blocks s)" using l(1) used_blocks_length [OF inv] by simp
  have x: "lo ?x = lo (used_blocks s ! i)" "hi ?x = hi (used_blocks s ! i)"
    by (simp_all add: l(2) lo_def hi_def)
  have "usage q t = usage q s" for q
    by (rule usage_update [OF i _ _ _ ub]) (simp_all add: l(2))
  moreover have "block_ok (active_regions s) ?x"
    using l(5,6) n by (auto simp: block_ok_def lo_def hi_def word_le_nat_alt unat_gt_0)
  then have "\<forall>b\<in>set (used_blocks t). block_ok (active_regions s) b"
    using inv set_update_subset_insert [of "used_blocks s" i ?x] by (auto simp: mem_inv_def ub)
  moreover have "sorted_wrt before (used_blocks t)"
    using inv sorted_wrt_update [OF _ i x] by (simp add: ub mem_inv_def)
  moreover have "length (blocks t) = length (blocks s)" "g_regions t = g_regions s" "block_count t = block_count s"
    "g_region_count t = g_region_count s" "drop (block_count s) (blocks t) = drop (block_count s) (blocks s)"
    "active_regions t = active_regions s"
    using l(1) by (simp_all add: t_def active_regions_def)
  ultimately show "mem_inv t" using inv by (simp add: mem_inv_def)
  have "map (\<lambda>b. (b_start b, unat (b_actual_size b))) (used_blocks t)
      = map (\<lambda>b. (b_start b, unat (b_actual_size b))) (used_blocks s)"
    using i by (intro nth_equalityI) (auto simp: ub nth_list_update l(2))
  then show "live t = live s" by (simp add: live_def)
qed

lemma grow_contract:
  assumes s: "mem_ready s" and f: "find_used p (used_blocks s) = Some i" and p: "p \<noteq> 0"
    and a: "mem_alloc_aligned lk n al s = (q, u)" and q: "q \<noteq> 0"
    and old: "old = b_size (blocks s ! i)" "old < n"
  defines "t \<equiv> mem_free p (u\<lparr>heap := memmove q p old (heap u)\<rparr>)"
  shows "mem_ready t" "q \<noteq> p" "live s q = None" "\<exists>m\<ge>unat n. live t = (live s)(q \<mapsto> m, p := None)"
    "\<forall>j<unat old. heap t (q + of_nat j) = heap s (p + of_nat j)"
    "live s c = Some k \<Longrightarrow> c \<noteq> p \<Longrightarrow> bytes_kept c k (heap s) (heap t)"
proof -
  note ct = mem_alloc_aligned_contract [OF s a]
  have inv: "mem_inv s" "mem_inv u" using s ct(1) by (auto simp: mem_ready_def)
  note l = live_lookup [OF inv(1) f]
  obtain m where m: "unat n \<le> m" "live u = (live s)(q \<mapsto> m)" "live s q = None"
    using ct(4) [OF q] by blast
  show qp: "q \<noteq> p" using m(3) l(4) by auto
  show "live s q = None" by (rule m(3))
  let ?v = "u\<lparr>heap := memmove q p old (heap u)\<rparr>"
  have fr: "mem_inv t" "live t = (live ?v)(p := None)" "heap t = memmove q p old (heap s)"
    "initialized t = initialized u"
    using mem_free_cases [of ?v p] inv(2) ct(3) by (simp_all add: t_def)
  then show "mem_ready t" using ct(1) by (simp add: mem_ready_def)
  show "\<exists>m\<ge>unat n. live t = (live s)(q \<mapsto> m, p := None)" using fr(2) m by auto
  have qm: "unat q + m < 2 ^ 63" using live_address(2) [OF inv(2), of q m] m(2) by simp
  have on: "unat old < unat n" using old(2) by (simp add: word_less_nat_alt)
  then have r: "unat q + unat old < 2 ^ 63" using qm m(1) by simp
  show "\<forall>j<unat old. heap t (q + of_nat j) = heap s (p + of_nat j)"
    using memmove_byte [OF _ r] r by (auto simp: fr(3))
  assume c: "live s c = Some k" "c \<noteq> p"
  then have "c \<noteq> q" using m(3) by auto
  then have "unat c + k \<le> unat q \<or> unat q + m \<le> unat c"
    using live_disjoint [OF inv(2), of c k q m] c(1) m(2) by simp
  then show "bytes_kept c k (heap s) (heap t)"
    using memmove_byte [OF _ r] live_address(2) [OF inv(1) c(1)] m(1) on
    by (auto simp: bytes_kept_def fr(3))
qed

lemma realloc_unfold:
  assumes inv: "mem_inv s" and f: "find_used p (used_blocks s) = Some i" and n: "n \<noteq> 0"
    and al: "IS_POWER_OF_2 (if al = 0 then 1 else al)"
  shows "mem_realloc_aligned lk p n al s =
    (let old = b_size (blocks s ! i) in
     if n \<le> old then (p, s\<lparr>blocks := (blocks s)[i := (blocks s ! i)\<lparr>b_size := n\<rparr>]\<rparr>)
     else let (q, u) = mem_alloc_aligned lk n (if al = 0 then 1 else al) s
          in if q = 0 then (p, u) else (q, mem_free p (u\<lparr>heap := memmove q p old (heap u)\<rparr>)))"
proof -
  have "live s p \<noteq> None" using live_lookup(4) [OF inv f] by simp
  then have "p \<noteq> 0" using mem_null_dead [OF inv] by metis
  with f n al show ?thesis
    unfolding mem_realloc_aligned_def Let_def used_blocks_def by (simp split: prod.split)
qed

lemma realloc_contract:
  assumes s: "mem_ready s" and p: "live s p = Some m" and n: "n \<noteq> 0"
    and al: "IS_POWER_OF_2 (if al = 0 then 1 else al)"
    and res: "mem_realloc_aligned lk p n al s = (q, t)" and old: "user_size s p = Some old"
  shows "mem_ready t
    \<and> (if n \<le> old \<or> fst (mem_alloc_aligned lk n (if al = 0 then 1 else al) s) = 0
       then q = p \<and> live t = live s \<and> heap t = heap s
       else q \<noteq> 0 \<and> q \<noteq> p \<and> live s q = None
         \<and> (\<exists>k\<ge>unat n. live t = (live s)(q \<mapsto> k, p := None))
         \<and> bytes_kept 0 (unat old) (\<lambda>j. heap s (p + j)) (\<lambda>j. heap t (q + j))
         \<and> (\<forall>c k. live s c = Some k \<longrightarrow> c \<noteq> p \<longrightarrow> bytes_kept c k (heap s) (heap t)))"
proof -
  have inv: "mem_inv s" using s by (simp add: mem_ready_def)
  then have p0: "p \<noteq> 0" using mem_null_dead p by force
  obtain i where f: "find_used p (used_blocks s) = Some i" using find_used_live [OF inv, of p] p by auto
  then have o: "old = b_size (blocks s ! i)" using old by (simp add: user_size_def used_blocks_def)
  obtain c u where a: "mem_alloc_aligned lk n (if al = 0 then 1 else al) s = (c, u)" by fastforce
  have qt: "(q, t) = (if n \<le> old then (p, s\<lparr>blocks := (blocks s)[i := (blocks s ! i)\<lparr>b_size := n\<rparr>]\<rparr>)
     else if c = 0 then (p, u) else (c, mem_free p (u\<lparr>heap := memmove c p old (heap u)\<rparr>)))"
    using realloc_unfold [OF inv f n al, of lk] unfolding res a o Let_def by simp
  consider (shrink) "n \<le> old" | (fail) "\<not> n \<le> old" "c = 0" | (grow) "\<not> n \<le> old" "c \<noteq> 0" by blast
  then show ?thesis
  proof cases
    case shrink
    then show ?thesis using qt shrink_inv [OF inv f n] o s by (simp add: mem_ready_def)
  next
    case fail
    then show ?thesis using qt mem_alloc_aligned_contract [OF s a] a by simp
  next
    case grow
    then have lt: "old < n" by (simp add: not_le)
    note g = grow_contract [OF s f p0 a grow(2) o lt]
    from grow qt g show ?thesis by (simp add: a bytes_kept_def)
  qed
qed

section \<open>Completeness, and the largest free block\<close>

lemma hole_in_gap:
  assumes "within a z bs" "unat a \<le> x" "y \<le> unat z" "x < y"
    and "\<And>b. b \<in> set bs \<Longrightarrow> hi b \<le> x \<or> y \<le> lo b"
  shows "\<exists>(g, h) \<in> set (gaps a z bs). unat g \<le> x \<and> y \<le> unat h"
  using assms
proof (induction bs arbitrary: a)
  case Nil
  then show ?case by simp
next
  case (Cons b bs)
  note w = within_Cons [OF Cons.prems(1)]
  show ?case
  proof (cases "y \<le> lo b")
    case True
    then show ?thesis using Cons.prems(2) by (simp add: lo_def)
  next
    case False
    then have "hi b \<le> x" using Cons.prems(5) by auto
    then show ?thesis
      using Cons.IH [OF w(4)] Cons.prems(3-5) w(3) by fastforce
  qed
qed

lemma fit_no_fresh_block:
  assumes "no_fit r k asz s" "2 ^ k dvd unat p"
  shows "\<not> fresh_block r p sz asz s"
proof
  assume fb: "fresh_block r p sz asz s"
  note d = fresh_blockD [OF fb]
  obtain g h where gh: "(g, h) \<in> set (gaps (r_start (g_regions s ! r)) (region_end (g_regions s ! r)) (region_blocks r s))"
    "unat g \<le> unat p" "unat p + unat asz \<le> unat h"
    using hole_in_gap [OF region_within [OF d(1,3)], of "unat p" "unat p + unat asz"] d(4-8) by fastforce
  then have "unat h < round_up (2 ^ k) (unat g) + unat asz" using assms(1) d(2) by (auto simp: no_fit_def)
  moreover have "round_up (2 ^ k) (unat g) \<le> unat p"
    using round_up_least [OF _ assms(2) gh(2)] by simp
  ultimately show False using gh(3) by simp
qed

definition widths :: "nat \<Rightarrow> mem_state \<Rightarrow> nat list" where
  "widths r s = map (\<lambda>(g, h). unat h - unat g)
     (gaps (r_start (g_regions s ! r)) (region_end (g_regions s ! r)) (region_blocks r s))"

lemma fold_max_map: "fold (\<lambda>i l. if f i > l then f i else l) xs (l :: 'a::linorder) = fold max (map f xs) l"
proof -
  have "(\<lambda>i l. if f i > l then f i else l) = (\<lambda>i. max (f i))" by (auto simp: fun_eq_iff max_def)
  then show ?thesis by (simp add: fold_map o_def)
qed

lemma fold_max_unat:
  "unat (fold max xs (l :: 'a::len word)) = fold max (map unat xs) (unat l)"
  by (induction xs arbitrary: l) (auto simp: max_def word_le_nat_alt)

lemma ucast_ucast_32: "ucast (ucast x :: u64) = (x :: u32)"
  using unat_lt_32 [of x]
  by (intro unsigned_word_eqI [where ?'a = nat]) (simp add: unsigned_ucast_eq unsigned_take_bit_eq take_bit_nat_eq_self)

lemma region_largest_gaps:
  assumes inv: "mem_inv s" and r: "r < nat (g_region_count s)"
  shows "region_largest r s = fold max (map (\<lambda>(g, h). ucast (h - g) :: u32)
     (gaps (r_start (g_regions s ! r)) (region_end (g_regions s ! r)) (region_blocks r s))) 0"
proof -
  let ?bs = "region_blocks r s" and ?u = "used_indices r s" and ?reg = "g_regions s ! r"
  let ?w = "\<lambda>i. (\<lambda>(g, h). ucast (h - g) :: u32) (gaps (r_start ?reg) (region_end ?reg) ?bs ! i)"
  have ui: "map ((!) (blocks s)) ?u = ?bs" using inv by (intro nth_used_indices) (simp add: mem_inv_def)
  then have len: "length ?u = length ?bs" by (metis length_map)
  then have nth: "blocks s ! (?u ! i) = ?bs ! i" if "i < length ?bs" for i
    using ui that by (metis nth_map)
  show ?thesis
  proof (cases "?bs")
    case Nil
    then show ?thesis
      using len by (simp add: region_largest_def Let_def region_end_def ucast_ucast_32)
  next
    case (Cons b bs')
    then obtain n where n: "length ?bs = Suc n" by simp
    have "map (\<lambda>(g, h). ucast (h - g) :: u32) (gaps (r_start ?reg) (region_end ?reg) ?bs)
        = map ?w [0..<Suc (Suc n)]"
      by (intro nth_equalityI) (simp_all add: n del: upt_Suc)
    also have "\<dots> = ?w 0 # map ?w [1..<Suc n] @ [?w (Suc n)]"
    proof -
      have "[0..<Suc (Suc n)] = 0 # [1..<Suc n] @ [Suc n]"
        using upt_conv_Cons [of 0 "Suc (Suc n)"] upt_Suc_append [of 1 "Suc n"] by simp
      then show ?thesis by (simp del: upt_Suc)
    qed
    finally have g: "fold max (map (\<lambda>(g, h). ucast (h - g) :: u32) (gaps (r_start ?reg) (region_end ?reg) ?bs)) 0
        = max (?w (Suc n)) (fold max (map ?w [1..<Suc n]) (max (?w 0) 0))" by simp
    have m: "map (\<lambda>i. ucast (b_start (blocks s ! (?u ! i)) - block_end (blocks s ! (?u ! (i - 1)))) :: u32)
        [1..<Suc n] = map ?w [1..<Suc n]"
      using n nth by (auto simp: nth_gaps)
    have e: "ucast (b_start (blocks s ! (?u ! 0)) - r_start ?reg) = ?w 0"
      "ucast (r_start ?reg + ucast (r_size ?reg) - block_end (blocks s ! (?u ! n))) = ?w (Suc n)"
      using n nth by (auto simp: nth_gaps region_end_def)
    have l: "length ?u = Suc n" using len n by simp
    have mx: "(if x > y then x else y) = max x y" for x y :: u32 by (auto simp: max_def)
    show ?thesis
      unfolding region_largest_def Let_def l g e diff_Suc_1 fold_max_map m
      unfolding mx by simp
  qed
qed

lemma region_largest_widths:
  assumes inv: "mem_inv s" and r: "r < nat (g_region_count s)"
  shows "unat (region_largest r s) = fold max (widths r s) 0"
proof -
  have "unat (ucast (h - g) :: u32) = unat h - unat g"
    if "(g, h) \<in> set (gaps (r_start (g_regions s ! r)) (region_end (g_regions s ! r)) (region_blocks r s))" for g h
  proof -
    note i = gaps_inside [OF region_within [OF inv r] that]
    then have "unat h - unat g \<le> unat (r_size (g_regions s ! r))"
      using region_end_unat [OF inv r] by linarith
    then have "unat (h - g) < 2 ^ 32" using i unat_lt_32 [of "r_size (g_regions s ! r)"]
      by (simp add: unat_sub_no_wrap)
    then show ?thesis using i by (simp add: unat_sub_no_wrap unsigned_ucast_eq take_bit_nat_eq_self)
  qed
  then have "map unat (map (\<lambda>(g, h). ucast (h - g) :: u32)
      (gaps (r_start (g_regions s ! r)) (region_end (g_regions s ! r)) (region_blocks r s))) = widths r s"
    by (auto simp: widths_def)
  then show ?thesis by (simp add: region_largest_gaps [OF assms] fold_max_unat)
qed

lemma fold_max_ge: "x \<le> fold max xs (l :: nat) \<longleftrightarrow> x \<le> l \<or> (\<exists>y\<in>set xs. x \<le> y)"
  by (induction xs arbitrary: l) (auto simp: le_max_iff_disj)

lemma region_largest_need_sort [simp]: "region_largest r (s\<lparr>need_sort := x\<rparr>) = region_largest r s"
  by (simp add: region_largest_def Let_def used_indices_def)

lemma largest_free_fold:
  assumes "mem_inv s"
  shows "fst (mem_get_largest_free_block s) = fold max (map (\<lambda>r. region_largest r s) [0..<nat (g_region_count s)]) 0"
proof -
  have "fst (fold (\<lambda>r (largest, s).
       let s = ensure_blocks_sorted s; l = region_largest r s
       in (if l > largest then l else largest, s)) rs (l, s\<lparr>need_sort := x\<rparr>))
     = fold max (map (\<lambda>r. region_largest r s) rs) l" for rs l x
  proof (induction rs arbitrary: l x)
    case Nil
    then show ?case by simp
  next
    case (Cons r rs)
    have "ensure_blocks_sorted (s\<lparr>need_sort := x\<rparr>) = s\<lparr>need_sort := x \<and> block_count s \<le> 1\<rparr>"
      using ensure_blocks_sorted_inv [of "s\<lparr>need_sort := x\<rparr>"] assms by simp
    moreover have "(if l < y then y else l) = max y l" for y :: u32 by (auto simp: max_def)
    ultimately show ?case using Cons.IH by (simp add: Let_def)
  qed
  from this [of _ _ "need_sort s"] show ?thesis by (simp add: mem_get_largest_free_block_def)
qed

lemma largest_free_ge:
  assumes "mem_inv s" "sz \<noteq> 0"
  shows "sz \<le> fst (mem_get_largest_free_block s)
    \<longleftrightarrow> (\<exists>r<nat (g_region_count s). \<exists>w\<in>set (widths r s). unat sz \<le> w)"
proof -
  obtain m where m: "unat sz = Suc m" using assms(2) by (cases "unat sz") (auto simp: unat_eq_zero)
  have "sz \<le> fst (mem_get_largest_free_block s)
    \<longleftrightarrow> (\<exists>r<nat (g_region_count s). unat sz \<le> unat (region_largest r s))"
    using m by (auto simp: largest_free_fold [OF assms(1)] word_le_nat_alt fold_max_unat fold_max_ge simp del: upt_Suc)
  also have "\<dots> \<longleftrightarrow> (\<exists>r<nat (g_region_count s). \<exists>w\<in>set (widths r s). unat sz \<le> w)"
  proof -
    have "unat sz \<le> unat (region_largest r s) \<longleftrightarrow> (\<exists>w\<in>set (widths r s). unat sz \<le> w)"
      if "r < nat (g_region_count s)" for r
      using m by (simp add: region_largest_widths [OF assms(1) that] fold_max_ge)
    then show ?thesis by blast
  qed
  finally show ?thesis .
qed

lemma rounded_0: "0 < unat sz \<Longrightarrow> request_ok sz 1 0" "0 < unat sz \<Longrightarrow> rounded sz 0 = sz"
proof -
  assume sz: "0 < unat sz"
  then show r: "request_ok sz 1 0" using unat_lt_32 [of sz] by (simp add: request_ok_def)
  have "unat (rounded sz 0) = unat sz" using rounded_bounds [OF r] by simp
  then show "rounded sz 0 = sz" by (simp add: word_unat_eq_iff)
qed

lemma alloc_iff_largest_room:
  assumes s: "mem_ready s" and room: "block_count s < MAX_BLOCKS" and sz: "sz \<noteq> 0"
  shows "fst (mem_alloc_aligned lk sz 1 s) \<noteq> 0 \<longleftrightarrow> sz \<le> fst (mem_get_largest_free_block s)"
proof -
  obtain p t where a: "mem_alloc_aligned lk sz 1 s = (p, t)" by fastforce
  have inv: "mem_inv s" "initialized s" using s by (auto simp: mem_ready_def)
  have pos: "0 < unat sz" using sz by (simp add: unat_gt_0)
  have nf: "no_fit r 0 sz s \<longleftrightarrow> (\<forall>w\<in>set (widths r s). w < unat sz)" for r
    using room pos by (auto simp: no_fit_def widths_def round_up_def split_beta)
  show ?thesis
  proof (cases "p = 0")
    case True
    then have "\<forall>r<nat (g_region_count s). no_fit r 0 sz s"
      using mem_alloc_aligned_cases [OF inv a] rounded_0 [OF pos] by metis
    then show ?thesis using True a nf largest_free_ge [OF inv(1) sz] by (auto simp: not_le)
  next
    case False
    then obtain r k where rk: "request_ok sz 1 k" "fresh_block r p sz (rounded sz k) s"
      using mem_alloc_aligned_cases [OF inv a] by blast
    have "k = 0" using rk(1) unat_exp_32 [of k] by (cases k) (auto simp: request_ok_def)
    with rk(2) have fb: "fresh_block r p sz sz s" using rounded_0 [OF pos] by simp
    then have "\<not> no_fit r 0 sz s" using fit_no_fresh_block [of r 0 sz s p] by auto
    then show ?thesis
      using False a nf largest_free_ge [OF inv(1) sz] fresh_blockD(3) [OF fb] by (auto simp: not_less)
  qed
qed

lemma alloc_iff_largest:
  assumes s: "mem_ready s"
  shows "fst (mem_alloc_aligned lk sz 1 s) \<noteq> 0
    \<longleftrightarrow> sz \<noteq> 0 \<and> block_count s < MAX_BLOCKS \<and> sz \<le> fst (mem_get_largest_free_block s)"
proof (cases "sz \<noteq> 0 \<and> block_count s < MAX_BLOCKS")
  case True
  then show ?thesis using alloc_iff_largest_room [OF s] by blast
next
  case False
  have inv: "mem_inv s" "initialized s" using s by (auto simp: mem_ready_def)
  have "\<not> (request_ok sz 1 k \<and> fresh_block r p sz (rounded sz k) s)" for r p k
    using False by (auto simp: fresh_block_def request_ok_def)
  then have "fst (mem_alloc_aligned lk sz 1 s) = 0"
    using mem_alloc_aligned_cases [OF inv surjective_pairing, of lk sz 1] by blast
  with False show ?thesis by blast
qed

section \<open>Accounting\<close>

lemma fold_add: "fold (\<lambda>r total. total + f r) xs (a :: 'a::comm_monoid_add) = a + sum_list (map f xs)"
  by (induction xs arbitrary: a) (auto simp: add.assoc)

lemma of_nat_sum_list: "of_nat (sum_list xs) = sum_list (map of_nat xs)"
  by (induction xs) auto

lemma sum_by_region:
  assumes "\<forall>b\<in>set u. g b < n"
  shows "sum_list (map (\<lambda>r. sum_list (map f (filter (\<lambda>b. g b = r) u))) [0..<n]) = (sum_list (map f u) :: nat)"
  using assms
proof (induction u)
  case Nil
  then show ?case by (simp add: sum_list_0)
next
  case (Cons b u)
  have "sum_list (map (\<lambda>r. sum_list (map f (filter (\<lambda>b. g b = r) (b # u)))) [0..<n])
      = sum_list (map (\<lambda>r. (if g b = r then f b else 0) + sum_list (map f (filter (\<lambda>b. g b = r) u))) [0..<n])"
    by (intro arg_cong [where f = sum_list] map_cong) auto
  also have "\<dots> = sum_list (map (\<lambda>r. if g b = r then f b else 0) [0..<n]) + sum_list (map f u)"
    using Cons by (simp add: sum_list_addf)
  also have "sum_list (map (\<lambda>r. if g b = r then f b else 0) [0..<n]) = f b"
    using Cons.prems by (simp add: interv_sum_list_conv_sum_set_nat)
  finally show ?case by simp
qed

lemma mem_get_used_live:
  assumes inv: "mem_inv s"
  shows "mem_get_used s = of_nat (sum_list (map (\<lambda>b. unat (b_actual_size b)) (used_blocks s)))"
proof -
  let ?n = "nat (g_region_count s)"
  have "mem_get_used s = sum_list (map r_memory_used (active_regions s))"
    by (simp add: mem_get_used_def fold_add)
  also have "map r_memory_used (active_regions s) = map (\<lambda>r. of_nat (usage r s)) [0..<?n]"
  proof (rule nth_equalityI)
    fix i assume "i < length (map r_memory_used (active_regions s))"
    then have i: "i < ?n" using active_length [OF inv] by simp
    then have "usage i s = unat (r_memory_used (g_regions s ! i))" using inv by (simp add: mem_inv_def)
    then show "map r_memory_used (active_regions s) ! i = map (\<lambda>r. of_nat (usage r s)) [0..<?n] ! i"
      using i active_length [OF inv] active_nth [OF inv i] by simp
  qed (simp add: active_length [OF inv])
  also have "sum_list \<dots> = of_nat (sum_list (map (\<lambda>r. usage r s) [0..<?n]))"
    by (simp add: of_nat_sum_list o_def)
  also have "sum_list (map (\<lambda>r. usage r s) [0..<?n]) = sum_list (map (\<lambda>b. unat (b_actual_size b)) (used_blocks s))"
    using sum_by_region [of "used_blocks s" "\<lambda>b. unat (b_region_id b)" ?n] mem_inv_block_bounds(2) [OF inv]
    by (simp add: usage_def region_blocks_used [OF inv])
  finally show ?thesis .
qed

lemma mem_get_used_free_total: "mem_get_used s + mem_get_free s = mem_get_total s"
  by (simp add: mem_get_used_def mem_get_free_def mem_get_total_def fold_add flip: sum_list_addf)

lemma block_counts:
  assumes inv: "mem_inv s"
  shows "mem_get_used_blocks_count s = int (block_count s)"
    "mem_get_free_blocks_count s = int MAX_BLOCKS - int (block_count s)"
proof -
  have "filter (\<lambda>b. b_status b = BLOCK_USED) (used_blocks s) = used_blocks s"
    "filter (\<lambda>b. b_status b = BLOCK_FREE) (used_blocks s) = []"
    using inv by (auto simp: mem_inv_def block_ok_def filter_id_conv filter_empty_conv)
  moreover have "block_count s \<le> MAX_BLOCKS" "length (blocks s) = MAX_BLOCKS" using inv by (auto simp: mem_inv_def)
  ultimately show "mem_get_used_blocks_count s = int (block_count s)"
    "mem_get_free_blocks_count s = int MAX_BLOCKS - int (block_count s)"
    using blocks_split [OF inv] used_blocks_length [OF inv]
    by (simp_all add: mem_get_used_blocks_count_def mem_get_free_blocks_count_def used_blocks_def [symmetric])
      (simp add: free_block_def of_nat_diff)
qed

end
