(* ===== verification/Memory_Allocator_Properties.thy ===== *)
theory Memory_Allocator_Properties
  imports Memory_Allocator_Spec
begin

text \<open>
  The properties of \<^verbatim>\<open>drivers/kinetis/memory_allocator.c\<close>, each with a witness on a board whose
  linker script has two pools.
\<close>

section \<open>A concrete board\<close>

definition demo_pools :: linker_pools where
  "demo_pools i = (if i = 0 then (0x20000000, 0x20000100) else if i = 1 then (0x24000000, 0x24001000)
     else (0x30000000, 0x30000000))"

definition demo_state :: mem_state where
  "demo_state = mem_init demo_pools (boot_state (\<lambda>_. 0xA5))"

lemma demo_pools_ok: "pools_ok demo_pools"
  by (auto simp: pools_ok_def demo_pools_def)

lemma demo_ready: "mem_ready demo_state"
proof -
  have "initialized demo_state" by code_simp
  then show ?thesis
    using mem_init_inv [OF demo_pools_ok boot_state_inv(1)] by (simp add: mem_ready_def demo_state_def)
qed

text \<open>The sequences of calls a client makes.\<close>

fun mem_client_step :: "linker_pools \<Rightarrow> (u32 \<times> u32) client_op \<Rightarrow> mem_state \<Rightarrow> mem_state" where
  "mem_client_step lk (Alloc (sz, al)) s = snd (mem_alloc_aligned lk sz al s)"
| "mem_client_step lk (Release p) s = mem_free p s"

lemma mem_client_step_eq: "mem_client_step lk = mem.client_step lk"
proof (intro ext)
  fix e s show "mem_client_step lk e s = mem.client_step lk e s" by (cases e) auto
qed

section \<open>Allocation and release\<close>

text \<open>C1.  A successful \<open>mem_alloc_aligned\<close> returns an address with the requested alignment whose
\<open>sz\<close> bytes lie inside one region and overlap no live block; the block becomes live, nothing else
changes, and the table stays well-formed.\<close>

theorem alloc_sound:
  assumes "mem_ready s" "mem_alloc_aligned lk sz al s = (p, t)" "p \<noteq> 0"
  shows "mem_is_aligned p al \<and> mem_ready t \<and> heap t = heap s
    \<and> (\<exists>n\<ge>unat sz. live t = (live s)(p \<mapsto> n))
    \<and> (\<forall>q n. live s q = Some n \<longrightarrow> unat q + n \<le> unat p \<or> unat p + unat sz \<le> unat q)
    \<and> (\<exists>reg\<in>set (active_regions s). unat (r_start reg) \<le> unat p
         \<and> unat p + unat sz \<le> unat (r_start reg) + unat (r_size reg))"
proof -
  have inv: "mem_inv s" "initialized s" using assms(1) by (auto simp: mem_ready_def)
  obtain r k where rk: "request_ok sz al k" "fresh_block r p sz (rounded sz k) s" "2 ^ k dvd unat p"
    using mem_alloc_aligned_cases [OF inv assms(2)] assms(3) by blast
  note d = fresh_blockD [OF rk(2)] and c = mem_alloc_aligned_contract [OF assms(1,2)]
  have "mem_is_aligned p al"
    using rk(1,3) mem_is_aligned_iff [of k p] by (auto simp: request_ok_def mem_is_aligned_def split: if_splits)
  moreover have "g_regions s ! r \<in> set (active_regions s)"
    using active_nth [OF inv(1) d(3)] active_length [OF inv(1)] d(3) by (metis nth_mem)
  moreover have "unat q + n \<le> unat p \<or> unat p + unat sz \<le> unat q" if q: "live s q = Some n" for q n
  proof -
    obtain b where "b \<in> set (used_blocks s)" "b_start b = q" "unat (b_actual_size b) = n"
      using q live_iff [OF inv(1)] by blast
    then show ?thesis using fresh_disjoint [OF rk(2)] d(8) by (fastforce simp: lo_def hi_def)
  qed
  ultimately show ?thesis
    using c(1,3) c(4) [OF assms(3)] d(4,5,8) region_end_unat(1) [OF inv(1) d(3)] by fastforce
qed

theorem alloc_sound_witness:
  "let r = mem_alloc_aligned demo_pools 300 64 demo_state
   in fst r \<noteq> 0 \<and> mem_is_aligned (fst r) 64 \<and> mem_ready (snd r)
     \<and> (\<exists>n\<ge>300. live (snd r) = (live demo_state)(fst r \<mapsto> n))"
proof -
  have "fst (mem_alloc_aligned demo_pools 300 64 demo_state) \<noteq> 0" by code_simp
  then show ?thesis
    using alloc_sound [OF demo_ready surjective_pairing, of demo_pools 300 64] by (simp add: Let_def)
qed

text \<open>C2.  \<open>mem_alloc_aligned\<close> fails only with a cause: a zero size, an alignment that is not a power
of two, a size that overflows when rounded up, a full block table, or no region with an aligned
hole for the rounded size.  A failure leaves the live blocks alone.\<close>

theorem alloc_complete:
  assumes "mem_ready s" "mem_alloc_aligned lk sz al s = (0, t)"
  shows "live t = live s \<and> heap t = heap s
    \<and> (sz = 0 \<or> \<not> IS_POWER_OF_2 (if al = 0 then 1 else al)
       \<or> sz > 0xFFFFFFFF - ((if al = 0 then 1 else al) - 1) \<or> block_count s = MAX_BLOCKS
       \<or> (\<forall>r<nat (g_region_count s). \<forall>p. mem_is_aligned p al \<longrightarrow>
            unat (r_start (g_regions s ! r)) \<le> unat p \<longrightarrow>
            unat p + unat (ucast (ALIGN_UP32 sz (if al = 0 then 1 else al)) :: u32)
              \<le> unat (r_start (g_regions s ! r)) + unat (r_size (g_regions s ! r)) \<longrightarrow>
            (\<exists>q n. live s q = Some n \<and> unat q < unat p + unat (ucast (ALIGN_UP32 sz (if al = 0 then 1 else al)) :: u32)
               \<and> unat p < unat q + n)))"
proof (cases "(\<exists>k. request_ok sz al k) \<and> block_count s < MAX_BLOCKS")
  case False
  then have "(\<nexists>k. request_ok sz al k) \<or> block_count s = MAX_BLOCKS"
    using assms(1) by (auto simp: mem_ready_def mem_inv_def)
  then show ?thesis using request_bad mem_alloc_aligned_contract(2,3) [OF assms] by blast
next
  case True
  then obtain k where k: "request_ok sz al k" by blast
  have inv: "mem_inv s" "initialized s" using assms(1) by (auto simp: mem_ready_def)
  have al: "(if al = 0 then 1 else al) = 2 ^ k" "k < 32" using k by (auto simp: request_ok_def)
  have "\<exists>q n. live s q = Some n \<and> unat q < unat p + unat (rounded sz k) \<and> unat p < unat q + n"
    if r: "r < nat (g_region_count s)" and p: "mem_is_aligned p al" "unat (r_start (g_regions s ! r)) \<le> unat p"
      "unat p + unat (rounded sz k) \<le> unat (r_start (g_regions s ! r)) + unat (r_size (g_regions s ! r))" for r p
  proof -
    have "2 ^ k dvd unat p"
    proof (cases "al = 0")
      case True
      then have "(2::u32) ^ k = 2 ^ 0" using al(1) by simp
      then have "(2::nat) ^ k = 2 ^ 0" using unat_exp_32 [OF al(2)] unat_exp_32 [of 0] by simp
      then show ?thesis by simp
    next
      case False
      then show ?thesis using p(1) al mem_is_aligned_iff [of k p] by simp
    qed
    moreover have "no_fit r k (rounded sz k) s"
      using mem_alloc_aligned_cases [OF inv assms(2)] k r by blast
    ultimately have "\<not> fresh_block r p sz (rounded sz k) s" by (rule fit_no_fresh_block [rotated])
    then obtain b where b: "b \<in> set (region_blocks r s)" "\<not> hi b \<le> unat p" "\<not> unat p + unat (rounded sz k) \<le> lo b"
      using True inv(1) r p(2,3) region_end_unat(1) [OF inv(1) r] k rounded_bounds(2) [OF k]
      by (auto simp: fresh_block_def request_ok_def)
    then have "b \<in> set (used_blocks s)" by (simp add: region_blocks_used [OF inv(1)])
    then have "live s (b_start b) = Some (unat (b_actual_size b))" using live_iff [OF inv(1)] by blast
    moreover have "unat (b_start b) < unat p + unat (rounded sz k)"
      "unat p < unat (b_start b) + unat (b_actual_size b)" using b(2,3) by (auto simp: lo_def hi_def)
    ultimately show ?thesis by blast
  qed
  then show ?thesis
    using mem_alloc_aligned_contract(2,3) [OF assms] unfolding al(1) rounded_def [symmetric] by blast
qed

theorem alloc_complete_witness:
  "\<exists>t. mem_alloc_aligned demo_pools 0x2000 4 demo_state = (0, t) \<and> live t = live demo_state"
proof -
  have "fst (mem_alloc_aligned demo_pools 0x2000 4 demo_state) = 0" by code_simp
  then obtain t where "mem_alloc_aligned demo_pools 0x2000 4 demo_state = (0, t)"
    by (metis prod.collapse)
  with alloc_complete [OF demo_ready this] show ?thesis by auto
qed

text \<open>C3.  \<open>mem_free\<close> removes exactly the block that starts at the pointer: the block's bytes come
off the usage counter of its region, every other block stays, and the table stays well-formed.  A
null pointer, an address that is not the start of a live block, or a second release of the same
block changes nothing.\<close>

theorem free_exact:
  assumes "mem_ready s"
  shows "mem_ready (mem_free p s) \<and> live (mem_free p s) = (live s)(p := None)
    \<and> heap (mem_free p s) = heap s \<and> mem_free p (mem_free p s) = mem_free p s
    \<and> (live s p = None \<longrightarrow> mem_free p s = s)
    \<and> (\<forall>n. live s p = Some n \<longrightarrow> block_count (mem_free p s) = block_count s - 1
         \<and> mem_get_used (mem_free p s) = mem_get_used s - of_nat n)"
proof -
  have inv: "mem_inv s" using assms by (simp add: mem_ready_def)
  note f = mem_free_cases [OF inv, of p]
  have dead: "mem_free p t = t" if "mem_inv t" "live t p = None" for t
    using that find_used_live [OF that(1)] mem_free_unknown by blast
  have "block_count (mem_free p s) = block_count s - 1 \<and> mem_get_used (mem_free p s) = mem_get_used s - of_nat n"
    if n: "live s p = Some n" for n
  proof -
    obtain i where i: "find_used p (used_blocks s) = Some i" using n find_used_live [OF inv, of p] by auto
    note l = live_lookup [OF inv i]
    have "p \<noteq> 0" using n mem_null_dead [OF inv] by auto
    then have r: "mem_free p s = remove_block i s" by (rule mem_free_remove [OF inv _ i])
    have "sum_list (map (\<lambda>b. unat (b_actual_size b)) (used_blocks s))
        = n + sum_list (map (\<lambda>b. unat (b_actual_size b)) (used_blocks (remove_block i s)))"
      using arg_cong [OF mset_remove_block [OF inv l(1)], of "\<lambda>m. sum_mset (image_mset (\<lambda>b. unat (b_actual_size b)) m)"] l(2,4) n
      by (simp flip: sum_mset_sum_list)
    then show ?thesis
      using mem_get_used_live [OF inv] mem_get_used_live [OF mem_inv_remove_block [OF inv l(1)]]
      by (simp add: r) (simp add: remove_block_def Let_def)
  qed
  then show ?thesis
    using f assms dead [OF inv] dead [OF f(1)] by (auto simp: mem_ready_def)
qed

theorem free_exact_witness:
  "let (p, t) = mem_alloc_aligned demo_pools 20 8 demo_state
   in live t p \<noteq> None \<and> live (mem_free p t) = (live t)(p := None) \<and> mem_free p (mem_free p t) = mem_free p t"
proof -
  obtain p t where pt: "mem_alloc_aligned demo_pools 20 8 demo_state = (p, t)" by fastforce
  have "fst (mem_alloc_aligned demo_pools 20 8 demo_state) \<noteq> 0" by code_simp
  then have "p \<noteq> 0" using pt by simp
  then have "live t p \<noteq> None" "mem_ready t"
    using mem_alloc_aligned_contract(1,4) [OF demo_ready pt] by auto
  then show ?thesis using free_exact [of t p] pt by simp
qed

text \<open>C4.  Over any sequence of allocations and releases a block that is not released keeps its
address and extent, and every later successful allocation is disjoint from it.\<close>

theorem client_blocks_safe:
  assumes "mem_ready s" "live s p = Some n" "Release p \<notin> set es"
  shows "mem_ready (fold (mem_client_step lk) es s)
    \<and> live (fold (mem_client_step lk) es s) p = Some n
    \<and> (\<forall>sz al q t. mem_alloc_aligned lk sz al (fold (mem_client_step lk) es s) = (q, t) \<longrightarrow> q \<noteq> 0 \<longrightarrow>
         unat p + n \<le> unat q \<or> unat q + unat sz \<le> unat p)"
  using mem.client_run_ok [OF assms(1)] mem.run_keeps [OF assms]
    mem.alloc_while_live [OF assms, where q = "(_, _)", simplified]
  unfolding mem_client_step_eq by blast

definition demo_run :: "(u32 \<times> u32) client_op list" where
  "demo_run = [Alloc (100, 16), Release 0x20000010, Alloc (3, 1), Release 0x24000000, Alloc (3000, 32)]"

theorem client_blocks_safe_witness:
  "live (fold (mem_client_step demo_pools) demo_run (snd (mem_alloc_aligned demo_pools 12 4 demo_state)))
     0x20000000 = Some 12"
proof -
  have "live (snd (mem_alloc_aligned demo_pools 12 4 demo_state)) 0x20000000 = Some 12" by code_simp
  moreover have "mem_ready (snd (mem_alloc_aligned demo_pools 12 4 demo_state))"
    using mem_alloc_aligned_contract(1) [OF demo_ready surjective_pairing] by simp
  moreover have "Release 0x20000000 \<notin> set demo_run" by (simp add: demo_run_def)
  ultimately show ?thesis using client_blocks_safe by blast
qed

section \<open>Initialisation\<close>

text \<open>C5.  Whatever the state was before, \<open>mem_init_with_config\<close> on a table of regions without overlap
gives an initialised, well-formed allocator with an empty block table, whose regions are the first
entries of the table, at most four, with nothing used.  \<open>mem_init\<close> does the same with exactly the pools
that the linker script gives a size, in order; when it gives none, the state stays as it was.
No byte of the memory changes.\<close>

theorem init_establishes:
  assumes "pools_ok lk" "config_ok cs" "0 \<le> n" "n \<le> int (length cs)"
    and "length (g_regions s) = MAX_MEM_REGIONS"
  shows "mem_ready (mem_init_with_config cs n s)
    \<and> live (mem_init_with_config cs n s) = Map.empty
    \<and> blocks (mem_init_with_config cs n s) = replicate MAX_BLOCKS free_block
    \<and> active_regions (mem_init_with_config cs n s)
        = map region_of_config (take (min (nat n) MAX_MEM_REGIONS) cs)
    \<and> heap (mem_init_with_config cs n s) = heap s
    \<and> (if \<forall>i<MAX_MEM_REGIONS. fst (lk i) = snd (lk i) then mem_init lk s = s
       else mem_ready (mem_init lk s) \<and> live (mem_init lk s) = Map.empty
         \<and> blocks (mem_init lk s) = replicate MAX_BLOCKS free_block
         \<and> active_regions (mem_init lk s)
             = map (pool_region lk) (filter (\<lambda>i. fst (lk i) < snd (lk i)) [0..<MAX_MEM_REGIONS])
         \<and> heap (mem_init lk s) = heap s)"
proof -
  have len: "length (mempool_configs lk) \<le> MAX_MEM_REGIONS"
    using arg_cong [OF pools_regions [OF assms(1)], of length]
      length_filter_le [of "\<lambda>i. fst (lk i) < snd (lk i)" "[0..<MAX_MEM_REGIONS]"]
    by (simp only: length_map length_upt)
  note c = mem_init_with_config_inv [OF assms(2-5)] mem_init_with_config_blocks [of cs n s]
  note p = mem_init_with_config_inv [OF pools_config_ok [OF assms(1)] _ _ assms(5),
      of "int (length (mempool_configs lk))"]
  show ?thesis
    using c p len unfolding mem_init_def Let_def length_0_conv pools_none [OF assms(1), symmetric]
    by (simp add: mem_ready_def live_def pools_regions [OF assms(1)] mem_init_with_config_blocks
        del: upt_rec_numeral)
qed

theorem init_establishes_witness:
  "let s = snd (mem_alloc_aligned demo_pools 12 4 demo_state)
   in live s \<noteq> Map.empty \<and> mem_ready (mem_init demo_pools s) \<and> live (mem_init demo_pools s) = Map.empty
     \<and> mem_ready (mem_init_with_config [\<lparr>c_start = 0x1000, c_size = 64, c_name = None\<rparr>] 1 s)
     \<and> live (mem_init_with_config [\<lparr>c_start = 0x1000, c_size = 64, c_name = None\<rparr>] 1 s) = Map.empty"
proof -
  let ?s = "snd (mem_alloc_aligned demo_pools 12 4 demo_state)"
  have cfg: "config_ok [\<lparr>c_start = 0x1000, c_size = 64, c_name = None\<rparr>]"
    by (simp add: config_ok_def regions_ok_def region_of_config_def)
  have "mem_ready ?s" using mem_alloc_aligned_contract(1) [OF demo_ready surjective_pairing] by simp
  then have len: "length (g_regions ?s) = MAX_MEM_REGIONS" by (simp add: mem_ready_def mem_inv_def)
  have "live ?s 0x20000000 = Some 12" by code_simp
  then have "live ?s \<noteq> Map.empty" by auto
  moreover have "fst (demo_pools 0) \<noteq> snd (demo_pools 0)" by code_simp
  then have "\<not> (\<forall>i<MAX_MEM_REGIONS. fst (demo_pools i) = snd (demo_pools i))" by (metis zero_less_numeral)
  ultimately show ?thesis
    using init_establishes [OF demo_pools_ok cfg _ _ len, of 1] unfolding Let_def
    by (simp only: if_False) simp
qed

section \<open>Zeroed and resized blocks\<close>

text \<open>C6.  A successful \<open>mem_calloc_aligned\<close> returns a block of at least \<open>cnt * sz\<close> bytes (the product
does not wrap) that reads as zero, and no byte of a live block changes; a product that does not
fit 32 bits is refused.\<close>

theorem calloc_zeroed:
  assumes "mem_ready s" "mem_calloc_aligned lk cnt sz al s = (p, t)"
  shows "(p \<noteq> 0 \<longrightarrow> (\<forall>i<unat cnt * unat sz. heap t (p + of_nat i) = 0)
       \<and> (\<exists>n\<ge>unat cnt * unat sz. live t = (live s)(p \<mapsto> n))
       \<and> (\<forall>q n i. live s q = Some n \<longrightarrow> i < n \<longrightarrow> heap t (q + of_nat i) = heap s (q + of_nat i)))
    \<and> (2 ^ 32 \<le> unat cnt * unat sz \<longrightarrow> p = 0 \<and> t = s)"
proof -
  have "p = 0 \<and> t = s" if ov: "2 ^ 32 \<le> unat cnt * unat sz"
  proof -
    have "unat (cnt * sz) \<noteq> unat cnt * unat sz" using ov unat_lt_32 [of "cnt * sz"] by simp
    then have "sz \<noteq> 0 \<and> cnt > 0xFFFFFFFF div sz" using calloc_total [of sz cnt] by blast
    then show ?thesis using assms(2) by (simp add: mem_calloc_aligned_def)
  qed
  then show ?thesis
    using calloc_contract [OF assms] unfolding bytes_kept_def by blast
qed

theorem calloc_zeroed_witness:
  "let (p, t) = mem_calloc_aligned demo_pools 5 6 16 demo_state
   in p \<noteq> 0 \<and> (\<forall>i<30. heap t (p + of_nat i) = 0)"
proof -
  obtain p t where pt: "mem_calloc_aligned demo_pools 5 6 16 demo_state = (p, t)" by fastforce
  have "fst (mem_calloc_aligned demo_pools 5 6 16 demo_state) \<noteq> 0" by code_simp
  then show ?thesis using calloc_zeroed [OF demo_ready pt] pt by simp
qed

text \<open>C7.  \<open>mem_realloc_aligned\<close> on a live pointer and a nonzero size.  Shrinking, or growing when no
memory is left, returns the same pointer and leaves the block and all contents as they are.
Otherwise a new block of the new size takes over the bytes the client had, the old block is
released, and no byte of another live block changes.\<close>

theorem realloc_preserves:
  assumes "mem_ready s" "live s p = Some m" "n \<noteq> 0" "IS_POWER_OF_2 (if al = 0 then 1 else al)"
    and "mem_realloc_aligned lk p n al s = (q, t)" "user_size s p = Some old"
  shows "mem_ready t
    \<and> (if n \<le> old \<or> fst (mem_alloc_aligned lk n (if al = 0 then 1 else al) s) = 0
       then q = p \<and> live t = live s \<and> heap t = heap s
       else q \<noteq> 0 \<and> q \<noteq> p \<and> live s q = None
         \<and> (\<exists>k\<ge>unat n. live t = (live s)(q \<mapsto> k, p := None))
         \<and> (\<forall>i<unat old. heap t (q + of_nat i) = heap s (p + of_nat i))
         \<and> (\<forall>c k. live s c = Some k \<longrightarrow> c \<noteq> p \<longrightarrow>
              (\<forall>i<k. heap t (c + of_nat i) = heap s (c + of_nat i))))"
  using realloc_contract [OF assms] unfolding bytes_kept_def add_0 .

theorem realloc_preserves_witness:
  "let s = snd (mem_alloc_aligned demo_pools 12 4 demo_state); (q, t) = mem_realloc_aligned demo_pools 0x20000000 40 4 s
   in q \<noteq> 0 \<and> q \<noteq> 0x20000000 \<and> (\<forall>i<12. heap t (q + of_nat i) = heap s (0x20000000 + of_nat i))"
proof -
  let ?s = "snd (mem_alloc_aligned demo_pools 12 4 demo_state)"
  obtain q t where qt: "mem_realloc_aligned demo_pools 0x20000000 40 4 ?s = (q, t)" by fastforce
  have r: "mem_ready ?s"
    using mem_alloc_aligned_contract(1) [OF demo_ready surjective_pairing] by simp
  have l: "live ?s 0x20000000 = Some 12" by code_simp
  have u: "user_size ?s 0x20000000 = Some 12" by code_simp
  have a: "fst (mem_alloc_aligned demo_pools 40 4 ?s) \<noteq> 0" by code_simp
  have i: "IS_POWER_OF_2 (if (4 :: u32) = 0 then 1 else 4)" by code_simp
  show ?thesis
    using realloc_preserves [OF r l _ i qt u] a qt by (simp add: Let_def)
qed



section \<open>Statistics and order\<close>

text \<open>C9.  The statistics are exact: \<open>mem_get_used\<close> is the number of bytes of the live blocks, used
and free bytes add up to the total, and used and free entries to the size of the table.\<close>

theorem statistics_exact:
  assumes "mem_ready s"
  shows "mem_get_used s = of_nat (sum_list (map (\<lambda>b. unat (b_actual_size b)) (take (block_count s) (blocks s))))
    \<and> mem_get_used s + mem_get_free s = mem_get_total s
    \<and> mem_get_used_blocks_count s = int (block_count s)
    \<and> mem_get_used_blocks_count s + mem_get_free_blocks_count s = int MAX_BLOCKS
    \<and> (\<forall>r. 0 \<le> r \<longrightarrow> r < g_region_count s \<longrightarrow>
         unat (mem_get_region_used r s) + unat (mem_get_region_free r s) = unat (mem_get_region_size r s))"
proof -
  have inv: "mem_inv s" using assms by (simp add: mem_ready_def)
  have "unat (mem_get_region_used r s) + unat (mem_get_region_free r s) = unat (mem_get_region_size r s)"
    if "0 \<le> r" "r < g_region_count s" for r
  proof -
    have n: "nat r < nat (g_region_count s)" using that by simp
    then have "unat (r_memory_used (g_regions s ! nat r)) \<le> unat (r_size (g_regions s ! nat r))"
      using usage_le [OF inv n] inv by (simp add: mem_inv_def)
    then show ?thesis
      using that by (simp add: mem_get_region_used_def mem_get_region_free_def mem_get_region_size_def
          valid_region_def unat_sub_no_wrap)
  qed
  then show ?thesis
    using mem_get_used_live [OF inv] mem_get_used_free_total [of s] block_counts [OF inv]
    by (simp add: used_blocks_def)
qed

theorem statistics_exact_witness:
  "mem_get_used_blocks_count demo_state + mem_get_free_blocks_count demo_state = 256
   \<and> mem_get_used demo_state + mem_get_free demo_state = 0x1100"
proof -
  have "mem_get_total demo_state = 0x1100" by code_simp
  moreover have "mem_get_used demo_state + mem_get_free demo_state = mem_get_total demo_state"
    "mem_get_used_blocks_count demo_state + mem_get_free_blocks_count demo_state = int MAX_BLOCKS"
    using statistics_exact [OF demo_ready] by blast+
  ultimately show ?thesis by simp
qed

text \<open>C10.  \<open>ensure_blocks_sorted\<close> orders the block table by start address and is a permutation of its
entries, on every table whose count does not exceed its length.\<close>

theorem ensure_sorted_correct:
  assumes "block_count s \<le> length (blocks s)" "need_sort s"
  shows "sorted (map b_start (take (block_count s) (blocks (ensure_blocks_sorted s))))
    \<and> mset (take (block_count s) (blocks (ensure_blocks_sorted s))) = mset (take (block_count s) (blocks s))
    \<and> drop (block_count s) (blocks (ensure_blocks_sorted s)) = drop (block_count s) (blocks s)"
proof (cases "block_count s \<le> 1")
  case True
  then have "length (take (block_count s) (blocks s)) \<le> 1" by simp
  then have "sorted (map b_start (take (block_count s) (blocks s)))"
    by (cases "take (block_count s) (blocks s)") auto
  with True show ?thesis by (simp add: ensure_blocks_sorted_def)
next
  case False
  then show ?thesis
    using sort_blocks_sorts [OF assms(1)] assms(2) by (simp add: ensure_blocks_sorted_def)
qed

theorem ensure_sorted_correct_witness:
  "let b = (\<lambda>x. free_block\<lparr>b_start := x\<rparr>);
       s = (boot_state (\<lambda>_. 0))\<lparr>blocks := [b 9, b 4, b 7], block_count := 3, need_sort := True\<rparr>
   in sorted (map b_start (take (block_count s) (blocks (ensure_blocks_sorted s))))"
proof -
  let ?s = "(boot_state (\<lambda>_. 0))\<lparr>blocks := [free_block\<lparr>b_start := 9\<rparr>,
    free_block\<lparr>b_start := 4\<rparr>, free_block\<lparr>b_start := 7\<rparr>], block_count := 3, need_sort := True\<rparr>"
  have "block_count ?s \<le> length (blocks ?s)" "need_sort ?s" by simp_all
  from ensure_sorted_correct [OF this] show ?thesis unfolding Let_def by blast
qed

end
