(* ===== verification/Tim_Task.thy ===== *)
theory Tim_Task
  imports Kinetis_Prelude
begin

text \<open>
  The cooperative timer tasks of \<^verbatim>\<open>drivers/kinetis/tim-task.c\<close>.  A task is an object at an address
  (0 is \<open>NULL\<close>); the intrusive lists are lists of addresses, and the two list nodes of a task carry a
  flag that \<open>list_del\<close> clears when it poisons the node.  Following a poisoned node is a fault of the
  machine, kept in the field \<open>fault\<close>.  The callbacks are code of the clients: a function from the
  callback's name and the task to a new state.  \<open>ktime_get\<close> reads the field \<open>ktime\<close>, in
  nanoseconds, which the callbacks may move on; \<open>clock_us\<close> is \<open>ktime_to_us (ktime_get ())\<close>.
\<close>

section \<open>State\<close>

type_synonym task_ptr = nat

record tim_task =
  t_name :: "string option"
  t_timeout :: int
  t_interval_us :: u32
  t_callback :: nat
  t_auto_load :: bool
  t_sched :: bool
  t_task_id :: u32
  t_priority :: u32
  t_created_time :: int
  t_execution_count :: u32
  t_last_execution_time :: u32
  t_total_execution_time :: u64
  t_list_ok :: bool
  t_main_ok :: bool

record 'u timers =
  tasks :: "task_ptr \<Rightarrow> tim_task"
  priority_heads :: "task_ptr list list"
  tim_task_suspend_head :: "task_ptr list"
  tim_task_head :: "task_ptr list"
  tim_task_init :: bool
  task_id_counter :: u32
  ktime :: int
  fault :: bool
  env :: 'u

definition ktime_to_us :: "int \<Rightarrow> int" where
  "ktime_to_us kt = cdiv kt 1000"

abbreviation clock_us :: "'u timers \<Rightarrow> int" where "clock_us s \<equiv> ktime_to_us (ktime s)"

type_synonym 'u callbacks = "nat \<Rightarrow> task_ptr \<Rightarrow> 'u timers \<Rightarrow> 'u timers"

abbreviation MAX_PRIORITY_LEVELS :: nat where "MAX_PRIORITY_LEVELS \<equiv> 3"

definition upd_task :: "task_ptr \<Rightarrow> (tim_task \<Rightarrow> tim_task) \<Rightarrow> 'u timers \<Rightarrow> 'u timers" where
  "upd_task t f s = s\<lparr>tasks := (tasks s)(t := f (tasks s t))\<rparr>"

section \<open>The list operations\<close>

definition unlink :: "task_ptr \<Rightarrow> 'u timers \<Rightarrow> 'u timers" where
  "unlink t s = s\<lparr>priority_heads := map (removeAll t) (priority_heads s),
     tim_task_suspend_head := removeAll t (tim_task_suspend_head s)\<rparr>"

definition list_del :: "task_ptr \<Rightarrow> 'u timers \<Rightarrow> 'u timers" where
  "list_del t s = (if t_list_ok (tasks s t)
     then upd_task t (\<lambda>k. k\<lparr>t_list_ok := False\<rparr>) (unlink t s) else s\<lparr>fault := True\<rparr>)"

definition list_del_main :: "task_ptr \<Rightarrow> 'u timers \<Rightarrow> 'u timers" where
  "list_del_main t s = (if t_main_ok (tasks s t)
     then upd_task t (\<lambda>k. k\<lparr>t_main_ok := False\<rparr>)
       (s\<lparr>tim_task_head := removeAll t (tim_task_head s)\<rparr>) else s\<lparr>fault := True\<rparr>)"

definition list_add_tail :: "task_ptr \<Rightarrow> nat \<Rightarrow> 'u timers \<Rightarrow> 'u timers" where
  "list_add_tail t p s = upd_task t (\<lambda>k. k\<lparr>t_list_ok := True\<rparr>)
     (s\<lparr>priority_heads := (priority_heads s)[p := priority_heads s ! p @ [t]]\<rparr>)"

definition list_move_tail :: "task_ptr \<Rightarrow> nat \<Rightarrow> 'u timers \<Rightarrow> 'u timers" where
  "list_move_tail t p s =
     (if t_list_ok (tasks s t) then list_add_tail t p (unlink t s) else s\<lparr>fault := True\<rparr>)"

section \<open>Operations\<close>

definition tim_task_add ::
  "task_ptr \<Rightarrow> string option \<Rightarrow> u32 \<Rightarrow> bool \<Rightarrow> bool \<Rightarrow> nat \<Rightarrow> 'u timers \<Rightarrow> int \<times> 'u timers" where
  "tim_task_add t name interval auto_load sched cb s =
     (if t = 0 \<or> cb = 0 then (- EINVAL, s)
      else if interval = 0 \<or> interval > 3600000000 then (- EINVAL, s)
      else
        let s = (if tim_task_init s then s
                 else s\<lparr>priority_heads := replicate MAX_PRIORITY_LEVELS [], tim_task_init := True\<rparr>);
            s = s\<lparr>task_id_counter := task_id_counter s + 1\<rparr>;
            s = upd_task t (\<lambda>_. \<lparr>t_name = name, t_timeout = s64 (clock_us s + uint interval),
              t_interval_us = interval, t_callback = cb, t_auto_load = auto_load, t_sched = sched,
              t_task_id = task_id_counter s, t_priority = 1, t_created_time = ktime s,
              t_execution_count = 0, t_last_execution_time = 0, t_total_execution_time = 0,
              t_list_ok = True, t_main_ok = True\<rparr>) s;
            s = list_add_tail t 1 s
        in (0, s\<lparr>tim_task_head := tim_task_head s @ [t]\<rparr>))"

definition tim_task_drop :: "task_ptr \<Rightarrow> 'u timers \<Rightarrow> 'u timers" where
  "tim_task_drop t s = (if t = 0 then s else list_del_main t (list_del t s))"

definition tim_task_suspend :: "task_ptr \<Rightarrow> 'u timers \<Rightarrow> 'u timers" where
  "tim_task_suspend t s =
     (if t = 0 \<or> \<not> t_list_ok (tasks s t) then s\<lparr>fault := True\<rparr>
      else let s = unlink t s in s\<lparr>tim_task_suspend_head := tim_task_suspend_head s @ [t]\<rparr>)"

definition tim_task_resume :: "task_ptr \<Rightarrow> 'u timers \<Rightarrow> 'u timers" where
  "tim_task_resume t s =
     (if t = 0 \<or> t_priority (tasks s t) \<ge> of_nat MAX_PRIORITY_LEVELS then s
      else list_move_tail t (unat (t_priority (tasks s t))) s)"

definition tim_task_set_priority :: "task_ptr \<Rightarrow> u32 \<Rightarrow> 'u timers \<Rightarrow> int \<times> 'u timers" where
  "tim_task_set_priority t new_priority s =
     (if t = 0 \<or> new_priority \<ge> of_nat MAX_PRIORITY_LEVELS then (- EINVAL, s)
      else
        let s = list_del t s;
            s = upd_task t (\<lambda>k. k\<lparr>t_priority := new_priority\<rparr>) s
        in (0, list_add_tail t (unat new_priority) s))"

definition tim_task_set_interval :: "task_ptr \<Rightarrow> u32 \<Rightarrow> 'u timers \<Rightarrow> int \<times> 'u timers" where
  "tim_task_set_interval t new_interval s =
     (if t = 0 then (- EINVAL, s)
      else if new_interval = 0 \<or> new_interval > 3600000000 then (- EINVAL, s)
      else (0, upd_task t (\<lambda>k. k\<lparr>t_interval_us := new_interval\<rparr>) s))"

section \<open>The scheduler loop\<close>

text \<open>\<open>list_for_each_entry_safe\<close> reads the successor of an entry before the body runs.  \<open>None\<close> is the
list head, where the iteration ends; an entry that is no longer in the list is a poisoned node.\<close>

definition next_in :: "task_ptr \<Rightarrow> task_ptr list \<Rightarrow> task_ptr option" where
  "next_in t xs = (case dropWhile ((\<noteq>) t) xs of _ # y # _ \<Rightarrow> Some y | _ \<Rightarrow> None)"

definition first_of :: "task_ptr list \<Rightarrow> task_ptr option" where
  "first_of xs = (case xs of [] \<Rightarrow> None | x # _ \<Rightarrow> Some x)"

definition visit :: "'u callbacks \<Rightarrow> int \<Rightarrow> task_ptr \<Rightarrow> 'u timers \<Rightarrow> 'u timers" where
  "visit cb now t s =
     (if t_timeout (tasks s t) \<le> now
      then
        let s = cb (t_callback (tasks s t)) t s;
            s = upd_task t (\<lambda>k. k\<lparr>t_execution_count := t_execution_count k + 1\<rparr>) s
        in if t_auto_load (tasks s t)
           then upd_task t (\<lambda>k. k\<lparr>t_timeout := s64 (clock_us s + uint (t_interval_us k))\<rparr>) s
           else tim_task_drop t s
      else s)"

partial_function (option) loop_queue ::
  "'u callbacks \<Rightarrow> int \<Rightarrow> nat \<Rightarrow> task_ptr option \<Rightarrow> 'u timers \<Rightarrow> 'u timers option" where
  [code]: "loop_queue cb now p cur s =
     (case cur of
        None \<Rightarrow> Some s
      | Some t \<Rightarrow>
          if t \<notin> set (priority_heads s ! p) then Some (s\<lparr>fault := True\<rparr>)
          else loop_queue cb now p (next_in t (priority_heads s ! p)) (visit cb now t s))"

definition loop_priority :: "'u callbacks \<Rightarrow> int \<Rightarrow> nat \<Rightarrow> 'u timers \<Rightarrow> 'u timers option" where
  "loop_priority cb now p s = loop_queue cb now p (first_of (priority_heads s ! p)) s"

definition tim_task_loop :: "'u callbacks \<Rightarrow> 'u timers \<Rightarrow> 'u timers option" where
  "tim_task_loop cb s =
     (if \<not> tim_task_init s then Some s
      else
        let now = clock_us s
        in fold (\<lambda>p r. Option.bind r (loop_priority cb now p)) [0..<MAX_PRIORITY_LEVELS] (Some s))"

section \<open>Look-up and clean-up\<close>

definition tim_task_find_by_name :: "string option \<Rightarrow> 'u timers \<Rightarrow> task_ptr option" where
  "tim_task_find_by_name name s =
     (if name = None then None
      else List.find (\<lambda>t. t_name (tasks s t) = name) (tim_task_head s))"

definition tim_task_find_by_id :: "u32 \<Rightarrow> 'u timers \<Rightarrow> task_ptr option" where
  "tim_task_find_by_id i s = List.find (\<lambda>t. t_task_id (tasks s t) = i) (tim_task_head s)"

definition tim_task_cleanup_all :: "'u timers \<Rightarrow> 'u timers" where
  "tim_task_cleanup_all s =
     (let s = fold (\<lambda>i s. fold (\<lambda>t s. list_del_main t (list_del t s)) (priority_heads s ! i) s)
                [0..<MAX_PRIORITY_LEVELS] s
      in fold (\<lambda>t s. list_del_main t (list_del t s)) (tim_task_head s) s)"

definition earlier :: "'u timers \<Rightarrow> int \<Rightarrow> task_ptr \<Rightarrow> int \<times> task_ptr option \<Rightarrow> int \<times> task_ptr option" where
  "earlier s now t acc =
     (if t_timeout (tasks s t) < fst acc \<and> t_timeout (tasks s t) > now
      then (t_timeout (tasks s t), Some t) else acc)"

definition tim_task_get_next_task :: "'u timers \<Rightarrow> task_ptr option" where
  "tim_task_get_next_task s =
     snd (fold (\<lambda>p. fold (earlier s (clock_us s)) (priority_heads s ! p)) [0..<MAX_PRIORITY_LEVELS]
       (2 ^ 63 - 1, None))"

end
