(* ===== verification/Tim_Task_Correct.thy ===== *)
theory Tim_Task_Correct
  imports Tim_Task
begin

text \<open>
  Correctness of the timer tasks of \<^verbatim>\<open>drivers/kinetis/tim-task.c\<close>: the well-formedness of the
  intrusive lists and its preservation by every operation, the effect of one pass of the scheduler
  loop, the clean-up and the search for the next task, and the step relation of the service.
\<close>

section \<open>Well-formed timer lists\<close>

definition linked :: "'u timers \<Rightarrow> task_ptr list" where
  "linked s = concat (priority_heads s) @ tim_task_suspend_head s"

definition task_ok :: "tim_task \<Rightarrow> bool" where
  "task_ok k \<longleftrightarrow> t_list_ok k \<and> t_main_ok k \<and> t_priority k < 3
     \<and> 0 < t_interval_us k \<and> t_interval_us k \<le> 3600000000"

definition timers_wf :: "'u timers \<Rightarrow> bool" where
  "timers_wf s \<longleftrightarrow> (tim_task_init s \<longrightarrow> length (priority_heads s) = MAX_PRIORITY_LEVELS)
     \<and> (\<not> tim_task_init s \<longrightarrow> linked s = [])
     \<and> distinct (linked s) \<and> distinct (tim_task_head s) \<and> set (linked s) = set (tim_task_head s)
     \<and> 0 \<notin> set (tim_task_head s) \<and> (\<forall>t\<in>set (tim_task_head s). task_ok (tasks s t))
     \<and> (\<forall>p<length (priority_heads s). \<forall>t\<in>set (priority_heads s ! p). t_priority (tasks s t) = of_nat p)"

lemmas timer_defs = upd_task_def unlink_def list_del_def list_del_main_def list_add_tail_def list_move_tail_def

lemma linked_unlink [simp]: "linked (unlink t s) = removeAll t (linked s)"
  by (simp add: linked_def unlink_def removeAll_filter_not_eq filter_concat)

lemma unlink_fields [simp]:
  "tasks (unlink t s) = tasks s" "tim_task_head (unlink t s) = tim_task_head s"
  "tim_task_init (unlink t s) = tim_task_init s" "fault (unlink t s) = fault s"
  "ktime (unlink t s) = ktime s" "env (unlink t s) = env s"
  "priority_heads (unlink t s) = map (removeAll t) (priority_heads s)"
  by (simp_all add: unlink_def)

lemma upd_task_fields [simp]:
  "tasks (upd_task t f s) = (tasks s)(t := f (tasks s t))" "linked (upd_task t f s) = linked s"
  "tim_task_head (upd_task t f s) = tim_task_head s" "priority_heads (upd_task t f s) = priority_heads s"
  "tim_task_init (upd_task t f s) = tim_task_init s" "fault (upd_task t f s) = fault s"
  "ktime (upd_task t f s) = ktime s" "env (upd_task t f s) = env s"
  "tim_task_suspend_head (upd_task t f s) = tim_task_suspend_head s"
  by (simp_all add: upd_task_def linked_def)

lemma mset_concat_update:
  "p < length xss \<Longrightarrow> mset (concat (xss[p := xss ! p @ [t]])) = add_mset t (mset (concat xss))"
  by (induction xss arbitrary: p) (auto split: nat.split)

lemma mset_linked_add:
  "p < length (priority_heads s) \<Longrightarrow> mset (linked (list_add_tail t p s)) = add_mset t (mset (linked s))"
  by (simp add: list_add_tail_def linked_def mset_concat_update)

lemma list_add_tail_fields [simp]:
  "tasks (list_add_tail t p s) = (tasks s)(t := (tasks s t)\<lparr>t_list_ok := True\<rparr>)"
  "tim_task_head (list_add_tail t p s) = tim_task_head s"
  "priority_heads (list_add_tail t p s) = (priority_heads s)[p := priority_heads s ! p @ [t]]"
  "tim_task_init (list_add_tail t p s) = tim_task_init s" "fault (list_add_tail t p s) = fault s"
  "ktime (list_add_tail t p s) = ktime s" "env (list_add_tail t p s) = env s"
  "tim_task_suspend_head (list_add_tail t p s) = tim_task_suspend_head s"
  by (simp_all add: list_add_tail_def)

lemma distinct_mset: "mset xs = mset ys \<Longrightarrow> distinct xs = distinct ys"
  by (metis mset_eq_imp_distinct_iff)

lemma wf_unlinked_add:
  assumes p: "p < length (priority_heads s)" and t: "t \<notin> set (linked s)" and d: "distinct (linked s)"
  shows "distinct (linked (list_add_tail t p s))" "set (linked (list_add_tail t p s)) = insert t (set (linked s))"
proof -
  have m: "mset (linked (list_add_tail t p s)) = mset (t # linked s)"
    using mset_linked_add [OF p] by simp
  then show "distinct (linked (list_add_tail t p s))" using distinct_mset [OF m] t d by simp
  show "set (linked (list_add_tail t p s)) = insert t (set (linked s))"
    using mset_eq_setD [OF m] by simp
qed

lemma timers_wfD:
  assumes "timers_wf s"
  shows "tim_task_init s \<Longrightarrow> length (priority_heads s) = MAX_PRIORITY_LEVELS"
    "\<not> tim_task_init s \<Longrightarrow> linked s = []" "\<not> tim_task_init s \<Longrightarrow> tim_task_head s = []"
    "distinct (linked s)" "distinct (tim_task_head s)" "set (linked s) = set (tim_task_head s)"
    "0 \<notin> set (tim_task_head s)" "t \<in> set (tim_task_head s) \<Longrightarrow> task_ok (tasks s t)"
    "p < length (priority_heads s) \<Longrightarrow> t \<in> set (priority_heads s ! p) \<Longrightarrow> t_priority (tasks s t) = of_nat p"
  using assms by (auto simp: timers_wf_def)

lemma wf_init: "timers_wf s \<Longrightarrow> t \<in> set (tim_task_head s) \<Longrightarrow> tim_task_init s"
  by (cases "tim_task_init s") (auto simp: timers_wf_def)

lemma wf_task:
  assumes "timers_wf s" "t \<in> set (tim_task_head s)"
  shows "t \<noteq> 0" "t_list_ok (tasks s t)" "t_main_ok (tasks s t)" "t_priority (tasks s t) < 3"
    "0 < t_interval_us (tasks s t)"
proof -
  show "t \<noteq> 0" using timers_wfD(7) [OF assms(1)] assms(2) by (cases "t = 0") auto
  show "t_list_ok (tasks s t)" "t_main_ok (tasks s t)" "t_priority (tasks s t) < 3"
    "0 < t_interval_us (tasks s t)"
    using timers_wfD(8) [OF assms] by (simp_all add: task_ok_def)
qed

section \<open>Every operation keeps the lists well-formed\<close>

text \<open>Moving a linked task to the tail of the queue of its priority, after \<open>unlink\<close>.\<close>

lemma wf_requeue:
  assumes wf: "timers_wf s" and t: "t \<in> set (tim_task_head s)" and q: "q < 3"
  shows "timers_wf (list_add_tail t (unat q) (upd_task t (\<lambda>k. k\<lparr>t_priority := q\<rparr>) (unlink t s)))"
proof -
  let ?u = "upd_task t (\<lambda>k. k\<lparr>t_priority := q\<rparr>) (unlink t s)"
  have init: "tim_task_init s" by (rule wf_init [OF wf t])
  then have len: "length (priority_heads s) = MAX_PRIORITY_LEVELS" using timers_wfD(1) [OF wf] by simp
  have "unat q < unat (3::u32)" using q unfolding word_less_nat_alt .
  then have qn: "unat q < length (priority_heads ?u)" using len by simp
  have "t \<notin> set (linked ?u)" "distinct (linked ?u)"
    using timers_wfD(4) [OF wf] by (simp_all add: distinct_removeAll)
  note a = wf_unlinked_add [OF qn this]
  have "set (linked (list_add_tail t (unat q) ?u)) = set (tim_task_head s)"
    using a(2) timers_wfD(6) [OF wf] t by auto
  moreover have "t_priority (tasks (list_add_tail t (unat q) ?u) x) = of_nat p"
    if "p < length (priority_heads (list_add_tail t (unat q) ?u))"
      "x \<in> set (priority_heads (list_add_tail t (unat q) ?u) ! p)" for p x
    using that qn timers_wfD(9) [OF wf, of p x] by (auto simp: nth_list_update split: if_splits)
  ultimately show ?thesis
    using a(1) timers_wfD [OF wf] init len q t
    by (auto simp: timers_wf_def task_ok_def)
qed

lemma set_priority_eq:
  assumes wf: "timers_wf s" and t: "t \<in> set (tim_task_head s)" and q: "q < 3"
  shows "tim_task_set_priority t q s
    = (0, list_add_tail t (unat q) (upd_task t (\<lambda>k. k\<lparr>t_priority := q\<rparr>) (unlink t s)))"
proof -
  have "list_del t s = upd_task t (\<lambda>k. k\<lparr>t_list_ok := False\<rparr>) (unlink t s)"
    using wf_task(2) [OF wf t] by (simp add: list_del_def)
  moreover have "\<not> q \<ge> of_nat MAX_PRIORITY_LEVELS" using q by (simp add: not_le)
  ultimately show ?thesis
    using wf_task(1) [OF wf t] unfolding tim_task_set_priority_def Let_def
    by (simp add: upd_task_def list_add_tail_def)
qed

lemma wf_set_priority:
  assumes wf: "timers_wf s" and t: "t \<in> set (tim_task_head s)"
  shows "timers_wf (snd (tim_task_set_priority t q s)) \<and> fault (snd (tim_task_set_priority t q s)) = fault s
    \<and> tim_task_head (snd (tim_task_set_priority t q s)) = tim_task_head s"
proof (cases "q < 3")
  case True
  show ?thesis unfolding set_priority_eq [OF wf t True] using wf_requeue [OF wf t True] by simp
next
  case False
  then have "tim_task_set_priority t q s = (- EINVAL, s)"
    by (simp add: tim_task_set_priority_def not_less)
  then show ?thesis using wf by simp
qed

lemma wf_resume:
  assumes wf: "timers_wf s" and t: "t \<in> set (tim_task_head s)"
  shows "timers_wf (tim_task_resume t s)" "fault (tim_task_resume t s) = fault s"
    "tim_task_head (tim_task_resume t s) = tim_task_head s"
    "t \<in> set (priority_heads (tim_task_resume t s) ! unat (t_priority (tasks s t)))"
proof -
  let ?q = "t_priority (tasks s t)"
  note ok = wf_task(2,1,4) [OF wf t]
  have r: "tim_task_resume t s = list_add_tail t (unat ?q) (upd_task t (\<lambda>k. k\<lparr>t_priority := ?q\<rparr>) (unlink t s))"
    using ok by (simp add: tim_task_resume_def list_move_tail_def not_le upd_task_def unlink_def)
  then show "timers_wf (tim_task_resume t s)" using wf_requeue [OF wf t ok(3)] by simp
  have "unat ?q < unat (3::u32)" using ok(3) unfolding word_less_nat_alt .
  then have "unat ?q < length (priority_heads s)"
    using timers_wfD(1) [OF wf] wf_init [OF wf t] by simp
  with r show "fault (tim_task_resume t s) = fault s" "tim_task_head (tim_task_resume t s) = tim_task_head s"
    "t \<in> set (priority_heads (tim_task_resume t s) ! unat ?q)" by simp_all
qed

lemma wf_suspend:
  assumes wf: "timers_wf s" and t: "t \<in> set (tim_task_head s)"
  shows "timers_wf (tim_task_suspend t s)" "fault (tim_task_suspend t s) = fault s"
    "tim_task_head (tim_task_suspend t s) = tim_task_head s"
    "\<forall>p. t \<notin> set (concat (priority_heads (tim_task_suspend t s)))"
proof -
  note ok = wf_task(2,1) [OF wf t]
  let ?r = "tim_task_suspend t s"
  have l: "linked ?r = removeAll t (linked s) @ [t]"
    using ok by (simp add: tim_task_suspend_def Let_def linked_def unlink_def removeAll_filter_not_eq filter_concat)
  have f: "tasks ?r = tasks s" "tim_task_head ?r = tim_task_head s" "tim_task_init ?r = tim_task_init s"
    "fault ?r = fault s" "priority_heads ?r = map (removeAll t) (priority_heads s)"
    using ok by (simp_all add: tim_task_suspend_def Let_def)
  have "distinct (linked ?r)" "set (linked ?r) = set (tim_task_head s)"
    using timers_wfD(4,6) [OF wf] t by (auto simp: l distinct_removeAll)
  then show "timers_wf ?r"
    using timers_wfD [OF wf] wf_init [OF wf t] f by (auto simp: timers_wf_def)
  show "fault ?r = fault s" "tim_task_head ?r = tim_task_head s"
    "\<forall>p. t \<notin> set (concat (priority_heads ?r))" using f by auto
qed

lemma drop_eq:
  assumes wf: "timers_wf s" and t: "t \<in> set (tim_task_head s)"
  shows "tim_task_drop t s = upd_task t (\<lambda>k. k\<lparr>t_list_ok := False, t_main_ok := False\<rparr>)
     ((unlink t s)\<lparr>tim_task_head := removeAll t (tim_task_head s)\<rparr>)"
  using wf_task [OF assms] by (simp add: tim_task_drop_def list_del_def list_del_main_def upd_task_def unlink_def)

lemma wf_drop:
  assumes wf: "timers_wf s" and t: "t \<in> set (tim_task_head s)"
  shows "timers_wf (tim_task_drop t s)" "fault (tim_task_drop t s) = fault s"
    "tim_task_head (tim_task_drop t s) = removeAll t (tim_task_head s)"
    "linked (tim_task_drop t s) = removeAll t (linked s)"
proof -
  have l: "linked (x\<lparr>tim_task_head := y\<rparr>) = linked x" for x :: "'u timers" and y by (simp add: linked_def)
  show f: "fault (tim_task_drop t s) = fault s" "tim_task_head (tim_task_drop t s) = removeAll t (tim_task_head s)"
    "linked (tim_task_drop t s) = removeAll t (linked s)"
    by (simp_all add: drop_eq [OF assms] l)
  show "timers_wf (tim_task_drop t s)"
    using timers_wfD [OF wf] wf_init [OF wf t] f
    by (auto simp: timers_wf_def distinct_removeAll drop_eq [OF assms] l)
qed

lemma wf_set_interval:
  assumes wf: "timers_wf s"
  shows "timers_wf (snd (tim_task_set_interval t i s))" "fault (snd (tim_task_set_interval t i s)) = fault s"
  using wf by (auto simp: tim_task_set_interval_def timers_wf_def task_ok_def word_neq_0_conv)

text \<open>The lists once the heads are set up, as the first \<open>tim_task_add\<close> does.\<close>

definition timers_ready :: "'u timers \<Rightarrow> 'u timers" where
  "timers_ready s = (if tim_task_init s then s
     else s\<lparr>priority_heads := replicate MAX_PRIORITY_LEVELS [], tim_task_init := True\<rparr>)"

lemma wf_timers_ready:
  assumes "timers_wf s"
  shows "timers_wf (timers_ready s)"
proof (cases "tim_task_init s")
  case True
  then show ?thesis using assms by (simp add: timers_ready_def)
next
  case False
  then have "linked (timers_ready s) = []"
    using timers_wfD(2) [OF assms] by (simp add: timers_ready_def linked_def)
  moreover have "tim_task_head (timers_ready s) = []"
    using False timers_wfD(3) [OF assms] by (simp add: timers_ready_def)
  moreover have "concat (priority_heads (timers_ready s)) = []" using calculation(1) by (simp add: linked_def)
  ultimately show ?thesis using False by (auto simp: timers_wf_def timers_ready_def)
qed

lemma timers_ready_fields [simp]:
  "tasks (timers_ready s) = tasks s" "tim_task_head (timers_ready s) = tim_task_head s"
  "tim_task_init (timers_ready s)" "fault (timers_ready s) = fault s" "ktime (timers_ready s) = ktime s"
  by (simp_all add: timers_ready_def)

definition added_task :: "string option \<Rightarrow> u32 \<Rightarrow> bool \<Rightarrow> bool \<Rightarrow> nat \<Rightarrow> 'u timers \<Rightarrow> tim_task" where
  "added_task name i al sc cb s = \<lparr>t_name = name, t_timeout = s64 (clock_us s + uint i),
     t_interval_us = i, t_callback = cb, t_auto_load = al, t_sched = sc,
     t_task_id = task_id_counter s + 1, t_priority = 1, t_created_time = ktime s,
     t_execution_count = 0, t_last_execution_time = 0, t_total_execution_time = 0,
     t_list_ok = True, t_main_ok = True\<rparr>"

lemma add_fields:
  fixes s :: "'u timers" and name :: "string option" and al sc :: bool
  assumes ok: "t \<noteq> 0" "cb \<noteq> 0" "i \<noteq> 0" "i \<le> 3600000000"
  defines "r \<equiv> snd (tim_task_add t name i al sc cb s)"
  shows "tasks r = (tasks s)(t := added_task name i al sc cb s)" "tim_task_head r = tim_task_head s @ [t]"
    "priority_heads r = (priority_heads (timers_ready s))[1 := priority_heads (timers_ready s) ! 1 @ [t]]"
    "tim_task_init r" "fault r = fault s" "linked r = linked (list_add_tail t 1 (timers_ready s))"
    "task_id_counter r = task_id_counter s + 1" "ktime r = ktime s"
    "fst (tim_task_add t name i al sc cb s) = 0" "env r = env s"
  using ok leD [OF ok(4)] by (simp_all add: r_def tim_task_add_def Let_def timers_ready_def [symmetric] added_task_def
      linked_def list_add_tail_def upd_task_def) (simp_all add: timers_ready_def)

lemma wf_add:
  assumes wf: "timers_wf s" and t: "t \<notin> set (tim_task_head s)"
  shows "timers_wf (snd (tim_task_add t name i al sc cb s))" "fault (snd (tim_task_add t name i al sc cb s)) = fault s"
proof -
  let ?r = "snd (tim_task_add t name i al sc cb s)" and ?a = "timers_ready s"
  have "timers_wf ?r \<and> fault ?r = fault s"
  proof (cases "t \<noteq> 0 \<and> cb \<noteq> 0 \<and> i \<noteq> 0 \<and> i \<le> 3600000000")
    case False
    then have "?r = s" by (auto simp: tim_task_add_def)
    with wf show ?thesis by simp
  next
    case True
    then have "t \<noteq> 0" "cb \<noteq> 0" "i \<noteq> 0" "i \<le> 3600000000" by auto
    note f = add_fields [OF this, of name al sc s]
    note w = timers_wfD [OF wf_timers_ready [OF wf]]
    have len: "length (priority_heads ?a) = MAX_PRIORITY_LEVELS" using w(1) by simp
    have nt: "t \<notin> set (linked ?a)" using w(6) t by simp
    have one: "1 < length (priority_heads ?a)" using len by simp
    note a = wf_unlinked_add [OF one nt w(4)]
    have "t_priority (tasks ?r x) = of_nat p" if "p < length (priority_heads ?r)" "x \<in> set (priority_heads ?r ! p)" for p x
    proof -
      have x: "x \<in> set (priority_heads ?a ! p) \<and> x \<noteq> t \<or> (x = t \<and> p = 1)"
      proof -
        have "t \<notin> set (priority_heads ?a ! p)"
          using nt that(1) len by (auto simp: linked_def f(3))
        then show ?thesis using that len by (auto simp: f(3) nth_list_update split: if_splits)
      qed
      then show ?thesis using w(9) [of p x] that(1) by (auto simp: f(1,3) added_task_def)
    qed
    moreover have "task_ok (added_task name i al sc cb s)"
      using True by (simp add: added_task_def task_ok_def word_neq_0_conv)
    then have "\<forall>x\<in>set (tim_task_head ?r). task_ok (tasks ?r x)"
      using w(8) t by (simp add: f(1,2))
    moreover have "distinct (linked ?r)" "set (linked ?r) = set (tim_task_head ?r)"
      using a w(6) unfolding f(2,6) by simp_all
    moreover have "distinct (tim_task_head ?r)" "0 \<notin> set (tim_task_head ?r)" "length (priority_heads ?r) = MAX_PRIORITY_LEVELS"
      using w(5,7) t True len by (simp_all add: f(2,3))
    ultimately show ?thesis using f(4,5) by (simp add: timers_wf_def)
  qed
  then show "timers_wf ?r" "fault ?r = fault s" by auto
qed

section \<open>The scheduler loop\<close>

text \<open>Callbacks that use the timer only through the clock: they may change the state of their client
and let time pass, but neither the tasks nor the lists.\<close>

definition quiet :: "'u callbacks \<Rightarrow> bool" where
  "quiet cb \<longleftrightarrow> (\<forall>f t s. \<exists>e c. ktime s \<le> c \<and> cb f t s = s\<lparr>env := e, ktime := c\<rparr>)"

definition due :: "int \<Rightarrow> 'u timers \<Rightarrow> task_ptr \<Rightarrow> bool" where
  "due now s t \<longleftrightarrow> t_timeout (tasks s t) \<le> now"

lemma next_in_append: "t \<notin> set xs \<Longrightarrow> next_in t (xs @ t # ys) = first_of ys"
  by (induction xs) (auto simp: next_in_def first_of_def split: list.splits)

lemma quietE:
  assumes "quiet cb"
  obtains e c where "ktime s \<le> c" "cb f t s = s\<lparr>env := e, ktime := c\<rparr>"
  using assms unfolding quiet_def by blast

lemma timers_wf_env [simp]: "timers_wf (s\<lparr>env := e, ktime := c\<rparr>) = timers_wf s"
  by (simp add: timers_wf_def linked_def)

lemma timers_wf_upd:
  assumes "\<And>k. task_ok (f k) = task_ok k" "\<And>k. t_priority (f k) = t_priority k"
  shows "timers_wf (upd_task t f s) = timers_wf s"
  using assms by (auto simp: timers_wf_def)

text \<open>What one visit does to a linked task.\<close>

lemma ktime_to_us_mono: "a \<le> b \<Longrightarrow> ktime_to_us a \<le> ktime_to_us b"
proof -
  assume "a \<le> b"
  have "ktime_to_us x = (if 0 \<le> x then x div 1000 else - (- x div 1000))" for x
    by (auto simp: ktime_to_us_def cdiv_def sgn_if)
  then show ?thesis using \<open>a \<le> b\<close> by (auto simp: zdiv_mono1) (smt (verit) pos_imp_zdiv_nonneg_iff)
qed

lemma visit_not_due: "\<not> due now s t \<Longrightarrow> visit cb now t s = s"
  by (simp add: visit_def due_def)

lemma visit_due:
  assumes q: "quiet cb" and wf: "timers_wf s" and t: "t \<in> set (tim_task_head s)" and d: "due now s t"
  obtains s' where "timers_wf s'" "clock_us s \<le> clock_us s'" "fault s' = fault s"
    "tasks s' = (tasks s)(t := (tasks s t)\<lparr>t_execution_count := t_execution_count (tasks s t) + 1\<rparr>)"
    "priority_heads s' = priority_heads s" "tim_task_head s' = tim_task_head s"
    "tim_task_init s' = tim_task_init s"
    "env s' = env (cb (t_callback (tasks s t)) t s)"
    "visit cb now t s = (if t_auto_load (tasks s t)
       then upd_task t (\<lambda>k. k\<lparr>t_timeout := s64 (clock_us s' + uint (t_interval_us k))\<rparr>) s'
       else tim_task_drop t s')"
proof -
  obtain e c where ec: "ktime s \<le> c" "cb (t_callback (tasks s t)) t s = s\<lparr>env := e, ktime := c\<rparr>"
    using quietE [OF q] by metis
  let ?s = "upd_task t (\<lambda>k. k\<lparr>t_execution_count := t_execution_count k + 1\<rparr>) (s\<lparr>env := e, ktime := c\<rparr>)"
  have "timers_wf ?s" using wf by (subst timers_wf_upd) (simp_all add: task_ok_def)
  moreover have "visit cb now t s = (if t_auto_load (tasks s t)
       then upd_task t (\<lambda>k. k\<lparr>t_timeout := s64 (clock_us ?s + uint (t_interval_us k))\<rparr>) ?s
       else tim_task_drop t ?s)"
    using d ec(2) by (simp add: visit_def due_def Let_def)
  ultimately show thesis using ec ktime_to_us_mono [OF ec(1)] by (intro that [of ?s]) simp_all
qed

lemma visit_effect:
  assumes q: "quiet cb" and wf: "timers_wf s" and t: "t \<in> set (tim_task_head s)"
  shows "timers_wf (visit cb now t s)" "fault (visit cb now t s) = fault s"
    "clock_us s \<le> clock_us (visit cb now t s)" "tim_task_init (visit cb now t s) = tim_task_init s"
    "\<And>x. x \<noteq> t \<Longrightarrow> tasks (visit cb now t s) x = tasks s x"
    "priority_heads (visit cb now t s) = (if due now s t \<and> \<not> t_auto_load (tasks s t)
       then map (removeAll t) (priority_heads s) else priority_heads s)"
    "tim_task_head (visit cb now t s) = (if due now s t \<and> \<not> t_auto_load (tasks s t)
       then removeAll t (tim_task_head s) else tim_task_head s)"
    "t_execution_count (tasks (visit cb now t s) t)
       = t_execution_count (tasks s t) + (if due now s t then 1 else 0)"
    "env (visit cb now t s) = (if due now s t then env (cb (t_callback (tasks s t)) t s) else env s)"
    "due now s t \<Longrightarrow> t_auto_load (tasks s t) \<Longrightarrow> t_timeout (tasks (visit cb now t s) t)
       = s64 (clock_us (visit cb now t s) + uint (t_interval_us (tasks s t)))"
    "t_auto_load (tasks (visit cb now t s) t) = t_auto_load (tasks s t)"
proof -
  let ?v = "visit cb now t s"
  have "timers_wf ?v \<and> fault ?v = fault s \<and> clock_us s \<le> clock_us ?v \<and> tim_task_init ?v = tim_task_init s
    \<and> (\<forall>x. x \<noteq> t \<longrightarrow> tasks ?v x = tasks s x)
    \<and> priority_heads ?v = (if due now s t \<and> \<not> t_auto_load (tasks s t)
       then map (removeAll t) (priority_heads s) else priority_heads s)
    \<and> tim_task_head ?v = (if due now s t \<and> \<not> t_auto_load (tasks s t)
       then removeAll t (tim_task_head s) else tim_task_head s)
    \<and> t_execution_count (tasks ?v t) = t_execution_count (tasks s t) + (if due now s t then 1 else 0)
    \<and> env ?v = (if due now s t then env (cb (t_callback (tasks s t)) t s) else env s)
    \<and> (due now s t \<longrightarrow> t_auto_load (tasks s t) \<longrightarrow> t_timeout (tasks ?v t)
       = s64 (clock_us ?v + uint (t_interval_us (tasks s t))))
    \<and> t_auto_load (tasks ?v t) = t_auto_load (tasks s t)"
  proof (cases "due now s t")
    case False
    then show ?thesis using visit_not_due [OF False] wf by simp
  next
    case True
    obtain s' where s': "timers_wf s'" "clock_us s \<le> clock_us s'" "fault s' = fault s"
      "tasks s' = (tasks s)(t := (tasks s t)\<lparr>t_execution_count := t_execution_count (tasks s t) + 1\<rparr>)"
      "priority_heads s' = priority_heads s" "tim_task_head s' = tim_task_head s"
      "tim_task_init s' = tim_task_init s" "env s' = env (cb (t_callback (tasks s t)) t s)"
      "?v = (if t_auto_load (tasks s t)
         then upd_task t (\<lambda>k. k\<lparr>t_timeout := s64 (clock_us s' + uint (t_interval_us k))\<rparr>) s'
         else tim_task_drop t s')"
      using visit_due [OF q wf t True] by blast
    show ?thesis
    proof (cases "t_auto_load (tasks s t)")
      case al: True
      then have "timers_wf ?v" unfolding s'(9) if_P [OF al]
        using s'(1) by (subst timers_wf_upd) (simp_all add: task_ok_def)
      with al True s' show ?thesis by simp
    next
      case al: False
      have t': "t \<in> set (tim_task_head s')" using t s'(6) by simp
      have v: "?v = tim_task_drop t s'" using s'(9) al by simp
      note dr = wf_drop [OF s'(1) t'] drop_eq [OF s'(1) t']
      show ?thesis using al True s'(2-8) dr(1-3) unfolding v by (simp add: dr(5))
    qed
  qed
  then show "timers_wf ?v" "fault ?v = fault s" "clock_us s \<le> clock_us ?v" "tim_task_init ?v = tim_task_init s"
    "\<And>x. x \<noteq> t \<Longrightarrow> tasks ?v x = tasks s x"
    "priority_heads ?v = (if due now s t \<and> \<not> t_auto_load (tasks s t)
       then map (removeAll t) (priority_heads s) else priority_heads s)"
    "tim_task_head ?v = (if due now s t \<and> \<not> t_auto_load (tasks s t)
       then removeAll t (tim_task_head s) else tim_task_head s)"
    "t_execution_count (tasks ?v t) = t_execution_count (tasks s t) + (if due now s t then 1 else 0)"
    "env ?v = (if due now s t then env (cb (t_callback (tasks s t)) t s) else env s)"
    "due now s t \<Longrightarrow> t_auto_load (tasks s t) \<Longrightarrow> t_timeout (tasks ?v t)
       = s64 (clock_us ?v + uint (t_interval_us (tasks s t)))"
    "t_auto_load (tasks ?v t) = t_auto_load (tasks s t)" by blast+
qed

lemma wf_queue:
  assumes wf: "timers_wf s" and p: "p < length (priority_heads s)"
  shows "distinct (priority_heads s ! p)" "set (priority_heads s ! p) \<subseteq> set (tim_task_head s)"
proof -
  have "priority_heads s ! p \<in> set (priority_heads s)" using p by simp
  then show "distinct (priority_heads s ! p)" "set (priority_heads s ! p) \<subseteq> set (tim_task_head s)"
    using timers_wfD(4,6) [OF wf] by (auto simp: linked_def distinct_concat_iff)
qed

lemma loop_queue_fold:
  assumes q: "quiet cb" and "timers_wf s" "p < length (priority_heads s)" "priority_heads s ! p = pre @ suf"
  shows "loop_queue cb now p (first_of suf) s = Some (fold (visit cb now) suf s)"
  using assms(2-)
proof (induction suf arbitrary: s pre)
  case Nil
  then show ?case by (subst loop_queue.simps) (simp add: first_of_def)
next
  case (Cons t suf)
  note wq = wf_queue [OF Cons.prems(1,2)]
  have d: "t \<notin> set pre" "t \<notin> set suf" "t \<in> set (tim_task_head s)"
    using wq Cons.prems(3) by auto
  note v = visit_effect [OF q Cons.prems(1) d(3), where now = now]
  have "priority_heads (visit cb now t s) ! p = pre @ suf \<or> priority_heads (visit cb now t s) ! p = (pre @ [t]) @ suf"
    using v(6) Cons.prems(2,3) d(1,2) by (auto simp: removeAll_id)
  moreover have "p < length (priority_heads (visit cb now t s))" using v(6) Cons.prems(2) by simp
  ultimately have "loop_queue cb now p (first_of suf) (visit cb now t s) = Some (fold (visit cb now) suf (visit cb now t s))"
    using Cons.IH [OF v(1)] by blast
  moreover have "next_in t (priority_heads s ! p) = first_of suf"
    unfolding Cons.prems(3) by (rule next_in_append [OF d(1)])
  ultimately show ?case
    using Cons.prems(3) by (subst loop_queue.simps) (simp add: first_of_def)
qed

definition expired :: "int \<Rightarrow> 'u timers \<Rightarrow> task_ptr \<Rightarrow> bool" where
  "expired now s t \<longleftrightarrow> due now s t \<and> \<not> t_auto_load (tasks s t)"

text \<open>The effect of visiting a list of tasks, each once.\<close>

definition visited :: "int \<Rightarrow> task_ptr set \<Rightarrow> 'u timers \<Rightarrow> 'u timers \<Rightarrow> bool" where
  "visited now X s v \<longleftrightarrow> timers_wf v \<and> fault v = fault s \<and> clock_us s \<le> clock_us v
     \<and> tim_task_init v = tim_task_init s
     \<and> (\<forall>x. x \<notin> X \<longrightarrow> tasks v x = tasks s x)
     \<and> priority_heads v = map (filter (\<lambda>x. \<not> (x \<in> X \<and> expired now s x))) (priority_heads s)
     \<and> tim_task_head v = filter (\<lambda>x. \<not> (x \<in> X \<and> expired now s x)) (tim_task_head s)
     \<and> (\<forall>x\<in>X. t_execution_count (tasks v x) = t_execution_count (tasks s x) + (if due now s x then 1 else 0))
     \<and> (\<forall>x\<in>X. due now s x \<longrightarrow> t_auto_load (tasks s x) \<longrightarrow>
          (\<exists>c. clock_us s \<le> c \<and> t_timeout (tasks v x) = s64 (c + uint (t_interval_us (tasks s x)))))"

lemma visited_none: "timers_wf s \<Longrightarrow> visited now {} s s"
  by (simp add: visited_def map_idI [symmetric])

lemma removeAll_filter: "removeAll t xs = filter (\<lambda>x. x \<noteq> t) xs"
  by (induction xs) auto

lemma visited_step:
  assumes q: "quiet cb" and v: "visited now X s v" and t: "t \<notin> X" "t \<in> set (tim_task_head s)"
  shows "visited now (insert t X) s (visit cb now t v)"
proof -
  have same: "tasks v t = tasks s t" using v t(1) by (simp add: visited_def)
  then have d: "due now v t = due now s t" "t_auto_load (tasks v t) = t_auto_load (tasks s t)"
    by (simp_all add: due_def)
  have tv: "t \<in> set (tim_task_head v)" "timers_wf v" using v t by (simp_all add: visited_def)
  note e = visit_effect [OF q tv(2,1), where now = now, unfolded d]
  let ?w = "visit cb now t v"
  have f: "filter (\<lambda>x. \<not> (x \<in> insert t X \<and> expired now s x)) xs
      = (if expired now s t then removeAll t (filter (\<lambda>x. \<not> (x \<in> X \<and> expired now s x)) xs)
         else filter (\<lambda>x. \<not> (x \<in> X \<and> expired now s x)) xs)" for xs
    by (auto simp: removeAll_filter intro!: filter_cong)
  have heads: "priority_heads ?w = map (filter (\<lambda>x. \<not> (x \<in> insert t X \<and> expired now s x))) (priority_heads s)"
    "tim_task_head ?w = filter (\<lambda>x. \<not> (x \<in> insert t X \<and> expired now s x)) (tim_task_head s)"
    unfolding f e(6,7) using v by (auto simp: visited_def expired_def)
  have "t_execution_count (tasks ?w x) = t_execution_count (tasks s x) + (if due now s x then 1 else 0)"
    if "x \<in> insert t X" for x
  proof (cases "x = t")
    case True
    then show ?thesis using e(8) same by simp
  next
    case False
    then show ?thesis using that v e(5) [OF False] by (simp add: visited_def)
  qed
  moreover have "\<exists>c. clock_us s \<le> c \<and> t_timeout (tasks ?w x) = s64 (c + uint (t_interval_us (tasks s x)))"
    if x: "x \<in> insert t X" "due now s x" "t_auto_load (tasks s x)" for x
  proof (cases "x = t")
    case True
    then have "t_timeout (tasks ?w x) = s64 (clock_us ?w + uint (t_interval_us (tasks s x)))"
      using e(10) x same by simp
    moreover have "clock_us s \<le> clock_us ?w" using v e(3) by (simp add: visited_def)
    ultimately show ?thesis by blast
  next
    case False
    then show ?thesis using x v e(5) [OF False] by (auto simp: visited_def)
  qed
  ultimately show ?thesis
    using v e(1-5) heads by (simp add: visited_def)
qed

lemma visited_fold:
  assumes "quiet cb" "visited now X s v" "distinct xs" "set xs \<inter> X = {}" "set xs \<subseteq> set (tim_task_head s)"
  shows "visited now (X \<union> set xs) s (fold (visit cb now) xs v)"
  using assms(2-)
proof (induction xs arbitrary: X v)
  case Nil
  then show ?case by simp
next
  case (Cons t xs)
  then have "visited now (insert t X) s (visit cb now t v)"
    using visited_step [OF assms(1)] by auto
  from Cons.IH [OF this] Cons.prems show ?case by auto
qed

lemma visited_queue:
  assumes "visited now X s v" "set (priority_heads s ! p) \<inter> X = {}" "p < length (priority_heads s)"
  shows "priority_heads v ! p = priority_heads s ! p"
proof -
  have "priority_heads v ! p = filter (\<lambda>x. \<not> (x \<in> X \<and> expired now s x)) (priority_heads s ! p)"
    using assms(1,3) by (simp add: visited_def)
  also have "\<dots> = priority_heads s ! p" using assms(2) by (intro filter_True) auto
  finally show ?thesis .
qed

lemma loop_priorities:
  assumes q: "quiet cb" and wf: "timers_wf s" and n: "n \<le> length (priority_heads s)"
  defines "done \<equiv> concat (take n (priority_heads s))"
  shows "fold (\<lambda>p r. Option.bind r (loop_priority cb now p)) [0..<n] (Some s)
      = Some (fold (visit cb now) done s)
    \<and> visited now (set done) s (fold (visit cb now) done s)"
  using n unfolding done_def
proof (induction n)
  case 0
  then show ?case using visited_none [OF wf] by simp
next
  case (Suc n)
  let ?c = "\<lambda>n. concat (take n (priority_heads s))" and ?x = "priority_heads s ! n"
  let ?v = "fold (visit cb now) (?c n) s"
  have tk: "take (Suc n) (priority_heads s) = take n (priority_heads s) @ [?x]"
    using Suc.prems by (simp add: take_Suc_conv_app_nth)
  have "distinct (concat (take (Suc n) (priority_heads s) @ drop (Suc n) (priority_heads s)))"
    using timers_wfD(4) [OF wf] unfolding append_take_drop_id linked_def by simp
  then have "distinct (?c (Suc n))" unfolding concat_append distinct_append by blast
  then have dj: "set ?x \<inter> set (?c n) = {}" "distinct ?x" by (auto simp: tk)
  have v: "visited now (set (?c n)) s ?v"
    and l: "fold (\<lambda>p r. Option.bind r (loop_priority cb now p)) [0..<n] (Some s) = Some ?v"
    using Suc by auto
  have "priority_heads ?v ! n = ?x" using visited_queue [OF v dj(1)] Suc.prems by simp
  moreover have "timers_wf ?v" "n < length (priority_heads ?v)"
    using v Suc.prems by (simp_all add: visited_def)
  ultimately have "loop_priority cb now n ?v = Some (fold (visit cb now) ?x ?v)"
    using loop_queue_fold [OF q, of ?v n "[]" ?x now] by (simp add: loop_priority_def)
  moreover have "visited now (set (?c n) \<union> set ?x) s (fold (visit cb now) ?x ?v)"
    using visited_fold [OF q v dj(2,1)] wf_queue(2) [OF wf] Suc.prems by auto
  ultimately show ?case using l by (simp add: tk)
qed

lemma loop_visits:
  assumes q: "quiet cb" and wf: "timers_wf s" and i: "tim_task_init s"
  shows "tim_task_loop cb s = Some (fold (visit cb (clock_us s)) (concat (priority_heads s)) s)"
    "visited (clock_us s) (set (concat (priority_heads s))) s
       (fold (visit cb (clock_us s)) (concat (priority_heads s)) s)"
proof -
  have len: "length (priority_heads s) = MAX_PRIORITY_LEVELS" using timers_wfD(1) [OF wf i] .
  from loop_priorities [OF q wf, of MAX_PRIORITY_LEVELS "clock_us s"]
  show "tim_task_loop cb s = Some (fold (visit cb (clock_us s)) (concat (priority_heads s)) s)"
    "visited (clock_us s) (set (concat (priority_heads s))) s
       (fold (visit cb (clock_us s)) (concat (priority_heads s)) s)"
    using i len by (simp_all add: tim_task_loop_def del: upt_Suc upt_rec_numeral)
qed

text \<open>The order of the callbacks, seen by callbacks that write a log.\<close>

definition logging :: "task_ptr list callbacks" where
  "logging f t s = s\<lparr>env := env s @ [t]\<rparr>"

lemma logging_quiet: "quiet logging"
proof -
  have "\<exists>e c. ktime s \<le> c \<and> logging f t s = s\<lparr>env := e, ktime := c\<rparr>" for f t and s :: "task_ptr list timers"
    by (rule exI [of _ "env s @ [t]"], rule exI [of _ "ktime s"]) (simp add: logging_def)
  then show ?thesis by (simp add: quiet_def)
qed

lemma logging_order:
  assumes "visited now X s v" "distinct xs" "set xs \<inter> X = {}" "set xs \<subseteq> set (tim_task_head s)"
  shows "env (fold (visit logging now) xs v) = env v @ filter (due now s) xs"
  using assms
proof (induction xs arbitrary: X v)
  case Nil
  then show ?case by simp
next
  case (Cons t xs)
  have v: "visited now (insert t X) s (visit logging now t v)"
    using visited_step [OF logging_quiet Cons.prems(1)] Cons.prems by auto
  have "tasks v t = tasks s t" "timers_wf v" "t \<in> set (tim_task_head v)"
    using Cons.prems by (auto simp: visited_def)
  then have "env (visit logging now t v) = env v @ (if due now s t then [t] else [])"
    using visit_effect(9) [OF logging_quiet] by (simp add: logging_def due_def)
  then show ?case using Cons.IH [OF v] Cons.prems by auto
qed

text \<open>Callbacks with any effect on the state of their clients and on the clock: \<open>g\<close> gives the effect of
the function \<open>f\<close> called with the task \<open>t\<close>, and never turns the clock back.\<close>

type_synonym 'u effect = "nat \<Rightarrow> task_ptr \<Rightarrow> 'u \<times> int \<Rightarrow> 'u \<times> int"

definition acting :: "'u effect \<Rightarrow> 'u callbacks" where
  "acting g f t s = (let (e, c) = g f t (env s, ktime s) in s\<lparr>env := e, ktime := c\<rparr>)"

definition forward :: "'u effect \<Rightarrow> bool" where
  "forward g \<longleftrightarrow> (\<forall>f t e c. c \<le> snd (g f t (e, c)))"

definition calls :: "'u effect \<Rightarrow> 'u timers \<Rightarrow> task_ptr list \<Rightarrow> 'u \<times> int \<Rightarrow> 'u \<times> int" where
  "calls g s = fold (\<lambda>t. g (t_callback (tasks s t)) t)"

lemma acting_quiet:
  assumes "forward g"
  shows "quiet (acting g)"
proof -
  have "ktime s \<le> snd (g f t (env s, ktime s))
      \<and> acting g f t s = s\<lparr>env := fst (g f t (env s, ktime s)), ktime := snd (g f t (env s, ktime s))\<rparr>" for f t s
    using assms by (simp add: forward_def acting_def split_beta)
  then show ?thesis unfolding quiet_def by blast
qed

lemma visit_clock:
  "ktime (visit cb now t s) = (if due now s t then ktime (cb (t_callback (tasks s t)) t s) else ktime s)"
  by (simp add: visit_def due_def Let_def tim_task_drop_def list_del_def list_del_main_def unlink_def upd_task_def)

lemma fold_visit_kept:
  assumes "quiet cb" "visited now X s v" "distinct xs" "set xs \<inter> X = {}" "set xs \<subseteq> set (tim_task_head s)"
    and "x \<in> set xs \<Longrightarrow> \<not> due now s x"
  shows "tasks (fold (visit cb now) xs v) x = tasks v x"
  using assms(2-)
proof (induction xs arbitrary: X v)
  case Nil
  then show ?case by simp
next
  case (Cons t xs)
  have vis: "visited now (insert t X) s (visit cb now t v)"
    using visited_step [OF assms(1) Cons.prems(1)] Cons.prems(2-4) by auto
  have v: "timers_wf v" "t \<in> set (tim_task_head v)" "tasks v t = tasks s t"
    using Cons.prems(1-4) by (auto simp: visited_def)
  have "tasks (visit cb now t v) x = tasks v x"
  proof (cases "x = t")
    case True
    then have "\<not> due now v t" using Cons.prems(5) v(3) by (simp add: due_def)
    then show ?thesis by (simp add: visit_not_due)
  next
    case False
    then show ?thesis by (rule visit_effect(5) [OF assms(1) v(1,2)])
  qed
  then show ?case using Cons.IH [OF vis] Cons.prems(2-5) by simp
qed

lemma acting_calls:
  assumes "forward g" "visited now X s v" "distinct xs" "set xs \<inter> X = {}" "set xs \<subseteq> set (tim_task_head s)"
  defines "w \<equiv> fold (visit (acting g) now) xs v" and "ds \<equiv> filter (due now s) xs"
  shows "(env w, ktime w) = calls g s ds (env v, ktime v)
    \<and> (\<forall>i<length ds. t_auto_load (tasks s (ds ! i)) \<longrightarrow> t_timeout (tasks w (ds ! i))
         = s64 (ktime_to_us (snd (calls g s (take (Suc i) ds) (env v, ktime v))) + uint (t_interval_us (tasks s (ds ! i)))))"
  using assms(2-5) unfolding w_def ds_def
proof (induction xs arbitrary: X v)
  case Nil
  then show ?case by (simp add: calls_def)
next
  case (Cons t xs)
  let ?v = "visit (acting g) now t v"
  have q: "quiet (acting g)" by (rule acting_quiet [OF assms(1)])
  have v: "visited now (insert t X) s ?v" using visited_step [OF q Cons.prems(1)] Cons.prems by auto
  have same: "tasks v t = tasks s t" "timers_wf v" "t \<in> set (tim_task_head v)"
    using Cons.prems by (auto simp: visited_def)
  note IH = Cons.IH [OF v]
  have keep: "tasks (fold (visit (acting g) now) xs ?v) t = tasks ?v t"
    using fold_visit_kept [OF q v, of xs t] Cons.prems by auto
  note e = visit_effect [OF q same(2,3), where now = now]
  show ?case
  proof (cases "due now s t")
    case False
    then have "?v = v" using same(1) by (intro visit_not_due) (simp add: due_def)
    then show ?thesis using IH Cons.prems False by simp
  next
    case True
    then have d: "due now v t" using same(1) by (simp add: due_def)
    have ev: "(env ?v, ktime ?v) = g (t_callback (tasks s t)) t (env v, ktime v)"
      using e(9) visit_clock [of "acting g" now t v] d same(1) by (simp add: acting_def split_beta)
    have kt: "snd (g (t_callback (tasks s t)) t (env v, ktime v)) = ktime ?v" by (simp flip: ev)
    have "t_timeout (tasks ?v t) = s64 (ktime_to_us (ktime ?v) + uint (t_interval_us (tasks s t)))"
      if "t_auto_load (tasks s t)"
      using e(10) d same(1) that by simp
    then show ?thesis
      using IH Cons.prems True keep unfolding ev
      by (auto simp: calls_def less_Suc_eq_0_disj kt)
  qed
qed

section \<open>Clean-up and the next task\<close>

lemma cleanup_fold:
  assumes "timers_wf s" "distinct xs" "set xs \<subseteq> set (tim_task_head s)"
  defines "r \<equiv> fold (\<lambda>t s. list_del_main t (list_del t s)) xs s"
  shows "timers_wf r \<and> fault r = fault s \<and> linked r = filter (\<lambda>x. x \<notin> set xs) (linked s)
    \<and> tim_task_head r = filter (\<lambda>x. x \<notin> set xs) (tim_task_head s) \<and> tim_task_init r = tim_task_init s
    \<and> priority_heads r = map (filter (\<lambda>x. x \<notin> set xs)) (priority_heads s)"
  using assms(1-3) unfolding r_def
proof (induction xs arbitrary: s)
  case Nil
  then show ?case by (simp add: map_idI [symmetric])
next
  case (Cons t xs)
  then have t: "t \<in> set (tim_task_head s)" by simp
  note w = wf_drop [OF Cons.prems(1) t] drop_eq [OF Cons.prems(1) t]
  have d: "list_del_main t (list_del t s) = tim_task_drop t s"
    using wf_task(1) [OF Cons.prems(1) t] by (simp add: tim_task_drop_def)
  have "priority_heads (tim_task_drop t s) = map (removeAll t) (priority_heads s)"
    "tim_task_init (tim_task_drop t s) = tim_task_init s" unfolding w(5) by simp_all
  moreover have "set xs \<subseteq> set (tim_task_head (tim_task_drop t s))" "distinct xs" using Cons.prems w(3) by auto
  ultimately show ?case
    using Cons.IH [OF w(1)] w(2-4) d by (simp add: removeAll_filter conj_commute)
qed

definition picks_earliest :: "'u timers \<Rightarrow> int \<Rightarrow> task_ptr list \<Rightarrow> int \<times> task_ptr option \<Rightarrow> int \<times> task_ptr option \<Rightarrow> bool" where
  "picks_earliest s now xs acc r \<longleftrightarrow> fst r \<le> fst acc
     \<and> (\<forall>t\<in>set xs. now < t_timeout (tasks s t) \<longrightarrow> fst r \<le> t_timeout (tasks s t))
     \<and> (r = acc \<or> (\<exists>t\<in>set xs. r = (t_timeout (tasks s t), Some t) \<and> now < t_timeout (tasks s t)
          \<and> t_timeout (tasks s t) < fst acc))"

lemma earlier_fold: "picks_earliest s now xs acc (fold (earlier s now) xs acc)"
proof (induction xs arbitrary: acc)
  case Nil
  then show ?case by (simp add: picks_earliest_def)
next
  case (Cons t xs)
  show ?case
  proof (cases "t_timeout (tasks s t) < fst acc \<and> t_timeout (tasks s t) > now")
    case True
    then show ?thesis
      using Cons.IH [of "(t_timeout (tasks s t), Some t)"] by (auto simp: picks_earliest_def earlier_def)
  next
    case False
    then show ?thesis using Cons.IH [of acc] by (auto simp: picks_earliest_def earlier_def)
  qed
qed

lemma fold_concat: "fold f (concat xss) a = fold (fold f) xss a"
  by (induction xss arbitrary: a) auto

lemma next_task_fold:
  "fold (\<lambda>p. fold (earlier s now) (priority_heads s ! p)) [0..<length (priority_heads s)] acc
   = fold (earlier s now) (concat (priority_heads s)) acc"
proof -
  have "fold (\<lambda>p. fold (earlier s now) (priority_heads s ! p)) [0..<length (priority_heads s)] acc
      = fold (fold (earlier s now)) (map ((!) (priority_heads s)) [0..<length (priority_heads s)]) acc"
    by (simp only: fold_map o_def)
  then show ?thesis by (simp only: map_nth fold_concat)
qed

lemma filter_disjoint: "set xs \<inter> X = {} \<Longrightarrow> filter (\<lambda>x. x \<notin> X) xs = xs"
  by (intro filter_True) auto

definition cleaned :: "task_ptr set \<Rightarrow> 'u timers \<Rightarrow> 'u timers \<Rightarrow> bool" where
  "cleaned X s r \<longleftrightarrow> timers_wf r \<and> fault r = fault s \<and> linked r = filter (\<lambda>x. x \<notin> X) (linked s)
    \<and> tim_task_head r = filter (\<lambda>x. x \<notin> X) (tim_task_head s) \<and> tim_task_init r = tim_task_init s
    \<and> priority_heads r = map (filter (\<lambda>x. x \<notin> X)) (priority_heads s)"

lemma cleaned_fold:
  assumes "cleaned X s r" "distinct xs" "set xs \<subseteq> set (tim_task_head r)"
  shows "cleaned (X \<union> set xs) s (fold (\<lambda>t s. list_del_main t (list_del t s)) xs r)"
proof -
  have "timers_wf r" using assms(1) by (simp add: cleaned_def)
  from cleanup_fold [OF this assms(2,3)] show ?thesis
    using assms(1) by (auto simp: cleaned_def intro!: filter_cong)
qed

lemma cleanup_queues:
  assumes wf: "timers_wf s" and n: "n \<le> length (priority_heads s)"
  shows "cleaned (set (concat (take n (priority_heads s)))) s
    (fold (\<lambda>i s. fold (\<lambda>t s. list_del_main t (list_del t s)) (priority_heads s ! i) s) [0..<n] s)"
  using n
proof (induction n)
  case 0
  then show ?case using wf by (simp add: cleaned_def map_idI [symmetric])
next
  case (Suc n)
  let ?X = "set (concat (take n (priority_heads s)))" and ?x = "priority_heads s ! n"
  let ?r = "fold (\<lambda>i s. fold (\<lambda>t s. list_del_main t (list_del t s)) (priority_heads s ! i) s) [0..<n] s"
  have c: "cleaned ?X s ?r" using Suc by simp
  have "distinct (concat (take n (priority_heads s) @ ?x # drop (Suc n) (priority_heads s)))"
    using timers_wfD(4) [OF wf] Suc.prems id_take_nth_drop [of n "priority_heads s"] by (simp add: linked_def)
  then have dj: "set ?x \<inter> ?X = {}" "distinct ?x" by (simp_all only: concat_append distinct_append concat.simps) auto
  have rn: "priority_heads ?r ! n = ?x"
    using c Suc.prems filter_disjoint [OF dj(1)] by (simp add: cleaned_def)
  have "set ?x \<subseteq> set (tim_task_head ?r)"
    using wf_queue(2) [OF wf, of n] Suc.prems dj(1) c by (auto simp: cleaned_def)
  from cleaned_fold [OF c dj(2) this] show ?case
    using Suc.prems rn by (simp add: take_Suc_conv_app_nth)
qed

lemma cleanup_all_empties:
  assumes wf: "timers_wf s" and i: "tim_task_init s"
  shows "cleaned (set (tim_task_head s)) s (tim_task_cleanup_all s)"
proof -
  have len: "length (priority_heads s) = MAX_PRIORITY_LEVELS" by (rule timers_wfD(1) [OF wf i])
  let ?X = "set (concat (priority_heads s))"
  let ?r = "fold (\<lambda>i s. fold (\<lambda>t s. list_del_main t (list_del t s)) (priority_heads s ! i) s) [0..<MAX_PRIORITY_LEVELS] s"
  have c: "cleaned ?X s ?r" using cleanup_queues [OF wf, of MAX_PRIORITY_LEVELS] len by (simp del: upt_rec_numeral)
  then have "timers_wf ?r" unfolding cleaned_def by blast
  from cleaned_fold [OF c timers_wfD(5) [OF this]] have "cleaned (?X \<union> set (tim_task_head ?r)) s (tim_task_cleanup_all s)"
    by (simp add: tim_task_cleanup_all_def Let_def)
  moreover have "?X \<union> set (tim_task_head ?r) = set (tim_task_head s)"
    using c timers_wfD(6) [OF wf] by (auto simp: cleaned_def linked_def)
  ultimately show ?thesis by simp
qed

section \<open>The steps of the timer service\<close>

text \<open>What the firmware does with the timers: a task is added only while it is not linked, and
dropped, suspended, resumed or moved only while it is.\<close>

inductive timer_step :: "'u callbacks \<Rightarrow> 'u timers \<Rightarrow> 'u timers \<Rightarrow> bool" for cb where
  add: "t \<notin> set (tim_task_head s) \<Longrightarrow> timer_step cb s (snd (tim_task_add t name i al sc f s))"
| drop: "t \<in> set (tim_task_head s) \<Longrightarrow> timer_step cb s (tim_task_drop t s)"
| drop_null: "timer_step cb s (tim_task_drop 0 s)"
| suspend: "t \<in> set (tim_task_head s) \<Longrightarrow> timer_step cb s (tim_task_suspend t s)"
| resume: "t \<in> set (tim_task_head s) \<Longrightarrow> timer_step cb s (tim_task_resume t s)"
| set_priority: "t \<in> set (tim_task_head s) \<Longrightarrow> timer_step cb s (snd (tim_task_set_priority t q s))"
| set_interval: "timer_step cb s (snd (tim_task_set_interval t i s))"
| cleanup: "tim_task_init s \<Longrightarrow> timer_step cb s (tim_task_cleanup_all s)"
| loop: "tim_task_loop cb s = Some s' \<Longrightarrow> timer_step cb s s'"
| tick: "ktime s \<le> c \<Longrightarrow> timer_step cb s (s\<lparr>ktime := c\<rparr>)"

lemma timer_step_wf:
  assumes "timer_step cb s s'" "quiet cb" "timers_wf s"
  shows "timers_wf s' \<and> fault s' = fault s"
  using assms
proof (induction rule: timer_step.induct)
  case (loop s s')
  show ?case
  proof (cases "tim_task_init s")
    case True
    then show ?thesis using loop_visits [OF loop(2,3)] loop(1) by (simp add: visited_def)
  next
    case False
    then show ?thesis using loop by (simp add: tim_task_loop_def)
  qed
next
  case (cleanup s)
  then show ?case using cleanup_all_empties by (auto simp: cleaned_def)
next
  case (tick s c)
  then show ?case by (simp add: timers_wf_def linked_def)
next
  case (drop_null s)
  then show ?case by (simp add: tim_task_drop_def)
next
  case (add t s name i al sc f)
  then show ?case using wf_add [of s t name i al sc f] by simp
next
  case (drop t s)
  then show ?case using wf_drop [of s t] by simp
next
  case (suspend t s)
  then show ?case using wf_suspend [of s t] by simp
next
  case (resume t s)
  then show ?case using wf_resume [of s t] by simp
next
  case (set_priority t s q)
  then show ?case using wf_set_priority [of s t q] by simp
next
  case (set_interval s t i)
  then show ?case using wf_set_interval [of s t i] by simp
qed

lemma timer_steps_wf:
  assumes "(timer_step cb)\<^sup>*\<^sup>* s s'" "quiet cb" "timers_wf s"
  shows "timers_wf s' \<and> fault s' = fault s"
  using assms(1)
proof (induction rule: rtranclp_induct)
  case base
  then show ?case using assms(3) by simp
next
  case (step y z)
  then show ?case using timer_step_wf [OF step(2) assms(2)] by simp
qed

definition timers_boot :: "'u \<Rightarrow> 'u timers" where
  "timers_boot e = \<lparr>tasks = (\<lambda>_. \<lparr>t_name = None, t_timeout = 0, t_interval_us = 0, t_callback = 0,
     t_auto_load = False, t_sched = False, t_task_id = 0, t_priority = 0, t_created_time = 0,
     t_execution_count = 0, t_last_execution_time = 0, t_total_execution_time = 0,
     t_list_ok = False, t_main_ok = False\<rparr>), priority_heads = [], tim_task_suspend_head = [],
     tim_task_head = [], tim_task_init = False, task_id_counter = 1, ktime = 0, fault = False, env = e\<rparr>"

lemma timers_boot_wf: "timers_wf (timers_boot e)" "\<not> fault (timers_boot e)"
  by (simp_all add: timers_boot_def timers_wf_def linked_def)

section \<open>Properties\<close>


definition demo_timers :: "task_ptr list timers" where
  "demo_timers =
     (let s = snd (tim_task_add 1 (Some ''motor'') 1000 True False 7 (timers_boot []));
          s = snd (tim_task_add 2 (Some ''once'') 500 False False 8 s);
          s = snd (tim_task_add 3 None 5000 True False 9 s);
          s = snd (tim_task_set_priority 3 0 s);
          s = snd (tim_task_add 4 None 10 True False 9 s)
      in (tim_task_suspend 4 s)\<lparr>ktime := 2000000\<rparr>)"

lemma demo_timers_steps: "(timer_step logging)\<^sup>*\<^sup>* (timers_boot []) demo_timers"
proof -
  let ?s1 = "snd (tim_task_add 1 (Some ''motor'') 1000 True False 7 (timers_boot []))"
  let ?s2 = "snd (tim_task_add 2 (Some ''once'') 500 False False 8 ?s1)"
  let ?s3 = "snd (tim_task_add 3 None 5000 True False 9 ?s2)"
  let ?s4 = "snd (tim_task_set_priority 3 0 ?s3)"
  let ?s5 = "snd (tim_task_add 4 None 10 True False 9 ?s4)"
  let ?s6 = "tim_task_suspend 4 ?s5"
  have "timer_step logging (timers_boot []) ?s1" by (rule timer_step.add) code_simp
  moreover have "timer_step logging ?s1 ?s2" by (rule timer_step.add) code_simp
  moreover have "timer_step logging ?s2 ?s3" by (rule timer_step.add) code_simp
  moreover have "timer_step logging ?s3 ?s4" by (rule timer_step.set_priority) code_simp
  moreover have "timer_step logging ?s4 ?s5" by (rule timer_step.add) code_simp
  moreover have "timer_step logging ?s5 ?s6" by (rule timer_step.suspend) code_simp
  moreover have "timer_step logging ?s6 demo_timers"
    unfolding demo_timers_def Let_def by (rule timer_step.tick) code_simp
  ultimately show ?thesis by (meson rtranclp.rtrancl_refl converse_rtranclp_into_rtranclp)
qed

lemma demo_timers_wf: "timers_wf demo_timers" "tim_task_init demo_timers"
proof -
  show "timers_wf demo_timers"
    using timer_steps_wf [OF demo_timers_steps logging_quiet timers_boot_wf(1)] by blast
  show "tim_task_init demo_timers" by code_simp
qed

text \<open>Callbacks that take a millisecond each and write a log.\<close>

definition slow_log :: "task_ptr list effect" where
  "slow_log f t ec = (fst ec @ [t], snd ec + 1000000)"


text \<open>C12.  The callbacks of one pass run in the order of the priorities, and in the order of the queue
within one priority.\<close>

theorem loop_order:
  assumes "timers_wf s" "tim_task_init s"
  shows "map_option env (tim_task_loop logging s)
    = Some (env s @ filter (\<lambda>t. t_timeout (tasks s t) \<le> clock_us s)
        (priority_heads s ! 0 @ priority_heads s ! 1 @ priority_heads s ! 2))"
proof -
  have len: "length (priority_heads s) = 3" by (rule timers_wfD(1) [OF assms])
  then obtain a b c where abc: "priority_heads s = [a, b, c]" by (auto simp: numeral_eq_Suc length_Suc_conv)
  have "distinct (concat (priority_heads s))" "set (concat (priority_heads s)) \<subseteq> set (tim_task_head s)"
    using timers_wfD(4,6) [OF assms(1)] by (auto simp: linked_def)
  then have "env (fold (visit logging (clock_us s)) (concat (priority_heads s)) s)
      = env s @ filter (due (clock_us s) s) (concat (priority_heads s))"
    using logging_order [OF visited_none [OF assms(1)]] by simp
  then show ?thesis
    using loop_visits(1) [OF logging_quiet assms] by (simp add: abc due_def [abs_def])
qed

theorem loop_order_witness: "map_option env (tim_task_loop logging demo_timers) = Some [1, 2]"
  unfolding loop_order [OF demo_timers_wf] by code_simp



text \<open>C14.  \<open>tim_task_get_next_task\<close> returns a queued task whose timeout lies in the future and is
the earliest of all such tasks, or none when no queued task has a timeout in the future.\<close>

theorem next_task_earliest:
  assumes "timers_wf s" "tim_task_init s" "\<forall>t\<in>set (concat (priority_heads s)). t_timeout (tasks s t) < 2 ^ 63 - 1"
  shows "case tim_task_get_next_task s of
      None \<Rightarrow> \<forall>t\<in>set (concat (priority_heads s)). t_timeout (tasks s t) \<le> clock_us s
    | Some n \<Rightarrow> n \<in> set (concat (priority_heads s)) \<and> clock_us s < t_timeout (tasks s n)
        \<and> (\<forall>t\<in>set (concat (priority_heads s)). clock_us s < t_timeout (tasks s t) \<longrightarrow>
             t_timeout (tasks s n) \<le> t_timeout (tasks s t))"
proof -
  define r where "r = fold (earlier s (clock_us s)) (concat (priority_heads s)) (2 ^ 63 - 1, None)"
  have len: "length (priority_heads s) = MAX_PRIORITY_LEVELS" by (rule timers_wfD(1) [OF assms(1,2)])
  have n: "tim_task_get_next_task s = snd r"
    unfolding tim_task_get_next_task_def r_def next_task_fold [of s "clock_us s", unfolded len] ..
  have p: "picks_earliest s (clock_us s) (concat (priority_heads s)) (2 ^ 63 - 1, None) r"
    unfolding r_def by (rule earlier_fold)
  show ?thesis
  proof (cases "r = (2 ^ 63 - 1, None)")
    case True
    then have "\<forall>t\<in>set (concat (priority_heads s)). clock_us s < t_timeout (tasks s t) \<longrightarrow> 2 ^ 63 - 1 \<le> t_timeout (tasks s t)"
      using p unfolding picks_earliest_def by simp
    then have "\<forall>t\<in>set (concat (priority_heads s)). t_timeout (tasks s t) \<le> clock_us s"
      using assms(3) by (meson not_le)
    then show ?thesis using n True by simp
  next
    case False
    then obtain t where "t \<in> set (concat (priority_heads s))" "r = (t_timeout (tasks s t), Some t)"
      "clock_us s < t_timeout (tasks s t)" using p unfolding picks_earliest_def by blast
    then show ?thesis using n p unfolding picks_earliest_def by simp
  qed
qed

theorem next_task_earliest_witness: "tim_task_get_next_task demo_timers = Some 3"
proof -
  have f: "\<forall>t\<in>set (concat (priority_heads demo_timers)). t_timeout (tasks demo_timers t) < 2 ^ 63 - 1"
    and u: "\<forall>n\<in>set (concat (priority_heads demo_timers)). clock_us demo_timers < t_timeout (tasks demo_timers n) \<longrightarrow> n = 3"
    and e: "\<exists>t\<in>set (concat (priority_heads demo_timers)). clock_us demo_timers < t_timeout (tasks demo_timers t)"
    by code_simp+
  from next_task_earliest [OF demo_timers_wf f] u e show ?thesis
    by (cases "tim_task_get_next_task demo_timers") (auto simp: not_less [symmetric] simp del: set_concat)
qed

text \<open>C15.  \<open>tim_task_cleanup_all\<close> empties every list, suspended tasks included, without following a
poisoned node.\<close>

theorem cleanup_empties:
  assumes "timers_wf s" "tim_task_init s"
  shows "tim_task_head (tim_task_cleanup_all s) = [] \<and> tim_task_suspend_head (tim_task_cleanup_all s) = []
    \<and> concat (priority_heads (tim_task_cleanup_all s)) = [] \<and> fault (tim_task_cleanup_all s) = fault s"
proof -
  have "linked (tim_task_cleanup_all s) = []" "tim_task_head (tim_task_cleanup_all s) = []"
    "fault (tim_task_cleanup_all s) = fault s"
    using cleanup_all_empties [OF assms] timers_wfD(6) [OF assms(1)] by (auto simp: cleaned_def)
  then show ?thesis by (simp add: linked_def)
qed

theorem cleanup_empties_witness: "tim_task_head (tim_task_cleanup_all demo_timers) = []"
  using cleanup_empties [OF demo_timers_wf] by blast

end
