(* ===== verification/Pid.thy ===== *)
theory Pid
  imports Kinetis_Prelude
begin

text \<open>
  The positional PID controller and the relay auto-tuner of
  \<^verbatim>\<open>projects/persistence-of-vision/pid.c\<close>, with the constants of \<^verbatim>\<open>config.h\<close>.  Signed
  arithmetic wraps at 32 or 64 bits as compiled; gains are Q8.8 fixed-point numbers.  The tuner
  points at the controller it tunes: the functions of the tuner take and return the controller, and
  the flag \<open>rt_pid\<close> says whether the pointer is set.  A division by zero is the result \<open>None\<close>.
\<close>

section \<open>State\<close>

datatype pid_type = PID_POSITIONAL | PID_INCREMENTAL

record pid_positional =
  p_type :: pid_type
  p_kp :: int
  p_ki :: int
  p_kd :: int
  p_d_alpha :: int
  p_d_filtered :: int
  p_integral :: int
  p_int_min :: int
  p_int_max :: int
  p_out_min :: int
  p_out_max :: int
  p_deadband :: int
  p_slew_rate :: int
  p_prev_meas :: int
  p_prev_err :: int
  p_prev_output :: int
  p_last_p :: int
  p_last_i :: int
  p_last_d :: int
  p_last_err :: int

datatype pid_relay_state = RELAY_IDLE | RELAY_RUNNING | RELAY_DONE | RELAY_FAILED

record pid_relay_tuner =
  rt_pid :: bool
  rt_relay_amp :: int
  rt_bias :: int
  rt_set_point :: int
  rt_min_cycles :: u32
  rt_min_half_ticks :: u32
  rt_state :: pid_relay_state
  rt_sample_count :: u32
  rt_prev_err :: int
  rt_last_relay_sign :: int
  rt_in_positive_half :: bool
  rt_peak_pos :: int
  rt_peak_neg :: int
  rt_half_ticks :: u32
  rt_last_half_ticks :: u32
  rt_last_peak_pos :: int
  rt_sum_period :: int
  rt_sum_amplitude :: int
  rt_cycle_count :: u32
  rt_ku :: int
  rt_tu :: int

abbreviation PID_SCALE_BITS :: nat where "PID_SCALE_BITS \<equiv> 8"
abbreviation PID_SCALE :: int where "PID_SCALE \<equiv> 256"

definition clamp :: "int \<Rightarrow> int \<Rightarrow> int \<Rightarrow> int" where
  "clamp val low high = min (max val low) high"

section \<open>The controller\<close>

definition pid_positional_init :: "int \<Rightarrow> int \<Rightarrow> int \<Rightarrow> pid_positional" where
  "pid_positional_init kp ki kd =
     \<lparr>p_type = PID_POSITIONAL, p_kp = kp, p_ki = ki, p_kd = kd, p_d_alpha = 192, p_d_filtered = 0,
      p_integral = 0, p_int_min = - 5000, p_int_max = 5000, p_out_min = - 10000, p_out_max = 10000,
      p_deadband = 3, p_slew_rate = 200, p_prev_meas = 0, p_prev_err = 0, p_prev_output = 0,
      p_last_p = 0, p_last_i = 0, p_last_d = 0, p_last_err = 0\<rparr>"

definition pid_positional_reset :: "pid_positional \<Rightarrow> pid_positional" where
  "pid_positional_reset c = c\<lparr>p_integral := 0, p_d_filtered := 0, p_prev_meas := 0, p_prev_err := 0,
     p_prev_output := 0, p_last_p := 0, p_last_i := 0, p_last_d := 0, p_last_err := 0\<rparr>"

text \<open>The two tests that keep the accumulator between the limits, the upper one first.\<close>

definition clamp_integral :: "pid_positional \<Rightarrow> int \<Rightarrow> int" where
  "clamp_integral c i =
     (let hi_lim = s64 (p_int_max c * 2 ^ PID_SCALE_BITS);
          lo_lim = s64 (p_int_min c * 2 ^ PID_SCALE_BITS);
          i = (if i > hi_lim then hi_lim else i)
      in if i < lo_lim then lo_lim else i)"

definition pid_positional_set_output :: "pid_positional \<Rightarrow> int \<Rightarrow> pid_positional" where
  "pid_positional_set_output c current_output =
     c\<lparr>p_integral := clamp_integral c (s64 (current_output * 2 ^ PID_SCALE_BITS)),
       p_prev_output := clamp current_output (p_out_min c) (p_out_max c), p_d_filtered := 0\<rparr>"

definition in_deadband :: "pid_positional \<Rightarrow> int \<Rightarrow> bool" where
  "in_deadband c err \<longleftrightarrow> p_deadband c > 0 \<and> err \<ge> s32 (- p_deadband c) \<and> err \<le> p_deadband c"

definition filter_d :: "pid_positional \<Rightarrow> int \<Rightarrow> int" where
  "filter_d c meas =
     (let d_raw = s32 (p_prev_meas c - meas)
      in s32 (p_d_filtered c
           + asr (s32 (s32 (d_raw - p_d_filtered c) * p_d_alpha c)) PID_SCALE_BITS))"

definition windup :: "pid_positional \<Rightarrow> int \<Rightarrow> int \<Rightarrow> bool" where
  "windup c pd err \<longleftrightarrow> (pd > p_out_max c \<and> err > 0) \<or> (pd < p_out_min c \<and> err < 0)"

definition slew :: "pid_positional \<Rightarrow> int \<Rightarrow> int" where
  "slew c output =
     (if p_slew_rate c > 0
      then
        let delta = s32 (output - p_prev_output c)
        in if delta > p_slew_rate c then s32 (p_prev_output c + p_slew_rate c)
           else if delta < s32 (- p_slew_rate c) then s32 (p_prev_output c - p_slew_rate c)
           else output
      else output)"

definition pid_positional_update ::
  "pid_positional \<Rightarrow> int \<Rightarrow> int \<Rightarrow> u32 \<Rightarrow> int \<times> pid_positional" where
  "pid_positional_update c set_point meas dt_ms =
     (let err = s32 (set_point - meas)
      in if in_deadband c err
         then (p_prev_output c, c\<lparr>p_prev_err := err, p_prev_meas := meas, p_last_err := err\<rparr>)
         else
           let df = filter_d c meas;
               d = asr (s32 (p_kd c * df)) PID_SCALE_BITS;
               p = asr (s32 (p_kp c * err)) PID_SCALE_BITS;
               pd_tentative = s32 (p + d);
               integral = (if \<not> windup c pd_tentative err
                           then clamp_integral c (s64 (p_integral c + s64 (p_ki c * err)))
                           else p_integral c);
               i = s32 (asr integral PID_SCALE_BITS);
               output = clamp (s32 (s32 (p + d) + i)) (p_out_min c) (p_out_max c);
               output = slew c output
           in (output, c\<lparr>p_prev_meas := meas, p_d_filtered := df, p_integral := integral,
                 p_last_p := p, p_last_i := i, p_last_d := d, p_last_err := err,
                 p_prev_err := err, p_prev_output := output\<rparr>))"

section \<open>The relay tuner\<close>

abbreviation RELAY_TIMEOUT_SAMPLES :: u32 where "RELAY_TIMEOUT_SAMPLES \<equiv> 1000"
abbreviation SLAVE_PID_PERIOD_MS :: int where "SLAVE_PID_PERIOD_MS \<equiv> 10"

definition pid_relay_init :: "bool \<Rightarrow> int \<Rightarrow> int \<Rightarrow> int \<Rightarrow> u32 \<Rightarrow> pid_relay_tuner" where
  "pid_relay_init pid relay_amp bias set_point min_cycles =
     \<lparr>rt_pid = pid, rt_relay_amp = relay_amp, rt_bias = bias, rt_set_point = set_point,
      rt_min_cycles = min_cycles, rt_min_half_ticks = 20, rt_state = RELAY_IDLE, rt_sample_count = 0,
      rt_prev_err = 0, rt_last_relay_sign = 1, rt_in_positive_half = False, rt_peak_pos = 0,
      rt_peak_neg = 0, rt_half_ticks = 0, rt_last_half_ticks = 0, rt_last_peak_pos = 0,
      rt_sum_period = 0, rt_sum_amplitude = 0, rt_cycle_count = 0, rt_ku = 0, rt_tu = 0\<rparr>"

definition pid_relay_start :: "pid_relay_tuner \<Rightarrow> pid_positional \<Rightarrow> pid_relay_tuner" where
  "pid_relay_start t c =
     (if \<not> rt_pid t then t
      else t\<lparr>rt_bias := (if rt_bias t = 0 then p_prev_output c else rt_bias t),
             rt_state := RELAY_RUNNING, rt_sample_count := 0, rt_prev_err := 0, rt_last_relay_sign := 1,
             rt_in_positive_half := False, rt_peak_pos := 0, rt_peak_neg := 0, rt_half_ticks := 0,
             rt_last_half_ticks := 0, rt_last_peak_pos := 0, rt_sum_period := 0,
             rt_sum_amplitude := 0, rt_cycle_count := 0\<rparr>)"

definition relay_finish_tuning ::
  "pid_relay_tuner \<Rightarrow> pid_positional \<Rightarrow> (pid_relay_tuner \<times> pid_positional) option" where
  "relay_finish_tuning t c =
     (if 2 * rt_cycle_count t = 0 then None
      else
        let avg_half_period = s32 (cdiv (rt_sum_period t) (uint (2 * rt_cycle_count t)));
            avg_amplitude = s32 (cdiv (rt_sum_amplitude t) (uint (rt_cycle_count t)))
        in if avg_half_period \<le> 0 \<or> avg_amplitude \<le> 0 then Some (t\<lparr>rt_state := RELAY_FAILED\<rparr>, c)
           else
             let ku_q8 = s32 (cdiv (s64 (4 * rt_relay_amp t * 113 * PID_SCALE)) (355 * avg_amplitude));
                 tu_ticks = s32 (cdiv (rt_sum_period t) (uint (rt_cycle_count t)));
                 kp_q8 = cdiv (s32 (ku_q8 * 15)) 100;
                 ki_q8 = (if tu_ticks > 0
                          then s32 (cdiv (1000 * kp_q8) (tu_ticks * SLAVE_PID_PERIOD_MS)) else 0);
                 kd_q8 = s32 (cdiv (s64 (kp_q8 * tu_ticks * SLAVE_PID_PERIOD_MS)) 8000)
             in Some (t\<lparr>rt_ku := ku_q8, rt_tu := tu_ticks, rt_state := RELAY_DONE\<rparr>,
                      pid_positional_reset (c\<lparr>p_kp := kp_q8, p_ki := ki_q8, p_kd := kd_q8\<rparr>)))"

text \<open>The half-cycle boundary inside \<open>pid_relay_update\<close>, where the relay changes its output.\<close>

definition relay_switch :: "int \<Rightarrow> int \<Rightarrow> pid_relay_tuner \<Rightarrow> pid_relay_tuner" where
  "relay_switch err desired_sign t =
     (let t = (if rt_last_relay_sign t \<ge> 0
               then t\<lparr>rt_last_peak_pos := rt_peak_pos t, rt_last_half_ticks := rt_half_ticks t - 1,
                      rt_peak_pos := 0, rt_half_ticks := 1\<rparr>
               else
                 let period_ticks = rt_last_half_ticks t + (rt_half_ticks t - 1);
                     amplitude = s32 (rt_last_peak_pos t - rt_peak_neg t);
                     t = (if period_ticks > 0 \<and> amplitude > 0
                          then t\<lparr>rt_sum_period := s64 (rt_sum_period t + uint period_ticks),
                                 rt_sum_amplitude := s64 (rt_sum_amplitude t + amplitude),
                                 rt_cycle_count := rt_cycle_count t + 1\<rparr>
                          else t)
                 in t\<lparr>rt_peak_neg := 0, rt_half_ticks := 1\<rparr>);
          t = (if err \<ge> 0 then t\<lparr>rt_peak_pos := err\<rparr> else t\<lparr>rt_peak_neg := err\<rparr>)
      in t\<lparr>rt_last_relay_sign := desired_sign, rt_in_positive_half := (desired_sign \<ge> 0)\<rparr>)"

definition relay_sign :: "int \<Rightarrow> pid_relay_tuner \<Rightarrow> int" where
  "relay_sign err t =
     (let desired_sign = (if err \<ge> 0 then 1 else - 1)
      in if rt_half_ticks t \<noteq> 0 \<and> rt_half_ticks t < rt_min_half_ticks t
         then rt_last_relay_sign t else desired_sign)"

definition relay_peaks :: "int \<Rightarrow> pid_relay_tuner \<Rightarrow> pid_relay_tuner" where
  "relay_peaks err t =
     (if err \<ge> 0 then (if err > rt_peak_pos t then t\<lparr>rt_peak_pos := err\<rparr> else t)
      else (if err < rt_peak_neg t then t\<lparr>rt_peak_neg := err\<rparr> else t))"

definition pid_relay_update ::
  "pid_relay_tuner \<Rightarrow> pid_positional \<Rightarrow> int \<Rightarrow> (int \<times> pid_relay_tuner \<times> pid_positional) option" where
  "pid_relay_update t c meas =
     (if rt_state t = RELAY_IDLE then Some (rt_bias t, t, c)
      else if rt_state t = RELAY_DONE \<or> rt_state t = RELAY_FAILED then Some (0, t, c)
      else if \<not> rt_pid t then Some (0, t, c)
      else
        let t = t\<lparr>rt_sample_count := rt_sample_count t + 1\<rparr>
        in if rt_sample_count t > RELAY_TIMEOUT_SAMPLES then Some (0, t\<lparr>rt_state := RELAY_FAILED\<rparr>, c)
           else
             let err = s32 (rt_set_point t - meas);
                 desired_sign = relay_sign err t;
                 do_switch = (desired_sign \<noteq> rt_last_relay_sign t);
                 relay_output = (if desired_sign \<ge> 0 then s32 (rt_bias t + rt_relay_amp t)
                                 else s32 (rt_bias t - rt_relay_amp t));
                 t = relay_peaks err t;
                 t = t\<lparr>rt_half_ticks := rt_half_ticks t + 1\<rparr>;
                 t = (if do_switch then relay_switch err desired_sign t else t);
                 t = t\<lparr>rt_prev_err := err\<rparr>
             in if rt_cycle_count t \<ge> rt_min_cycles t
                then map_option (\<lambda>(t, c). (0, t, c)) (relay_finish_tuning t c)
                else Some (relay_output, t, c))"

end
