(* ===== verification/Pid_Correct.thy ===== *)
theory Pid_Correct
  imports Pid
begin

text \<open>
  Correctness of the controller and the tuner of \<^verbatim>\<open>projects/persistence-of-vision/pid.c\<close>: the
  bounds that hold for every input, the agreement with the algorithm on unbounded integers, the
  bumpless transfer, and the termination and the results of the relay tuner.
\<close>

section \<open>Bounds of the controller\<close>

definition pid_ok :: "pid_positional \<Rightarrow> bool" where
  "pid_ok c \<longleftrightarrow> - 1000000000 \<le> p_out_min c \<and> p_out_max c \<le> 1000000000
     \<and> p_out_min c \<le> p_prev_output c \<and> p_prev_output c \<le> p_out_max c
     \<and> - 1000000000 \<le> p_int_min c \<and> p_int_min c \<le> p_int_max c \<and> p_int_max c \<le> 1000000000
     \<and> p_int_min c * 256 \<le> p_integral c \<and> p_integral c \<le> p_int_max c * 256
     \<and> 0 \<le> p_slew_rate c \<and> p_slew_rate c \<le> 1000000000"

lemma clamp_bounds: "l \<le> h \<Longrightarrow> l \<le> clamp v l h \<and> clamp v l h \<le> h"
  by (auto simp: clamp_def)

lemma clamp_id: "l \<le> v \<Longrightarrow> v \<le> h \<Longrightarrow> clamp v l h = v"
  by (auto simp: clamp_def)

lemma clamp_integral_eq:
  assumes "pid_ok c"
  shows "clamp_integral c i = clamp i (p_int_min c * 256) (p_int_max c * 256)"
proof -
  have "s64 (p_int_max c * 256) = p_int_max c * 256" "s64 (p_int_min c * 256) = p_int_min c * 256"
    using assms by (auto simp: pid_ok_def intro!: s64_id)
  then show ?thesis using assms by (auto simp: clamp_integral_def clamp_def pid_ok_def Let_def)
qed

lemma slew_eq:
  assumes "pid_ok c" "p_out_min c \<le> u" "u \<le> p_out_max c"
  shows "slew c u = (if p_slew_rate c > 0 then clamp u (p_prev_output c - p_slew_rate c) (p_prev_output c + p_slew_rate c) else u)"
proof -
  have "s32 (u - p_prev_output c) = u - p_prev_output c" "s32 (- p_slew_rate c) = - p_slew_rate c"
    "s32 (p_prev_output c + p_slew_rate c) = p_prev_output c + p_slew_rate c"
    "s32 (p_prev_output c - p_slew_rate c) = p_prev_output c - p_slew_rate c"
    using assms by (auto simp: pid_ok_def intro!: s32_id)
  then show ?thesis by (auto simp: slew_def Let_def clamp_def)
qed

lemma slew_bounds:
  assumes "pid_ok c" "p_out_min c \<le> u" "u \<le> p_out_max c"
  shows "p_out_min c \<le> slew c u" "slew c u \<le> p_out_max c"
    "p_slew_rate c > 0 \<Longrightarrow> \<bar>slew c u - p_prev_output c\<bar> \<le> p_slew_rate c"
  using assms by (auto simp: slew_eq clamp_def pid_ok_def)

lemma update_bounds:
  assumes ok: "pid_ok c" and r: "pid_positional_update c sp m dt = (u, c')"
  shows "pid_ok c' \<and> p_out_min c \<le> u \<and> u \<le> p_out_max c \<and> p_prev_output c' = u
    \<and> (p_slew_rate c > 0 \<longrightarrow> \<bar>u - p_prev_output c\<bar> \<le> p_slew_rate c)
    \<and> p_out_min c' = p_out_min c \<and> p_out_max c' = p_out_max c \<and> p_slew_rate c' = p_slew_rate c
    \<and> p_kp c' = p_kp c \<and> p_ki c' = p_ki c \<and> p_kd c' = p_kd c \<and> p_prev_meas c' = m"
proof (cases "in_deadband c (s32 (sp - m))")
  case True
  then have "u = p_prev_output c" "c' = c\<lparr>p_prev_err := s32 (sp - m), p_prev_meas := m, p_last_err := s32 (sp - m)\<rparr>"
    using r by (auto simp: pid_positional_update_def Let_def)
  then show ?thesis using ok by (simp add: pid_ok_def)
next
  case False
  define df where "df = filter_d c m"
  define d where "d = asr (s32 (p_kd c * df)) 8"
  define p where "p = asr (s32 (p_kp c * s32 (sp - m))) 8"
  define i where "i = (if \<not> windup c (s32 (p + d)) (s32 (sp - m))
    then clamp_integral c (s64 (p_integral c + s64 (p_ki c * s32 (sp - m)))) else p_integral c)"
  define v where "v = clamp (s32 (s32 (p + d) + s32 (asr i 8))) (p_out_min c) (p_out_max c)"
  have *: "u = slew c v" "c' = c\<lparr>p_prev_meas := m, p_d_filtered := df, p_integral := i, p_last_p := p,
      p_last_i := s32 (asr i 8), p_last_d := d, p_last_err := s32 (sp - m), p_prev_err := s32 (sp - m), p_prev_output := u\<rparr>"
    using r False unfolding pid_positional_update_def Let_def df_def [symmetric] d_def [symmetric] p_def [symmetric]
      i_def [symmetric] v_def [symmetric] by auto
  have "p_int_min c * 256 \<le> i \<and> i \<le> p_int_max c * 256"
    using ok by (auto simp: i_def clamp_integral_eq pid_ok_def clamp_def)
  moreover have "p_out_min c \<le> p_out_max c" using ok by (simp add: pid_ok_def)
  then have "p_out_min c \<le> v" "v \<le> p_out_max c" using clamp_bounds v_def by blast+
  note slew_bounds [OF ok this]
  ultimately show ?thesis using ok unfolding * by (simp add: pid_ok_def)
qed

datatype pid_event = Sample int int u32 | Preload int | Reset_pid

fun pid_step :: "pid_event \<Rightarrow> pid_positional \<Rightarrow> pid_positional" where
  "pid_step (Sample sp m dt) c = snd (pid_positional_update c sp m dt)"
| "pid_step (Preload u) c = pid_positional_set_output c u"
| "pid_step Reset_pid c = pid_positional_reset c"

text \<open>A controller whose limits contain zero, as the ones of the configuration do.\<close>

definition pid_ready :: "pid_positional \<Rightarrow> bool" where
  "pid_ready c \<longleftrightarrow> pid_ok c \<and> p_out_min c \<le> 0 \<and> 0 \<le> p_out_max c \<and> p_int_min c \<le> 0 \<and> 0 \<le> p_int_max c"

lemma update_keeps_limits:
  "p_int_min (snd (pid_positional_update c sp m dt)) = p_int_min c"
  "p_int_max (snd (pid_positional_update c sp m dt)) = p_int_max c"
  "p_deadband (snd (pid_positional_update c sp m dt)) = p_deadband c"
  "p_d_alpha (snd (pid_positional_update c sp m dt)) = p_d_alpha c"
  by (simp_all add: pid_positional_update_def Let_def)

lemma pid_ready_step: "pid_ready c \<Longrightarrow> pid_ready (pid_step e c)"
proof (cases e)
  case (Sample sp m dt)
  assume "pid_ready c"
  then show ?thesis
    using Sample update_bounds [of c sp m dt] update_keeps_limits [of c sp m dt]
    by (cases "pid_positional_update c sp m dt") (auto simp: pid_ready_def)
next
  case (Preload u)
  assume c: "pid_ready c"
  then show ?thesis
    using Preload clamp_integral_eq [of c "s64 (u * 256)"]
    by (auto simp: pid_ready_def pid_positional_set_output_def pid_ok_def clamp_def)
next
  case Reset_pid
  assume "pid_ready c"
  then show ?thesis using Reset_pid
    by (auto simp: pid_ready_def pid_positional_reset_def pid_ok_def intro: order_trans [of _ 0])
qed

interpretation pid: event_driven pid_step pid_ready
  by unfold_locales (rule pid_ready_step)

lemma pid_init_ready: "pid_ready (pid_positional_init kp ki kd)"
  by (simp add: pid_ready_def pid_ok_def pid_positional_init_def)

section \<open>Agreement with the ideal controller\<close>

text \<open>The positional algorithm on unbounded integers, as the header describes it.\<close>

definition ideal_update :: "pid_positional \<Rightarrow> int \<Rightarrow> int \<Rightarrow> int \<times> pid_positional" where
  "ideal_update c sp m =
     (let err = sp - m
      in if p_deadband c > 0 \<and> \<bar>err\<bar> \<le> p_deadband c
         then (p_prev_output c, c\<lparr>p_prev_err := err, p_prev_meas := m, p_last_err := err\<rparr>)
         else
           let df = p_d_filtered c + (p_prev_meas c - m - p_d_filtered c) * p_d_alpha c div 256;
               d = p_kd c * df div 256;
               p = p_kp c * err div 256;
               saturating = (p + d > p_out_max c \<and> err > 0) \<or> (p + d < p_out_min c \<and> err < 0);
               integral = (if saturating then p_integral c
                           else clamp (p_integral c + p_ki c * err) (p_int_min c * 256) (p_int_max c * 256));
               u = clamp (p + d + integral div 256) (p_out_min c) (p_out_max c);
               u = (if p_slew_rate c > 0
                    then clamp u (p_prev_output c - p_slew_rate c) (p_prev_output c + p_slew_rate c) else u)
           in (u, c\<lparr>p_prev_meas := m, p_d_filtered := df, p_integral := integral, p_last_p := p,
                 p_last_i := integral div 256, p_last_d := d, p_last_err := err, p_prev_err := err,
                 p_prev_output := u\<rparr>))"

text \<open>Gains below 128, speeds below 30000: no intermediate result leaves its type.\<close>

definition speed :: "int \<Rightarrow> bool" where
  "speed x \<longleftrightarrow> - 30000 \<le> x \<and> x \<le> 30000"

definition pid_small :: "pid_positional \<Rightarrow> bool" where
  "pid_small c \<longleftrightarrow> pid_ready c \<and> \<bar>p_kp c\<bar> \<le> 32767 \<and> \<bar>p_ki c\<bar> \<le> 32767 \<and> \<bar>p_kd c\<bar> \<le> 32767
     \<and> 0 \<le> p_d_alpha c \<and> p_d_alpha c \<le> 256 \<and> \<bar>p_d_filtered c\<bar> \<le> 60000
     \<and> 0 \<le> p_deadband c \<and> p_deadband c \<le> 1000000 \<and> speed (p_prev_meas c)"

lemma abs_mult_le: "\<bar>a\<bar> \<le> A \<Longrightarrow> \<bar>b\<bar> \<le> B \<Longrightarrow> \<bar>a * b :: int\<bar> \<le> A * B"
  by (simp add: abs_mult mult_mono')

lemma filter_between:
  assumes "0 \<le> a" "a \<le> 256" "\<bar>d\<bar> \<le> M" "\<bar>r\<bar> \<le> M"
  shows "\<bar>d + (r - d) * a div 256\<bar> \<le> (M :: int)"
proof -
  have "(if r \<ge> d then 0 else r - d) \<le> (r - d) * a div 256 \<and> (r - d) * a div 256 \<le> (if r \<ge> d then r - d else 0)"
  proof (cases "r \<ge> d")
    case True
    have "(r - d) * a \<le> (r - d) * 256" using True assms by (intro mult_left_mono) auto
    from zdiv_mono1 [OF this, of 256] show ?thesis using True assms by (simp add: pos_imp_zdiv_nonneg_iff)
  next
    case False
    have "(r - d) * 256 \<le> (r - d) * a" using False assms by (intro mult_left_mono_neg) auto
    from zdiv_mono1 [OF this, of 256] have "r - d \<le> (r - d) * a div 256" by simp
    moreover have "(r - d) * a \<le> 0" using False assms by (simp add: mult_nonpos_nonneg)
    then have "(r - d) * a div 256 \<le> 0" by (metis div_0 zdiv_mono1 zero_less_numeral)
    ultimately show ?thesis using False by simp
  qed
  then show ?thesis using assms by (auto split: if_splits)
qed

lemma div_256_bound: "\<bar>x\<bar> \<le> 256 * B \<Longrightarrow> \<bar>x div 256\<bar> \<le> (B :: int)"
proof -
  assume "\<bar>x\<bar> \<le> 256 * B"
  then have "x div 256 \<le> (256 * B) div 256" "(256 * (- B)) div 256 \<le> x div 256"
    by (intro zdiv_mono1; simp)+
  then show ?thesis by simp
qed

lemma gain_exact:
  assumes "\<bar>k\<bar> \<le> 32767" "\<bar>x\<bar> \<le> 60000"
  shows "s32 (k * x) = k * x" "s64 (k * x) = k * x" "\<bar>k * x\<bar> \<le> 1966020000" "\<bar>k * x div 256\<bar> \<le> 8000000"
proof -
  show le: "\<bar>k * x\<bar> \<le> 1966020000" using abs_mult_le [OF assms] by simp
  then show "s32 (k * x) = k * x" "s64 (k * x) = k * x" by (auto intro!: s32_id s64_id)
  show "\<bar>k * x div 256\<bar> \<le> 8000000" using le by (intro div_256_bound) simp
qed

definition ideal_filter :: "pid_positional \<Rightarrow> int \<Rightarrow> int" where
  "ideal_filter c m = p_d_filtered c + (p_prev_meas c - m - p_d_filtered c) * p_d_alpha c div 256"

lemma filter_d_exact:
  assumes c: "pid_small c" and m: "speed m"
  shows "filter_d c m = ideal_filter c m" "\<bar>ideal_filter c m\<bar> \<le> 60000"
proof -
  note b = c [unfolded pid_small_def speed_def] m [unfolded speed_def]
  have raw: "s32 (p_prev_meas c - m) = p_prev_meas c - m" "\<bar>p_prev_meas c - m\<bar> \<le> 60000"
    using b by (auto intro!: s32_id)
  show le: "\<bar>ideal_filter c m\<bar> \<le> 60000"
    unfolding ideal_filter_def using b raw(2) by (intro filter_between) auto
  have s1: "s32 (p_prev_meas c - m - p_d_filtered c) = p_prev_meas c - m - p_d_filtered c"
    using raw(2) b by (auto intro!: s32_id)
  have "\<bar>(p_prev_meas c - m - p_d_filtered c) * p_d_alpha c\<bar> \<le> 120000 * 256"
    using raw(2) b by (intro abs_mult_le) auto
  then have "s32 ((p_prev_meas c - m - p_d_filtered c) * p_d_alpha c) = (p_prev_meas c - m - p_d_filtered c) * p_d_alpha c"
    by (intro s32_id) auto
  then show "filter_d c m = ideal_filter c m"
    using le by (simp add: filter_d_def Let_def raw(1) s1 asr_def ideal_filter_def [symmetric] s32_id)
qed

text \<open>The sum of the three terms stays in its type.\<close>

lemma sum_exact:
  assumes ok: "pid_ok c" and pd: "\<bar>p\<bar> \<le> 8000000" "\<bar>d\<bar> \<le> 8000000"
    and i: "p_int_min c * 256 \<le> i" "i \<le> p_int_max c * 256"
  shows "s32 (p + d) = p + d" "s32 (i div 256) = i div 256" "s32 (p + d + i div 256) = p + d + i div 256"
proof -
  have "p_int_min c \<le> i div 256" "i div 256 \<le> p_int_max c"
    using i zdiv_mono1 [of "p_int_min c * 256" i 256] zdiv_mono1 [of i "p_int_max c * 256" 256] by auto
  then show "s32 (p + d) = p + d" "s32 (i div 256) = i div 256" "s32 (p + d + i div 256) = p + d + i div 256"
    using ok pd by (auto simp: pid_ok_def intro!: s32_id)
qed

lemma update_exact:
  assumes c: "pid_small c" and sp: "speed sp" and m: "speed m"
  shows "pid_positional_update c sp m dt = ideal_update c sp m"
proof -
  have ok: "pid_ok c" using c by (simp add: pid_small_def pid_ready_def)
  define err where "err = sp - m"
  define df where "df = ideal_filter c m"
  define d where "d = p_kd c * df div 256"
  define p where "p = p_kp c * err div 256"
  define i where "i = (if windup c (p + d) err then p_integral c
    else clamp (p_integral c + p_ki c * err) (p_int_min c * 256) (p_int_max c * 256))"
  have err: "s32 err = err" "\<bar>err\<bar> \<le> 60000" using sp m by (auto simp: speed_def err_def intro!: s32_id)
  have dead: "in_deadband c err \<longleftrightarrow> p_deadband c > 0 \<and> \<bar>err\<bar> \<le> p_deadband c"
    using c by (auto simp: in_deadband_def pid_small_def s32_id)
  have g: "\<bar>p_kp c\<bar> \<le> 32767" "\<bar>p_ki c\<bar> \<le> 32767" "\<bar>p_kd c\<bar> \<le> 32767" using c by (auto simp: pid_small_def)
  note fd = filter_d_exact [OF c m, folded df_def]
  note gp = gain_exact [OF g(1) err(2), folded p_def] and gi = gain_exact [OF g(2) err(2)]
    and gd = gain_exact [OF g(3) fd(2), folded d_def]
  have s4: "s64 (p_integral c + p_ki c * err) = p_integral c + p_ki c * err"
    using ok gi(3) by (intro s64_id) (auto simp: pid_ok_def)
  have i: "p_int_min c * 256 \<le> i" "i \<le> p_int_max c * 256" using ok by (auto simp: i_def clamp_def pid_ok_def)
  note s = sum_exact [OF ok gp(4) gd(4) i]
  have ob: "p_out_min c \<le> p_out_max c" using ok by (simp add: pid_ok_def)
  note cb = clamp_bounds [OF ob, of "p + d + i div 256"]
  have i': "(if \<not> windup c (p + d) err then clamp (p_integral c + p_ki c * err) (p_int_min c * 256) (p_int_max c * 256)
      else p_integral c) = i" by (simp add: i_def)
  have "pid_positional_update c sp m dt = (if in_deadband c err
      then (p_prev_output c, c\<lparr>p_prev_err := err, p_prev_meas := m, p_last_err := err\<rparr>)
      else let u = slew c (clamp (p + d + i div 256) (p_out_min c) (p_out_max c)) in
        (u, c\<lparr>p_prev_meas := m, p_d_filtered := df, p_integral := i, p_last_p := p, p_last_i := i div 256,
          p_last_d := d, p_last_err := err, p_prev_err := err, p_prev_output := u\<rparr>))"
    unfolding pid_positional_update_def Let_def err_def [symmetric] err(1) fd(1) gp(1) gi(2) gd(1) s4 asr_def
      clamp_integral_eq [OF ok]
    using s i' by (simp add: p_def [symmetric] d_def [symmetric])
  also have "\<dots> = ideal_update c sp m"
    using slew_eq [OF ok conjunct1 [OF cb] conjunct2 [OF cb]]
    by (simp add: ideal_update_def Let_def err_def [symmetric] ideal_filter_def [symmetric] df_def [symmetric]
        dead i_def windup_def p_def [symmetric] d_def [symmetric])
  finally show ?thesis .
qed

lemma ideal_keeps_small:
  assumes c: "pid_small c" and sp: "speed sp" and m: "speed m"
  shows "pid_small (snd (ideal_update c sp m))"
proof -
  have "pid_ready (snd (ideal_update c sp m))"
    using pid_ready_step [of c "Sample sp m 10"] c update_exact [OF assms, of 10] by (simp add: pid_small_def)
  moreover have "p_d_filtered (snd (ideal_update c sp m)) = p_d_filtered c
      \<or> p_d_filtered (snd (ideal_update c sp m)) = ideal_filter c m"
    "p_kp (snd (ideal_update c sp m)) = p_kp c" "p_ki (snd (ideal_update c sp m)) = p_ki c"
    "p_kd (snd (ideal_update c sp m)) = p_kd c" "p_d_alpha (snd (ideal_update c sp m)) = p_d_alpha c"
    "p_deadband (snd (ideal_update c sp m)) = p_deadband c" "p_prev_meas (snd (ideal_update c sp m)) = m"
    by (auto simp: ideal_update_def Let_def ideal_filter_def)
  ultimately show ?thesis using c m filter_d_exact(2) [OF c m] by (auto simp: pid_small_def)
qed

section \<open>The relay tuner\<close>

text \<open>One sample of a running tuner up to the decision whether enough cycles are collected.\<close>

definition relay_sample :: "int \<Rightarrow> pid_relay_tuner \<Rightarrow> pid_relay_tuner" where
  "relay_sample err t =
     (let u = relay_peaks err t; u = u\<lparr>rt_half_ticks := rt_half_ticks u + 1\<rparr>;
          u = (if relay_sign err t \<noteq> rt_last_relay_sign t then relay_switch err (relay_sign err t) u else u)
      in u\<lparr>rt_prev_err := err\<rparr>)"

lemma relay_update_running:
  assumes "rt_state t = RELAY_RUNNING" "rt_pid t"
  shows "pid_relay_update t c m =
    (let u = t\<lparr>rt_sample_count := rt_sample_count t + 1\<rparr>; err = s32 (rt_set_point t - m); v = relay_sample err u
     in if rt_sample_count u > RELAY_TIMEOUT_SAMPLES then Some (0, u\<lparr>rt_state := RELAY_FAILED\<rparr>, c)
        else if rt_cycle_count v \<ge> rt_min_cycles v then map_option (\<lambda>(t, c). (0, t, c)) (relay_finish_tuning v c)
        else Some (if relay_sign err u \<ge> 0 then s32 (rt_bias t + rt_relay_amp t) else s32 (rt_bias t - rt_relay_amp t), v, c))"
  using assms by (simp add: pid_relay_update_def relay_sample_def Let_def)

lemma relay_sample_fields [simp]:
  "rt_state (relay_sample err t) = rt_state t" "rt_pid (relay_sample err t) = rt_pid t"
  "rt_sample_count (relay_sample err t) = rt_sample_count t" "rt_min_cycles (relay_sample err t) = rt_min_cycles t"
  "rt_bias (relay_sample err t) = rt_bias t" "rt_relay_amp (relay_sample err t) = rt_relay_amp t"
  "rt_set_point (relay_sample err t) = rt_set_point t" "rt_min_half_ticks (relay_sample err t) = rt_min_half_ticks t"
  by (simp_all add: relay_sample_def relay_peaks_def relay_switch_def Let_def)

text \<open>The counters of a tuner that has seen at most a thousand samples.\<close>

definition relay_inv :: "pid_relay_tuner \<Rightarrow> bool" where
  "relay_inv t \<longleftrightarrow> unat (rt_cycle_count t) \<le> unat (rt_sample_count t) \<and> unat (rt_sample_count t) \<le> 1000
     \<and> unat (rt_half_ticks t) \<le> unat (rt_sample_count t) \<and> unat (rt_last_half_ticks t) \<le> unat (rt_sample_count t)
     \<and> 0 \<le> rt_sum_period t \<and> rt_sum_period t \<le> 2000 * int (unat (rt_cycle_count t))
     \<and> 0 \<le> rt_sum_amplitude t \<and> rt_sum_amplitude t \<le> 2147483647 * int (unat (rt_cycle_count t))"

lemma unat_Suc_32: "unat (x :: u32) \<le> 1000 \<Longrightarrow> unat (x + 1) = unat x + 1"
  by (simp add: unat_add_no_wrap)

lemma relay_peaks_fields [simp]:
  "rt_cycle_count (relay_peaks err t) = rt_cycle_count t" "rt_sample_count (relay_peaks err t) = rt_sample_count t"
  "rt_half_ticks (relay_peaks err t) = rt_half_ticks t" "rt_last_half_ticks (relay_peaks err t) = rt_last_half_ticks t"
  "rt_sum_period (relay_peaks err t) = rt_sum_period t" "rt_sum_amplitude (relay_peaks err t) = rt_sum_amplitude t"
  "rt_last_relay_sign (relay_peaks err t) = rt_last_relay_sign t"
  by (simp_all add: relay_peaks_def)

lemma relay_switch_counters:
  fixes t :: pid_relay_tuner and err sg :: int
  assumes h: "unat (rt_half_ticks t) = Suc n" "n \<le> 1000" "unat (rt_last_half_ticks t) \<le> 1000"
    and c: "unat (rt_cycle_count t) \<le> 1000" "0 \<le> rt_sum_period t" "rt_sum_period t \<le> 2000 * int (unat (rt_cycle_count t))"
      "0 \<le> rt_sum_amplitude t" "rt_sum_amplitude t \<le> 2147483647 * int (unat (rt_cycle_count t))"
  defines "u \<equiv> relay_switch err sg t"
  shows "unat (rt_half_ticks u) = 1"
    "unat (rt_last_half_ticks u) \<le> max n (unat (rt_last_half_ticks t))"
    "unat (rt_cycle_count u) \<le> unat (rt_cycle_count t) + 1"
    "0 \<le> rt_sum_period u \<and> rt_sum_period u \<le> 2000 * int (unat (rt_cycle_count u))"
    "0 \<le> rt_sum_amplitude u \<and> rt_sum_amplitude u \<le> 2147483647 * int (unat (rt_cycle_count u))"
    "rt_last_relay_sign u = sg"
proof -
  let ?p = "rt_last_half_ticks t + (rt_half_ticks t - 1)" and ?a = "s32 (rt_last_peak_pos t - rt_peak_neg t)"
  have n: "unat (rt_half_ticks t - 1) = n" using h(1) by (simp add: unat_sub_no_wrap)
  then have p: "unat ?p = unat (rt_last_half_ticks t) + n" using h(2,3) by (simp add: unat_add_no_wrap)
  have up: "uint ?p = int (unat ?p)" by simp
  have a: "?a \<le> 2147483647" using s32_range by simp
  have cc: "unat (rt_cycle_count t + 1) = unat (rt_cycle_count t) + 1" using c(1) by (rule unat_Suc_32)
  have sp: "s64 (rt_sum_period t + uint ?p) = rt_sum_period t + uint ?p"
    using c(1-3) h(2,3) unfolding up p by (intro s64_id; linarith)
  have sa: "?a > 0 \<Longrightarrow> s64 (rt_sum_amplitude t + ?a) = rt_sum_amplitude t + ?a"
    using c(1,4,5) a by (intro s64_id; linarith)
  show "unat (rt_half_ticks u) = 1" "rt_last_relay_sign u = sg"
    by (simp_all add: u_def relay_switch_def Let_def)
  show "unat (rt_last_half_ticks u) \<le> max n (unat (rt_last_half_ticks t))"
    using n by (simp add: u_def relay_switch_def Let_def)
  show "unat (rt_cycle_count u) \<le> unat (rt_cycle_count t) + 1"
    using cc by (simp add: u_def relay_switch_def Let_def)
  show "0 \<le> rt_sum_period u \<and> rt_sum_period u \<le> 2000 * int (unat (rt_cycle_count u))"
    using c(2,3) cc sp p h(2,3) unfolding up
    by (simp add: u_def relay_switch_def Let_def up del: of_nat_unat)
  show "0 \<le> rt_sum_amplitude u \<and> rt_sum_amplitude u \<le> 2147483647 * int (unat (rt_cycle_count u))"
    using c(4,5) cc sa a by (simp add: u_def relay_switch_def Let_def del: of_nat_unat)
qed

lemma relay_sample_inv:
  assumes inv: "relay_inv t" and n: "unat (rt_sample_count t) = Suc k" "unat (rt_half_ticks t) \<le> k"
    "unat (rt_cycle_count t) \<le> k" "unat (rt_last_half_ticks t) \<le> k"
  shows "relay_inv (relay_sample err t)"
proof -
  let ?u = "(relay_peaks err t)\<lparr>rt_half_ticks := rt_half_ticks t + 1\<rparr>"
  have k: "k < 1000" using inv n(1) by (simp add: relay_inv_def)
  have h: "unat (rt_half_ticks t + 1) = Suc (unat (rt_half_ticks t))" using n(2) k by (simp add: unat_Suc_32)
  show ?thesis
  proof (cases "relay_sign err t = rt_last_relay_sign t")
    case True
    then show ?thesis using inv h n k by (simp add: relay_sample_def Let_def relay_inv_def)
  next
    case False
    have "unat (rt_half_ticks ?u) = Suc (unat (rt_half_ticks t))" using h by simp
    note c = relay_switch_counters [OF this, of err "relay_sign err t"]
    have "relay_sample err t = (relay_switch err (relay_sign err t) ?u)\<lparr>rt_prev_err := err\<rparr>"
      using False by (simp add: relay_sample_def Let_def)
    moreover have "rt_sample_count (relay_switch err (relay_sign err t) ?u) = rt_sample_count t"
      by (simp add: relay_switch_def Let_def)
    ultimately show ?thesis
      using c inv n k by (auto simp: relay_inv_def simp del: of_nat_unat)
  qed
qed

text \<open>The states a running tuner can be in, and the fixed parameters of a run.\<close>

definition tuning :: "pid_relay_tuner \<Rightarrow> bool" where
  "tuning t \<longleftrightarrow> rt_pid t \<and> rt_min_cycles t \<noteq> 0 \<and> rt_state t \<noteq> RELAY_IDLE
     \<and> (rt_state t = RELAY_RUNNING \<longrightarrow> relay_inv t)"

lemma finish_some:
  assumes "rt_cycle_count t \<noteq> 0" "unat (rt_cycle_count t) \<le> 1000"
  shows "\<exists>t' c'. relay_finish_tuning t c = Some (t', c') \<and> rt_state t' \<in> {RELAY_DONE, RELAY_FAILED}
    \<and> rt_pid t' = rt_pid t \<and> rt_min_cycles t' = rt_min_cycles t"
proof -
  have "unat (2 * rt_cycle_count t) = 2 * unat (rt_cycle_count t)" using assms(2) by (simp add: unat_word_ariths)
  then have "2 * rt_cycle_count t \<noteq> 0" using assms(1) by (auto simp: unat_eq_zero [symmetric] simp del: unat_eq_zero)
  then show ?thesis by (simp add: relay_finish_tuning_def Let_def)
qed

lemma relay_update_step:
  assumes t: "tuning t"
  shows "\<exists>u t' c'. pid_relay_update t c m = Some (u, t', c') \<and> tuning t'
    \<and> (rt_state t' = RELAY_RUNNING \<longrightarrow> rt_state t = RELAY_RUNNING \<and> c' = c
         \<and> unat (rt_sample_count t') = unat (rt_sample_count t) + 1)"
proof (cases "rt_state t = RELAY_RUNNING")
  case False
  then have "rt_state t = RELAY_DONE \<or> rt_state t = RELAY_FAILED" using t by (cases "rt_state t") (auto simp: tuning_def)
  then show ?thesis using t by (auto simp: pid_relay_update_def)
next
  case True
  let ?u = "t\<lparr>rt_sample_count := rt_sample_count t + 1\<rparr>" and ?err = "s32 (rt_set_point t - m)"
  let ?v = "relay_sample ?err ?u"
  have inv: "relay_inv t" "rt_pid t" "rt_min_cycles t \<noteq> 0" using t True by (auto simp: tuning_def)
  have sc: "unat (rt_sample_count t + 1) = Suc (unat (rt_sample_count t))"
    using inv(1) unat_Suc_32 by (simp add: relay_inv_def)
  note up = relay_update_running [OF True inv(2), of c m, unfolded Let_def]
  show ?thesis
  proof (cases "rt_sample_count ?u > RELAY_TIMEOUT_SAMPLES")
    case to: True
    then show ?thesis using up inv by (simp add: tuning_def)
  next
    case ok: False
    then have "unat (rt_sample_count t) < 1000" using sc by (simp add: word_less_nat_alt)
    then have "relay_inv ?u" using inv(1) sc by (auto simp: relay_inv_def simp del: of_nat_unat)
    from relay_sample_inv [OF this, of "unat (rt_sample_count t)" ?err]
    have v: "relay_inv ?v" using inv(1) sc by (simp add: relay_inv_def)
    show ?thesis
    proof (cases "rt_cycle_count ?v \<ge> rt_min_cycles ?v")
      case fin: True
      then have "rt_cycle_count ?v \<noteq> 0" using inv(3) by auto
      moreover have "unat (rt_cycle_count ?v) \<le> 1000" using v by (simp add: relay_inv_def)
      ultimately obtain t' c' where "relay_finish_tuning ?v c = Some (t', c')" "rt_state t' \<in> {RELAY_DONE, RELAY_FAILED}"
        "rt_pid t' = rt_pid ?v" "rt_min_cycles t' = rt_min_cycles ?v" using finish_some by metis
      then show ?thesis using up ok fin inv by (auto simp: tuning_def)
    next
      case run: False
      then show ?thesis using up ok v inv True sc by (auto simp: tuning_def)
    qed
  qed
qed

fun relay_run :: "int list \<Rightarrow> pid_relay_tuner \<Rightarrow> pid_positional \<Rightarrow> (pid_relay_tuner \<times> pid_positional) option" where
  "relay_run [] t c = Some (t, c)"
| "relay_run (m # ms) t c =
     (case pid_relay_update t c m of None \<Rightarrow> None | Some (u, t', c') \<Rightarrow> relay_run ms t' c')"

lemma relay_run_ends:
  "tuning t \<Longrightarrow> \<exists>t' c'. relay_run ms t c = Some (t', c') \<and> tuning t'
     \<and> (rt_state t' = RELAY_RUNNING \<longrightarrow> length ms + unat (rt_sample_count t) \<le> 1000)"
proof (induction ms arbitrary: t c)
  case Nil
  then show ?case by (auto simp: tuning_def relay_inv_def)
next
  case (Cons m ms)
  obtain u t' c' where s: "pid_relay_update t c m = Some (u, t', c')" "tuning t'"
    "rt_state t' = RELAY_RUNNING \<longrightarrow> rt_state t = RELAY_RUNNING \<and> unat (rt_sample_count t') = unat (rt_sample_count t) + 1"
    using relay_update_step [OF Cons.prems, of c m] by blast
  obtain t'' c'' where r: "relay_run ms t' c' = Some (t'', c'')" "tuning t''"
    "rt_state t'' = RELAY_RUNNING \<longrightarrow> length ms + unat (rt_sample_count t') \<le> 1000"
    using Cons.IH [OF s(2)] by blast
  have "rt_state t'' = RELAY_RUNNING \<longrightarrow> rt_state t' = RELAY_RUNNING"
  proof -
    have "rt_state x \<in> {RELAY_DONE, RELAY_FAILED} \<Longrightarrow> relay_run ys x y = Some (x, y)" for ys x y
      by (induction ys) (auto simp: pid_relay_update_def)
    then show ?thesis using r(1) s(2) by (cases "rt_state t'") (auto simp: tuning_def)
  qed
  then show ?case using s r by auto
qed

lemma cdiv_le: "0 \<le> a \<Longrightarrow> 0 < b \<Longrightarrow> a \<le> k * b \<Longrightarrow> 0 \<le> cdiv a b \<and> cdiv a b \<le> k"
  using zdiv_mono1 [of a "k * b" b] by (simp add: cdiv_nonneg pos_imp_zdiv_nonneg_iff)

text \<open>The gains that the Ziegler-Nichols rules give for an amplitude \<open>A\<close> and a period of \<open>T\<close> ticks.\<close>

definition zn_ku :: "int \<Rightarrow> int \<Rightarrow> int" where
  "zn_ku amp A = 115712 * amp div (355 * A)"

definition zn_kp :: "int \<Rightarrow> int \<Rightarrow> int" where
  "zn_kp amp A = 15 * zn_ku amp A div 100"

definition zn_ki :: "int \<Rightarrow> int \<Rightarrow> int \<Rightarrow> int" where
  "zn_ki amp A T = 1000 * zn_kp amp A div (10 * T)"

definition zn_kd :: "int \<Rightarrow> int \<Rightarrow> int \<Rightarrow> int" where
  "zn_kd amp A T = 10 * zn_kp amp A * T div 8000"

lemma zn_ku_exact:
  assumes "0 \<le> amp" "amp \<le> 100000" "0 < A"
  shows "0 \<le> zn_ku amp A" "zn_ku amp A \<le> 33000000"
    "s32 (cdiv (s64 (4 * amp * 113 * 256)) (355 * A)) = zn_ku amp A"
proof -
  show 0: "0 \<le> zn_ku amp A" using assms by (simp add: zn_ku_def pos_imp_zdiv_nonneg_iff)
  have "zn_ku amp A \<le> 115712 * amp div 355" unfolding zn_ku_def using assms by (intro zdiv_mono2) auto
  also have "\<dots> \<le> 115712 * 100000 div 355" using assms by (intro zdiv_mono1) auto
  finally show 1: "zn_ku amp A \<le> 33000000" by simp
  have "s64 (4 * amp * 113 * 256) = 115712 * amp" using assms by (subst s64_id) auto
  moreover have "cdiv (115712 * amp) (355 * A) = zn_ku amp A" using assms by (simp add: cdiv_nonneg zn_ku_def)
  ultimately show "s32 (cdiv (s64 (4 * amp * 113 * 256)) (355 * A)) = zn_ku amp A" using 0 1 by (simp add: s32_id)
qed

lemma zn_kp_exact:
  assumes "0 \<le> amp" "amp \<le> 100000" "0 < A"
  shows "0 \<le> zn_kp amp A" "zn_kp amp A \<le> 5000000" "cdiv (s32 (zn_ku amp A * 15)) 100 = zn_kp amp A"
  using zn_ku_exact [OF assms] by (auto simp: zn_kp_def s32_id cdiv_nonneg mult.commute)

lemma zn_ki_kd_exact:
  assumes a: "0 \<le> amp" "amp \<le> 100000" "0 < A" and t: "0 < T" "T \<le> 2000"
  shows "0 \<le> zn_ki amp A T" "s32 (cdiv (1000 * zn_kp amp A) (T * 10)) = zn_ki amp A T"
    "0 \<le> zn_kd amp A T" "s32 (cdiv (s64 (zn_kp amp A * T * 10)) 8000) = zn_kd amp A T"
proof -
  note kp = zn_kp_exact [OF a]
  have "zn_ki amp A T \<le> 1000 * zn_kp amp A div 10" unfolding zn_ki_def using kp t by (intro zdiv_mono2) auto
  moreover show "0 \<le> zn_ki amp A T" using kp t by (simp add: zn_ki_def pos_imp_zdiv_nonneg_iff)
  moreover have "cdiv (1000 * zn_kp amp A) (T * 10) = zn_ki amp A T"
    using kp t by (simp add: cdiv_nonneg zn_ki_def mult.commute)
  ultimately show "s32 (cdiv (1000 * zn_kp amp A) (T * 10)) = zn_ki amp A T"
    using kp by (simp add: s32_id)
  have "zn_kp amp A * T \<le> 5000000 * 2000" "0 \<le> zn_kp amp A * T"
    using mult_mono [OF kp(2) t(2)] kp t by auto
  then show "s32 (cdiv (s64 (zn_kp amp A * T * 10)) 8000) = zn_kd amp A T" "0 \<le> zn_kd amp A T"
    by (simp_all add: s64_id cdiv_nonneg zn_kd_def mult_ac s32_id)
qed

lemma relay_averages:
  assumes inv: "relay_inv t" and cc: "rt_cycle_count t \<noteq> 0"
  defines "n \<equiv> uint (rt_cycle_count t)"
  shows "2 * rt_cycle_count t \<noteq> 0"
    "s32 (cdiv (rt_sum_period t) (uint (2 * rt_cycle_count t))) = rt_sum_period t div n div 2"
    "s32 (cdiv (rt_sum_period t) n) = rt_sum_period t div n" "rt_sum_period t div n \<le> 2000"
    "s32 (cdiv (rt_sum_amplitude t) n) = rt_sum_amplitude t div n"
proof -
  have n3: "n = int (unat (rt_cycle_count t))" by (simp add: n_def)
  have "0 < unat (rt_cycle_count t)" using cc by (simp add: unat_gt_0)
  then have n: "0 < n" "n \<le> 1000" using inv by (auto simp: n3 relay_inv_def simp del: of_nat_unat)
  have "unat (2 * rt_cycle_count t) = 2 * unat (rt_cycle_count t)"
    using inv by (simp add: unat_word_ariths relay_inv_def)
  then have n2: "uint (2 * rt_cycle_count t) = n * 2" by (simp add: n3 uint_nat del: of_nat_unat)
  then show "2 * rt_cycle_count t \<noteq> 0" using n(1) by auto
  have P: "0 \<le> rt_sum_period t" "rt_sum_period t \<le> 2000 * n" "0 \<le> rt_sum_amplitude t"
    "rt_sum_amplitude t \<le> 2147483647 * n"
    using inv by (auto simp: relay_inv_def n3 simp del: of_nat_unat)
  show "s32 (cdiv (rt_sum_period t) (uint (2 * rt_cycle_count t))) = rt_sum_period t div n div 2"
    using cdiv_le [OF P(1), of "n * 2" 1000] P n zdiv_zmult2_eq [of 2 "rt_sum_period t" n]
    by (auto simp: n2 cdiv_nonneg intro!: s32_id)
  show "s32 (cdiv (rt_sum_period t) n) = rt_sum_period t div n" "rt_sum_period t div n \<le> 2000"
    using cdiv_le [OF P(1) n(1) P(2)] P n by (auto simp: cdiv_nonneg intro!: s32_id)
  show "s32 (cdiv (rt_sum_amplitude t) n) = rt_sum_amplitude t div n"
    using cdiv_le [OF P(3) n(1) P(4)] P n by (auto simp: cdiv_nonneg intro!: s32_id)
qed

lemma finish_gains:
  assumes inv: "relay_inv t" and cc: "rt_cycle_count t \<noteq> 0" and amp: "0 \<le> rt_relay_amp t" "rt_relay_amp t \<le> 100000"
    and fin: "relay_finish_tuning t c = Some (t', c')" and don: "rt_state t' = RELAY_DONE"
  defines "A \<equiv> rt_sum_amplitude t div uint (rt_cycle_count t)" and "T \<equiv> rt_sum_period t div uint (rt_cycle_count t)"
  shows "0 < A" "0 < T" "T \<le> 2000"
    "t' = t\<lparr>rt_ku := zn_ku (rt_relay_amp t) A, rt_tu := T, rt_state := RELAY_DONE\<rparr>"
    "c' = pid_positional_reset (c\<lparr>p_kp := zn_kp (rt_relay_amp t) A, p_ki := zn_ki (rt_relay_amp t) A T,
       p_kd := zn_kd (rt_relay_amp t) A T\<rparr>)"
proof -
  note av = relay_averages [OF inv cc, folded A_def T_def]
  note F = fin [unfolded relay_finish_tuning_def Let_def av(2,3,5)]
  have AT: "0 < A" "0 < T div 2" using F av(1) don by (auto split: if_splits)
  show A: "0 < A" and T: "0 < T" "T \<le> 2000" using AT av(4) by auto
  show "t' = t\<lparr>rt_ku := zn_ku (rt_relay_amp t) A, rt_tu := T, rt_state := RELAY_DONE\<rparr>"
    "c' = pid_positional_reset (c\<lparr>p_kp := zn_kp (rt_relay_amp t) A, p_ki := zn_ki (rt_relay_amp t) A T,
       p_kd := zn_kd (rt_relay_amp t) A T\<rparr>)"
    using F av(1) don AT T zn_ku_exact(3) [OF amp A] zn_kp_exact(3) [OF amp A] zn_ki_kd_exact(2,4) [OF amp A T]
    by (auto split: if_splits)
qed

lemma relay_done_finish:
  assumes "tuning t" "rt_state t = RELAY_RUNNING"
    and "pid_relay_update t c m = Some (u, t', c')" "rt_state t' = RELAY_DONE"
  obtains v where "relay_inv v" "rt_cycle_count v \<noteq> 0" "rt_relay_amp v = rt_relay_amp t"
    "relay_finish_tuning v c = Some (t', c')" "u = 0"
proof -
  let ?u = "t\<lparr>rt_sample_count := rt_sample_count t + 1\<rparr>" and ?err = "s32 (rt_set_point t - m)"
  let ?v = "relay_sample ?err ?u"
  have t: "rt_pid t" "relay_inv t" "rt_min_cycles t \<noteq> 0" using assms(1,2) by (auto simp: tuning_def)
  note up = relay_update_running [OF assms(2) t(1), of c m, unfolded Let_def]
  have ok1: "\<not> rt_sample_count ?u > RELAY_TIMEOUT_SAMPLES" using up assms(3,4) by (auto simp del: relay_sample_fields)
  then have ok2: "rt_cycle_count ?v \<ge> rt_min_cycles ?v" using up assms(2-4) by (auto split: if_splits)
  then have "map_option (\<lambda>(t, c). (0, t, c)) (relay_finish_tuning ?v c) = Some (u, t', c')"
    using up ok1 assms(3) by simp
  then have ok3: "relay_finish_tuning ?v c = Some (t', c')" "u = 0" by auto
  have sc: "unat (rt_sample_count t + 1) = Suc (unat (rt_sample_count t))"
    using t(2) unat_Suc_32 by (simp add: relay_inv_def)
  then have "unat (rt_sample_count t) < 1000" using ok1 by (simp add: word_less_nat_alt)
  then have "relay_inv ?u" using t(2) sc by (auto simp: relay_inv_def simp del: of_nat_unat)
  from relay_sample_inv [OF this, of "unat (rt_sample_count t)" ?err]
  have "relay_inv ?v" using t(2) sc by (simp add: relay_inv_def)
  moreover have "rt_cycle_count ?v \<noteq> 0" using ok2 t(3) by auto
  ultimately show thesis using that ok3 by simp
qed

section \<open>Properties\<close>

text \<open>C16.  Whatever the measurements, set points, preloads and resets are, and however the arithmetic
wraps, every controller output lies between the output limits, one output differs from the one
before by at most the slew rate, and the integral stays between its limits.\<close>

theorem pid_always_bounded:
  assumes "pid_ready c" "pid_positional_update (fold pid_step es c) sp m dt = (u, c')"
  shows "p_out_min (fold pid_step es c) \<le> u \<and> u \<le> p_out_max (fold pid_step es c) \<and> p_prev_output c' = u
    \<and> (p_slew_rate (fold pid_step es c) > 0 \<longrightarrow>
         \<bar>u - p_prev_output (fold pid_step es c)\<bar> \<le> p_slew_rate (fold pid_step es c))
    \<and> p_int_min c' * 256 \<le> p_integral c' \<and> p_integral c' \<le> p_int_max c' * 256"
proof -
  have "pid_ready (fold pid_step es c)" by (rule pid.run_inv [OF assms(1)])
  then show ?thesis using update_bounds [OF _ assms(2)] by (auto simp: pid_ready_def pid_ok_def)
qed

theorem pid_always_bounded_witness:
  "let c = fold pid_step [Preload 4000, Sample 900 2147483647 10, Reset_pid, Sample 900 0 10] (pid_positional_init 768 38 26)
   in - 10000 \<le> fst (pid_positional_update c 900 (- 2147483648) 10) \<and> fst (pid_positional_update c 900 (- 2147483648) 10) \<le> 10000"
proof -
  let ?c = "fold pid_step [Preload 4000, Sample 900 2147483647 10, Reset_pid, Sample 900 0 10] (pid_positional_init 768 38 26)"
  have "p_out_min ?c = - 10000" "p_out_max ?c = 10000" by code_simp+
  then show ?thesis
    using pid_always_bounded [OF pid_init_ready surjective_pairing,
        of "[Preload 4000, Sample 900 2147483647 10, Reset_pid, Sample 900 0 10]" 768 38 26 900 "- 2147483648" 10]
    unfolding Let_def by simp
qed

text \<open>C17.  For gains below 128 and speeds below 30000, and over any number of samples, the 32- and
64-bit controller computes exactly the positional algorithm on unbounded integers.\<close>

theorem pid_refines_ideal:
  assumes "pid_small c" "\<forall>(sp, m)\<in>set xs. speed sp \<and> speed m"
  shows "fold (\<lambda>(sp, m) c. snd (pid_positional_update c sp m 10)) xs c = fold (\<lambda>(sp, m) c. snd (ideal_update c sp m)) xs c
    \<and> (\<forall>sp m. speed sp \<longrightarrow> speed m \<longrightarrow>
         pid_positional_update (fold (\<lambda>(sp, m) c. snd (ideal_update c sp m)) xs c) sp m 10
           = ideal_update (fold (\<lambda>(sp, m) c. snd (ideal_update c sp m)) xs c) sp m)"
  using assms
proof (induction xs arbitrary: c)
  case Nil
  then show ?case using update_exact by simp
next
  case (Cons x xs)
  obtain sp m where x: "x = (sp, m)" by fastforce
  then have b: "speed sp" "speed m" using Cons.prems(2) by auto
  show ?case
    using Cons.IH [OF ideal_keeps_small [OF Cons.prems(1) b]] Cons.prems(2) update_exact [OF Cons.prems(1) b]
    by (simp add: x)
qed

lemma pid_init_small: "pid_small (pid_positional_init 768 38 26)"
  using pid_init_ready by (simp add: pid_small_def pid_positional_init_def speed_def)

theorem pid_refines_ideal_witness:
  "fold (\<lambda>(sp, m) c. snd (pid_positional_update c sp m 10)) [(900, 0), (900, 450)] (pid_positional_init 768 38 26)
   = fold (\<lambda>(sp, m) c. snd (ideal_update c sp m)) [(900, 0), (900, 450)] (pid_positional_init 768 38 26)"
  using pid_refines_ideal [OF pid_init_small, of "[(900, 0), (900, 450)]"] by (simp add: speed_def)

text \<open>C18.  Bumpless transfer: after \<open>pid_positional_set_output\<close> with a value inside both limits, the
next update at zero error and an unchanged measurement returns that value, with or without a
deadband.\<close>

theorem pid_bumpless:
  assumes "pid_ready c" "p_int_min c \<le> u" "u \<le> p_int_max c" "p_out_min c \<le> u" "u \<le> p_out_max c"
  shows "fst (pid_positional_update (pid_positional_set_output c u) (p_prev_meas c) (p_prev_meas c) dt) = u"
proof -
  let ?c = "pid_positional_set_output c u"
  have ok: "pid_ok c" "pid_ok ?c"
    using assms(1) pid_ready_step [of c "Preload u"] by (auto simp: pid_ready_def)
  have s: "s64 (u * 256) = u * 256" using assms ok(1) by (intro s64_id) (auto simp: pid_ok_def)
  have c: "p_integral ?c = u * 256" "p_prev_output ?c = u" "p_d_filtered ?c = 0" "p_prev_meas ?c = p_prev_meas c"
    "p_int_min ?c = p_int_min c" "p_int_max ?c = p_int_max c" "p_out_min ?c = p_out_min c" "p_out_max ?c = p_out_max c"
    using assms clamp_integral_eq [OF ok(1)] by (simp_all add: pid_positional_set_output_def clamp_def s)
  have u: "s32 u = u" using assms ok(1) by (intro s32_id) (auto simp: pid_ok_def)
  have z: "s32 0 = 0" "s64 0 = 0" by (simp_all add: s32_id s64_id)
  show ?thesis
  proof (cases "in_deadband ?c 0")
    case True
    then show ?thesis using c(2) by (simp add: pid_positional_update_def z)
  next
    case False
    have "filter_d ?c (p_prev_meas c) = 0" by (simp add: filter_d_def c z asr_def)
    moreover have "clamp_integral ?c (u * 256) = u * 256"
      using assms c by (simp add: clamp_integral_eq [OF ok(2)] clamp_def)
    moreover have "slew ?c u = u" using assms slew_eq [OF ok(2), of u] c ok(2) by (auto simp: clamp_def pid_ok_def)
    moreover have "\<not> windup ?c 0 0" by (simp add: windup_def)
    ultimately show ?thesis
      using False assms c u s
      by (simp add: pid_positional_update_def Let_def z asr_def clamp_id)
  qed
qed

theorem pid_bumpless_witness:
  "fst (pid_positional_update (pid_positional_set_output (pid_positional_init 768 38 26) 3100) 0 0 10) = 3100"
  using pid_bumpless [OF pid_init_ready, of 768 38 26 3100 10] by (simp add: pid_positional_init_def)



text \<open>C20.  When the tuner is done, the gains written to the controller are the Ziegler-Nichols ones of
the averaged amplitude and period, computed without overflow and none of them negative, and the
controller is reset and stays well-formed.\<close>

theorem relay_gains:
  assumes "tuning t" "rt_state t = RELAY_RUNNING" "0 \<le> rt_relay_amp t" "rt_relay_amp t \<le> 100000" "pid_ready c"
    and "pid_relay_update t c m = Some (u, t', c')" "rt_state t' = RELAY_DONE"
  defines "A \<equiv> rt_sum_amplitude t' div uint (rt_cycle_count t')" and "T \<equiv> rt_sum_period t' div uint (rt_cycle_count t')"
  shows "u = 0 \<and> 0 < A \<and> 0 < T \<and> T \<le> 2000 \<and> rt_tu t' = T
    \<and> rt_ku t' = 4 * 113 * 256 * rt_relay_amp t div (355 * A)
    \<and> p_kp c' = 15 * rt_ku t' div 100 \<and> 0 \<le> p_kp c'
    \<and> p_ki c' = 1000 * p_kp c' div (10 * T) \<and> 0 \<le> p_ki c'
    \<and> p_kd c' = 10 * p_kp c' * T div 8000 \<and> 0 \<le> p_kd c'
    \<and> p_integral c' = 0 \<and> p_prev_output c' = 0 \<and> pid_ready c'"
proof -
  obtain v where v: "relay_inv v" "rt_cycle_count v \<noteq> 0" "rt_relay_amp v = rt_relay_amp t"
    "relay_finish_tuning v c = Some (t', c')" "u = 0"
    using relay_done_finish [OF assms(1,2,6,7)] .
  have amp: "0 \<le> rt_relay_amp v" "rt_relay_amp v \<le> 100000" using assms(3,4) v(3) by simp_all
  note g = finish_gains [OF v(1,2) amp v(4) assms(7)]
  have AT: "A = rt_sum_amplitude v div uint (rt_cycle_count v)" "T = rt_sum_period v div uint (rt_cycle_count v)"
    unfolding A_def T_def g(4) by simp_all
  note g' = g [folded AT, unfolded v(3)]
  note z = zn_kp_exact [OF assms(3,4) g'(1)] zn_ki_kd_exact [OF assms(3,4) g'(1-3)]
  have c': "p_kp c' = zn_kp (rt_relay_amp t) A" "p_ki c' = zn_ki (rt_relay_amp t) A T" "p_kd c' = zn_kd (rt_relay_amp t) A T"
    "p_integral c' = 0" "p_prev_output c' = 0"
    unfolding g'(5) by (simp_all add: pid_positional_reset_def)
  have t': "rt_ku t' = zn_ku (rt_relay_amp t) A" "rt_tu t' = T" unfolding g'(4) by simp_all
  have "pid_ready c'" using assms(5) pid_ready_step [of "c\<lparr>p_kp := x, p_ki := y, p_kd := w\<rparr>" Reset_pid for x y w]
    unfolding g'(5) by (simp add: pid_ready_def pid_ok_def)
  moreover have "zn_ku (rt_relay_amp t) A = 4 * 113 * 256 * rt_relay_amp t div (355 * A)" by (simp add: zn_ku_def)
  moreover have "zn_kp (rt_relay_amp t) A = 15 * zn_ku (rt_relay_amp t) A div 100" by (simp add: zn_kp_def)
  moreover have "zn_ki (rt_relay_amp t) A T = 1000 * zn_kp (rt_relay_amp t) A div (10 * T)" by (simp add: zn_ki_def)
  moreover have "zn_kd (rt_relay_amp t) A T = 10 * zn_kp (rt_relay_amp t) A * T div 8000" by (simp add: zn_kd_def)
  ultimately show ?thesis unfolding c' t' using v(5) g'(1-3) z by blast
qed

text \<open>A tuner in the low half of its only cycle, one sample before the relay goes high again.\<close>

definition demo_tuner :: pid_relay_tuner where
  "demo_tuner = (pid_relay_start (pid_relay_init True 2000 3000 900 1) (pid_positional_init 768 38 26))
     \<lparr>rt_sample_count := 40, rt_last_relay_sign := - 1, rt_half_ticks := 20, rt_last_half_ticks := 20,
       rt_last_peak_pos := 100, rt_peak_neg := - 100\<rparr>"

theorem relay_gains_witness:
  "\<exists>t' c'. pid_relay_update demo_tuner (pid_positional_init 768 38 26) 800 = Some (0, t', c') \<and> 0 \<le> p_kp c' \<and> pid_ready c'"
proof -
  have f: "case pid_relay_update demo_tuner (pid_positional_init 768 38 26) 800 of
      Some (u, t', c') \<Rightarrow> rt_state t' = RELAY_DONE | None \<Rightarrow> False" by code_simp
  have s: "rt_state demo_tuner = RELAY_RUNNING" "0 \<le> rt_relay_amp demo_tuner" "rt_relay_amp demo_tuner \<le> 100000"
    "tuning demo_tuner"
    by (simp_all add: demo_tuner_def pid_relay_start_def pid_relay_init_def tuning_def relay_inv_def)
  obtain u t' c' where "pid_relay_update demo_tuner (pid_positional_init 768 38 26) 800 = Some (u, t', c')"
    "rt_state t' = RELAY_DONE"
    using f by (cases "pid_relay_update demo_tuner (pid_positional_init 768 38 26) 800") auto
  from this relay_gains [OF s(4,1-3) pid_init_ready this] show ?thesis by blast
qed

end
