(* ===== verification/Tlc5971.thy ===== *)
theory Tlc5971
  imports Kinetis_Prelude
begin

text \<open>
  The driver of the TLC5971 LED chips, \<^verbatim>\<open>drivers/kinetis/tlc5971.c\<close> with
  \<^verbatim>\<open>include/kinetis/tlc5971.h\<close>.  A chain of chips is fed over one SPI bus; the bus functions
  \<open>write_bytes\<close> and \<open>ndelay\<close> belong to the board and are the fields of \<open>spi_bus\<close>, over a state \<open>'b\<close>
  of the board.  Buffers written through an \<open>out\<close> pointer are the bytes returned.
\<close>

section \<open>State\<close>

record tlc5971_led =
  led_r :: u16
  led_g :: u16
  led_b :: u16

record tlc5971_slot =
  slot_led :: "tlc5971_led list"

record tlc5971_device =
  dev_spi :: bool
  num_devices :: u32
  outtmg :: u8
  extgck :: u8
  tmgrst :: u8
  dsprpt :: u8
  blank :: u8
  bcr :: u8
  bcg :: u8
  bcb :: u8
  sck_period_ns :: u32
  slots :: "tlc5971_slot list"
  frame_buf :: "u8 list"

record 'b spi_bus =
  write_bytes :: "u8 list \<Rightarrow> 'b \<Rightarrow> int \<times> 'b"
  ndelay :: "u64 \<Rightarrow> 'b \<Rightarrow> 'b"

abbreviation TLC5971_LEDS_PER_DEVICE :: nat where "TLC5971_LEDS_PER_DEVICE \<equiv> 4"
abbreviation TLC5971_PACKET_BYTES :: nat where "TLC5971_PACKET_BYTES \<equiv> 28"
abbreviation TLC5971_WRITE_CMD :: u8 where "TLC5971_WRITE_CMD \<equiv> 0x25"
abbreviation TLC5971_MAX_WRITE_BYTES :: u32 where "TLC5971_MAX_WRITE_BYTES \<equiv> 255"
abbreviation TLC5971_DEFAULT_SCK_NS :: u32 where "TLC5971_DEFAULT_SCK_NS \<equiv> 50"
abbreviation TLC5971_LATCH_GAP_NS :: u64 where "TLC5971_LATCH_GAP_NS \<equiv> 1340"
abbreviation tlc5971_zero_buf :: "u8 list" where "tlc5971_zero_buf \<equiv> replicate 255 0"

definition zero_slot :: tlc5971_slot where
  "zero_slot = \<lparr>slot_led = replicate TLC5971_LEDS_PER_DEVICE \<lparr>led_r = 0, led_g = 0, led_b = 0\<rparr>\<rparr>"

definition zero_device :: tlc5971_device where
  "zero_device = \<lparr>dev_spi = False, num_devices = 0, outtmg = 0, extgck = 0, tmgrst = 0, dsprpt = 0,
     blank = 0, bcr = 0, bcg = 0, bcb = 0, sck_period_ns = 0, slots = [], frame_buf = []\<rparr>"

text \<open>The double negation of C.\<close>

definition flag :: "u8 \<Rightarrow> u8" where
  "flag x = of_bool (x \<noteq> 0)"

section \<open>Writing to the bus\<close>

function write_chunks ::
  "'b spi_bus \<Rightarrow> u8 list \<Rightarrow> u32 \<Rightarrow> u32 \<Rightarrow> 'b \<Rightarrow> int \<times> 'b" where
  "write_chunks spi buf len offset b =
     (if offset < len
      then
        let remaining = len - offset;
            chunk = (if remaining < TLC5971_MAX_WRITE_BYTES then remaining else TLC5971_MAX_WRITE_BYTES);
            (ret, b) = write_bytes spi (take (unat (ucast chunk :: u8)) (drop (unat offset) buf)) b
        in if ret \<noteq> 0 then (ret, b) else write_chunks spi buf len (offset + chunk) b
      else (0, b))"
  by pat_completeness auto
termination
proof (relation "measure (\<lambda>(_, _, len, offset, _). unat (len - offset))")
  fix spi :: "'b spi_bus" and buf :: "u8 list" and len offset remaining chunk :: u32 and b b' :: 'b and x ret
  assume a: "offset < len" "remaining = len - offset"
    "chunk = (if remaining < TLC5971_MAX_WRITE_BYTES then remaining else TLC5971_MAX_WRITE_BYTES)"
  then have "chunk \<le> len - offset" "0 < chunk" by (auto simp: word_neq_0_conv [symmetric])
  then have "unat (len - offset - chunk) < unat (len - offset)"
    by (simp add: unat_sub word_le_nat_alt word_less_nat_alt)
  then show "((spi, buf, len, offset + chunk, b'), (spi, buf, len, offset, b))
    \<in> measure (\<lambda>(_, _, len, offset, _). unat (len - offset))"
    by (simp add: diff_diff_eq)
qed simp

declare write_chunks.simps [simp del]

definition tlc5971_write_buf :: "'b spi_bus \<Rightarrow> u8 list option \<Rightarrow> u32 \<Rightarrow> 'b \<Rightarrow> int \<times> 'b" where
  "tlc5971_write_buf spi buf len b =
     (case buf of
        None \<Rightarrow> if len \<noteq> 0 then (- EINVAL, b) else (0, b)
      | Some bs \<Rightarrow> write_chunks spi bs len 0 b)"

section \<open>Packing a chip\<close>

definition tlc5971_pack_header :: "u8 \<Rightarrow> u8 \<Rightarrow> u8 \<Rightarrow> u8 \<Rightarrow> u8 \<Rightarrow> u8 \<Rightarrow> u8 \<Rightarrow> u8 \<Rightarrow> u8 list" where
  "tlc5971_pack_header ot eg tr dr bl cb cg cr =
     [push_bit 2 TLC5971_WRITE_CMD OR push_bit 1 (flag ot) OR flag eg,
      push_bit 7 (flag tr) OR push_bit 6 (flag dr) OR push_bit 5 (flag bl)
        OR drop_bit 2 (cb AND 0x7F),
      push_bit 6 (cb AND 0x03) OR drop_bit 1 (cg AND 0x7F),
      push_bit 7 (cg AND 0x01) OR (cr AND 0x7F)]"

definition tlc5971_pack_gs :: "u16 list \<Rightarrow> u16 list \<Rightarrow> u16 list \<Rightarrow> u8 list" where
  "tlc5971_pack_gs gs_r gs_g gs_b =
     concat (map (\<lambda>i. [ucast (drop_bit 8 (gs_b ! i)), ucast (gs_b ! i AND 0xFF),
                       ucast (drop_bit 8 (gs_g ! i)), ucast (gs_g ! i AND 0xFF),
                       ucast (drop_bit 8 (gs_r ! i)), ucast (gs_r ! i AND 0xFF)])
       (rev [0..<TLC5971_LEDS_PER_DEVICE]))"

definition tlc5971_serialize :: "tlc5971_device \<Rightarrow> nat \<Rightarrow> u8 list" where
  "tlc5971_serialize dev dev_idx =
     (let s = slots dev ! dev_idx;
          gs_r = map (\<lambda>i. led_r (slot_led s ! i)) [0..<TLC5971_LEDS_PER_DEVICE];
          gs_g = map (\<lambda>i. led_g (slot_led s ! i)) [0..<TLC5971_LEDS_PER_DEVICE];
          gs_b = map (\<lambda>i. led_b (slot_led s ! i)) [0..<TLC5971_LEDS_PER_DEVICE]
      in tlc5971_pack_header (outtmg dev) (extgck dev) (tmgrst dev) (dsprpt dev) (blank dev)
           (bcb dev) (bcg dev) (bcr dev) @ tlc5971_pack_gs gs_r gs_g gs_b)"

definition tlc5971_pack_chip_fc ::
  "u16 list \<Rightarrow> u16 list \<Rightarrow> u16 list \<Rightarrow> u8 \<Rightarrow> u8 \<Rightarrow> u8 \<Rightarrow> u8 \<Rightarrow> u8 \<Rightarrow> u8 \<Rightarrow> u8 \<Rightarrow> u8 \<Rightarrow> u8 list" where
  "tlc5971_pack_chip_fc gs_r gs_g gs_b ot eg tr dr bl cr cg cb =
     tlc5971_pack_header ot eg tr dr bl cb cg cr
     @ tlc5971_pack_gs gs_r gs_g gs_b"

definition tlc5971_pack_chip :: "u16 list \<Rightarrow> u16 list \<Rightarrow> u16 list \<Rightarrow> u8 list" where
  "tlc5971_pack_chip gs_r gs_g gs_b =
     tlc5971_pack_chip_fc gs_r gs_g gs_b 1 0 0 1 0 0x7F 0x7F 0x7F"

definition tlc5971_rgb8_to_gs :: "u8 \<Rightarrow> u16" where
  "tlc5971_rgb8_to_gs val = push_bit 8 (ucast val) OR ucast val"

section \<open>Latch gap and idle clocks\<close>

definition tlc5971_latch_pulse :: "'b spi_bus \<Rightarrow> u32 \<Rightarrow> 'b \<Rightarrow> 'b" where
  "tlc5971_latch_pulse spi period b = ndelay spi (ucast period * 8 + TLC5971_LATCH_GAP_NS) b"

function idle_chunks :: "'b spi_bus \<Rightarrow> u32 \<Rightarrow> 'b \<Rightarrow> int \<times> 'b" where
  "idle_chunks spi remaining b =
     (if remaining \<noteq> 0
      then
        let chunk = (if remaining < 255 then remaining else 255);
            (ret, b) = tlc5971_write_buf spi (Some tlc5971_zero_buf) chunk b
        in if ret \<noteq> 0 then (ret, b) else idle_chunks spi (remaining - chunk) b
      else (0, b))"
  by pat_completeness auto
termination
  by (relation "measure (\<lambda>(_, r, _). unat r)")
    (auto simp: unat_sub word_le_nat_alt word_less_nat_alt unat_gt_0)

declare idle_chunks.simps [simp del]

definition tlc5971_send_idle_bits :: "'b spi_bus \<Rightarrow> u32 \<Rightarrow> 'b \<Rightarrow> int \<times> 'b" where
  "tlc5971_send_idle_bits spi n_bits b =
     (if n_bits AND 7 \<noteq> 0 then (- EINVAL, b) else idle_chunks spi (n_bits div 8) b)"

section \<open>The device\<close>

text \<open>The two flags say whether the allocations of the slots and of the frame buffer succeed; a
missing device or bus is \<open>None\<close> and \<open>False\<close>.\<close>

definition tlc5971_init ::
  "bool \<Rightarrow> bool \<Rightarrow> tlc5971_device option \<Rightarrow> bool \<Rightarrow> u32 \<Rightarrow> int \<times> tlc5971_device option" where
  "tlc5971_init slots_ok frame_ok dev spi n =
     (if dev = None \<or> \<not> spi \<or> n = 0 then (- EINVAL, dev)
      else if n > 0xFFFFFFFF div 24 \<or> n > 0xFFFFFFFF div of_nat TLC5971_PACKET_BYTES
      then (- EOVERFLOW, dev)
      else if \<not> slots_ok \<or> \<not> frame_ok then (- ENOMEM, Some zero_device)
      else (0, Some (zero_device\<lparr>dev_spi := True, num_devices := n, outtmg := 1, extgck := 0,
        tmgrst := 0, dsprpt := 0, blank := 0, bcr := 0x7F, bcg := 0x7F, bcb := 0x7F,
        sck_period_ns := TLC5971_DEFAULT_SCK_NS, slots := replicate (unat n) zero_slot,
        frame_buf := replicate (unat n * TLC5971_PACKET_BYTES) 0\<rparr>)))"

definition tlc5971_exit :: "tlc5971_device option \<Rightarrow> tlc5971_device option" where
  "tlc5971_exit dev = map_option (\<lambda>_. zero_device) dev"

definition tlc5971_set_fc :: "u8 \<Rightarrow> u8 \<Rightarrow> u8 \<Rightarrow> u8 \<Rightarrow> u8 \<Rightarrow> tlc5971_device \<Rightarrow> tlc5971_device" where
  "tlc5971_set_fc rpt rst ext out bl dev =
     dev\<lparr>dsprpt := flag rpt, tmgrst := flag rst, extgck := flag ext, outtmg := flag out, blank := flag bl\<rparr>"

definition tlc5971_set_brightness_control :: "u8 \<Rightarrow> u8 \<Rightarrow> u8 \<Rightarrow> tlc5971_device \<Rightarrow> tlc5971_device" where
  "tlc5971_set_brightness_control r g b dev = dev\<lparr>bcr := r AND 0x7F, bcg := g AND 0x7F, bcb := b AND 0x7F\<rparr>"

definition tlc5971_set_blank :: "u8 \<Rightarrow> tlc5971_device \<Rightarrow> tlc5971_device" where
  "tlc5971_set_blank bl dev = dev\<lparr>blank := flag bl\<rparr>"

definition tlc5971_set_sck_period_ns :: "u32 \<Rightarrow> tlc5971_device \<Rightarrow> int \<times> tlc5971_device" where
  "tlc5971_set_sck_period_ns p dev = (if p = 0 then (- EINVAL, dev) else (0, dev\<lparr>sck_period_ns := p\<rparr>))"

definition tlc5971_set_led ::
  "u32 \<Rightarrow> u8 \<Rightarrow> u16 \<Rightarrow> u16 \<Rightarrow> u16 \<Rightarrow> tlc5971_device \<Rightarrow> int \<times> tlc5971_device" where
  "tlc5971_set_led dev_idx led_idx r g b dev =
     (if dev_idx \<ge> num_devices dev \<or> unat led_idx \<ge> TLC5971_LEDS_PER_DEVICE then (- EINVAL, dev)
      else
        let s = slots dev ! unat dev_idx
        in (0, dev\<lparr>slots := (slots dev)[unat dev_idx :=
             s\<lparr>slot_led := (slot_led s)[unat led_idx := \<lparr>led_r = r, led_g = g, led_b = b\<rparr>]\<rparr>]\<rparr>))"

definition set_led_at :: "u16 \<Rightarrow> u16 \<Rightarrow> u16 \<Rightarrow> nat \<Rightarrow> nat \<Rightarrow> tlc5971_slot list \<Rightarrow> tlc5971_slot list" where
  "set_led_at r g b d l ss =
     ss[d := (ss ! d)\<lparr>slot_led := (slot_led (ss ! d))[l := \<lparr>led_r = r, led_g = g, led_b = b\<rparr>]\<rparr>]"

definition tlc5971_set_all_leds :: "u16 \<Rightarrow> u16 \<Rightarrow> u16 \<Rightarrow> tlc5971_device \<Rightarrow> tlc5971_device" where
  "tlc5971_set_all_leds r g b dev =
     dev\<lparr>slots := fold (\<lambda>d. fold (set_led_at r g b d) [0..<TLC5971_LEDS_PER_DEVICE])
       [0..<unat (num_devices dev)] (slots dev)\<rparr>"

section \<open>Sending\<close>

definition store_packet :: "tlc5971_device \<Rightarrow> nat \<Rightarrow> u8 list \<Rightarrow> u8 list" where
  "store_packet dev i buf =
     take (i * TLC5971_PACKET_BYTES) buf @ tlc5971_serialize dev i
     @ drop (i * TLC5971_PACKET_BYTES + TLC5971_PACKET_BYTES) buf"

definition tlc5971_send :: "'b spi_bus \<Rightarrow> tlc5971_device \<Rightarrow> 'b \<Rightarrow> int \<times> tlc5971_device \<times> 'b" where
  "tlc5971_send spi dev b =
     (if num_devices dev > 0xFFFFFFFF div of_nat TLC5971_PACKET_BYTES then (- EOVERFLOW, dev, b)
      else
        let len = num_devices dev * of_nat TLC5971_PACKET_BYTES;
            dev = dev\<lparr>frame_buf := fold (store_packet dev) [0..<unat (num_devices dev)] (frame_buf dev)\<rparr>;
            (ret, b) = tlc5971_write_buf spi (Some (frame_buf dev)) len b
        in (ret, dev, b))"

definition tlc5971_send_latched :: "'b spi_bus \<Rightarrow> tlc5971_device \<Rightarrow> 'b \<Rightarrow> int \<times> tlc5971_device \<times> 'b" where
  "tlc5971_send_latched spi dev b =
     (case tlc5971_send spi dev b of (ret, dev, b) \<Rightarrow>
        if ret \<noteq> 0 then (ret, dev, b) else (0, dev, tlc5971_latch_pulse spi (sck_period_ns dev) b))"

definition tlc5971_send_internal_repeat ::
  "'b spi_bus \<Rightarrow> tlc5971_device \<Rightarrow> 'b \<Rightarrow> int \<times> tlc5971_device \<times> 'b" where
  "tlc5971_send_internal_repeat spi dev b = tlc5971_send_latched spi (tlc5971_set_fc 1 0 0 1 0 dev) b"

definition tlc5971_send_external_full_period ::
  "'b spi_bus \<Rightarrow> tlc5971_device \<Rightarrow> 'b \<Rightarrow> int \<times> tlc5971_device \<times> 'b" where
  "tlc5971_send_external_full_period spi dev b =
     (case tlc5971_send_latched spi (tlc5971_set_fc 0 1 1 1 0 dev) b of (ret, dev, b) \<Rightarrow>
        if ret \<noteq> 0 then (ret, dev, b)
        else case tlc5971_send_idle_bits spi 65536 b of (ret, b) \<Rightarrow> (ret, dev, b))"

definition tlc5971_send_external_long_chain ::
  "'b spi_bus \<Rightarrow> tlc5971_device \<Rightarrow> 'b \<Rightarrow> int \<times> tlc5971_device \<times> 'b" where
  "tlc5971_send_external_long_chain spi dev b =
     (if num_devices dev > 0xFFFFFFFF div 224 then (- EOVERFLOW, dev, b)
      else
        let shifted_bits = num_devices dev * 224
        in if shifted_bits > 65536 then (- ERANGE, dev, b)
           else case tlc5971_send_latched spi (tlc5971_set_fc 0 1 1 1 0 dev) b of (ret, dev, b) \<Rightarrow>
             if ret \<noteq> 0 then (ret, dev, b)
             else
               let idle_bits = 65536 - shifted_bits
               in if idle_bits = 0 then (0, dev, b)
                  else case tlc5971_send_idle_bits spi idle_bits b of (ret, b) \<Rightarrow> (ret, dev, b))"

definition tlc5971_send_timing1 :: "'b spi_bus \<Rightarrow> tlc5971_device \<Rightarrow> 'b \<Rightarrow> int \<times> tlc5971_device \<times> 'b" where
  "tlc5971_send_timing1 = tlc5971_send_internal_repeat"

definition tlc5971_send_timing2 :: "'b spi_bus \<Rightarrow> tlc5971_device \<Rightarrow> 'b \<Rightarrow> int \<times> tlc5971_device \<times> 'b" where
  "tlc5971_send_timing2 = tlc5971_send_external_full_period"

definition tlc5971_send_timing3 :: "'b spi_bus \<Rightarrow> tlc5971_device \<Rightarrow> 'b \<Rightarrow> int \<times> tlc5971_device \<times> 'b" where
  "tlc5971_send_timing3 = tlc5971_send_external_long_chain"

definition tlc5971_sync_with_scki :: "'b spi_bus \<Rightarrow> 'b \<Rightarrow> int \<times> 'b" where
  "tlc5971_sync_with_scki spi b = tlc5971_send_idle_bits spi 65536 b"

end
