(* ===== verification/Tlc5971_Correct.thy ===== *)
theory Tlc5971_Correct
  imports Tlc5971
begin

text \<open>
  The LED driver is correct.  The chunked writes are equal to a reference that cuts the buffer into
  pieces (\<open>write_seq\<close>); a packet reads back, by the layout in the head of the driver, as what was
  packed (\<open>decode_pack_chip_fc\<close>); the chain of chips is one shift register; and over any sequence of
  calls the device stays well-formed and shows the colours last set.
\<close>

section \<open>The bus\<close>

text \<open>What the driver relies on: a write that returns 0 has put exactly its bytes on the wire, and a
delay puts nothing on it.\<close>

definition bus_law :: "'b spi_bus \<Rightarrow> ('b \<Rightarrow> u8 list) \<Rightarrow> bool" where
  "bus_law spi wire \<longleftrightarrow> (\<forall>bs b. fst (write_bytes spi bs b) = 0 \<longrightarrow>
       wire (snd (write_bytes spi bs b)) = wire b @ bs)
     \<and> (\<forall>t b. wire (ndelay spi t b) = wire b)"

lemma bus_lawD:
  assumes "bus_law spi wire"
  shows "write_bytes spi bs b = (0, b') \<Longrightarrow> wire b' = wire b @ bs" "wire (ndelay spi t b) = wire b"
  using assms unfolding bus_law_def by (metis fst_conv snd_conv)+

text \<open>The reference: the buffer cut into pieces of 255 bytes, written one after the other until a write
fails.\<close>

fun pieces :: "u8 list \<Rightarrow> u8 list list" where
  "pieces xs = (if xs = [] then [] else take 255 xs # pieces (drop 255 xs))"

declare pieces.simps [simp del]

fun write_seq :: "'b spi_bus \<Rightarrow> u8 list list \<Rightarrow> 'b \<Rightarrow> int \<times> 'b" where
  "write_seq spi [] b = (0, b)"
| "write_seq spi (c # cs) b =
     (case write_bytes spi c b of (ret, b) \<Rightarrow> if ret \<noteq> 0 then (ret, b) else write_seq spi cs b)"

lemma pieces_Nil [simp]: "pieces [] = []"
  by (simp add: pieces.simps)

lemma concat_pieces [simp]: "concat (pieces xs) = xs"
  by (induction xs rule: pieces.induct) (subst pieces.simps, simp)

lemma pieces_sizes: "c \<in> set (pieces xs) \<Longrightarrow> 0 < length c \<and> length c \<le> 255"
  by (induction xs rule: pieces.induct) (subst (asm) (2) pieces.simps, auto split: if_splits)

lemma pieces_short: "length xs \<le> 255 \<Longrightarrow> pieces xs = (if xs = [] then [] else [xs])"
  by (subst pieces.simps) simp

lemma chunk_len:
  fixes remaining :: u32
  defines "chunk \<equiv> if remaining < 255 then remaining else 255"
  shows "unat (ucast chunk :: u8) = unat chunk" "unat chunk = min (unat remaining) 255"
    "chunk \<le> remaining"
proof -
  show c: "unat chunk = min (unat remaining) 255" by (auto simp: chunk_def word_less_nat_alt)
  then show "unat (ucast chunk :: u8) = unat chunk"
    by (simp add: unsigned_ucast_eq take_bit_nat_eq_self_iff)
  show "chunk \<le> remaining" using c by (simp add: word_le_nat_alt)
qed

lemma write_chunks_seq:
  assumes "offset \<le> len" "unat len \<le> length buf"
  shows "write_chunks spi buf len offset b
    = write_seq spi (pieces (take (unat len - unat offset) (drop (unat offset) buf))) b"
  using assms
proof (induction spi buf len offset b rule: write_chunks.induct)
  case (1 spi buf len offset b)
  define n where "n = unat len - unat offset"
  show ?case
  proof (cases "offset < len")
    case True
    define rem where "rem = len - offset"
    define chunk where "chunk = (if rem < 255 then rem else 255)"
    note c = chunk_len [of rem, folded chunk_def]
    have n: "unat rem = n" "0 < n" using True
      by (auto simp: rem_def n_def unat_sub order_less_imp_le word_less_nat_alt)
    have off: "unat (offset + chunk) = unat offset + min n 255"
      using c(2) n True by (subst unat_add_no_wrap) (use unat_lt_32 [of len] in \<open>auto simp: n_def word_less_nat_alt min_def\<close>)
    have p: "pieces (take n (drop (unat offset) buf))
        = take (unat chunk) (drop (unat offset) buf) # pieces (take (unat len - unat (offset + chunk)) (drop (unat (offset + chunk)) buf))"
      using n 1(3) c(2) unfolding off n_def
      by (subst pieces.simps) (auto simp: min_def drop_take take_all_iff word_less_nat_alt add.commute)
    have le: "offset + chunk \<le> len" using off n by (simp add: word_le_nat_alt n_def)
    have u: "write_chunks spi buf len offset b
        = (case write_bytes spi (take (unat chunk) (drop (unat offset) buf)) b of (ret, b) \<Rightarrow>
             if ret \<noteq> 0 then (ret, b) else write_chunks spi buf len (offset + chunk) b)"
      by (subst write_chunks.simps)
        (simp only: True if_True Let_def rem_def [symmetric] chunk_def [symmetric] c(1))
    show ?thesis
      using 1(1) [OF True rem_def chunk_def] le 1(3)
      unfolding n_def [symmetric] p u by (auto simp: c(1) split: prod.splits)
  next
    case False
    then show ?thesis using 1(2) by (subst write_chunks.simps) simp
  qed
qed

lemma write_buf_seq:
  "unat len \<le> length buf \<Longrightarrow> tlc5971_write_buf spi (Some buf) len b = write_seq spi (pieces (take (unat len) buf)) b"
  by (simp add: tlc5971_write_buf_def write_chunks_seq)

lemma idle_chunks_seq: "idle_chunks spi remaining b = write_seq spi (pieces (replicate (unat remaining) 0)) b"
proof (induction spi remaining b rule: idle_chunks.induct)
  case (1 spi remaining b)
  define chunk where "chunk = (if remaining < 255 then remaining else 255)"
  note c = chunk_len [of remaining, folded chunk_def]
  show ?case
  proof (cases "remaining = 0")
    case False
    have "unat (remaining - chunk) = unat remaining - unat chunk" using c(3) by (simp add: unat_sub)
    then have p: "pieces (replicate (unat remaining) 0) = replicate (unat chunk) 0 # pieces (replicate (unat (remaining - chunk)) 0)"
      using False c(2) by (subst pieces.simps) (auto simp: unat_eq_zero min_def)
    have "tlc5971_write_buf spi (Some tlc5971_zero_buf) chunk b = write_bytes spi (replicate (unat chunk) 0) b"
      using c(2) False by (subst write_buf_seq) (auto simp: pieces_short unat_eq_zero min_def split: prod.splits if_splits)
    then show ?thesis
      using 1 [OF False chunk_def] False unfolding p
      by (subst idle_chunks.simps) (auto simp: Let_def chunk_def [symmetric] split: prod.splits)
  next
    case True
    then show ?thesis by (subst idle_chunks.simps) simp
  qed
qed

lemma write_seq_wire:
  assumes "bus_law spi wire" "write_seq spi cs b = (0, b')"
  shows "wire b' = wire b @ concat cs"
  using assms(2)
proof (induction cs arbitrary: b)
  case (Cons c cs)
  obtain r b1 where w: "write_bytes spi c b = (r, b1)" by (cases "write_bytes spi c b")
  then show ?case using Cons bus_lawD(1) [OF assms(1), of c b b1] by (auto split: if_splits)
qed simp

section \<open>The chip\<close>

text \<open>What a chip reads from the 28 bytes in its shift register, after the bit layout in the head of
\<^verbatim>\<open>tlc5971.c\<close>: four bytes with the function and brightness control fields, then the colour values
from LED 3 down to LED 0, blue first and big-endian.\<close>

record chip =
  ch_write :: u8
  ch_outtmg :: bool
  ch_extgck :: bool
  ch_tmgrst :: bool
  ch_dsprpt :: bool
  ch_blank :: bool
  ch_bcb :: u8
  ch_bcg :: u8
  ch_bcr :: u8
  ch_led :: "tlc5971_led list"

definition be16 :: "u8 list \<Rightarrow> nat \<Rightarrow> u16" where
  "be16 p i = push_bit 8 (ucast (p ! i)) OR ucast (p ! (i + 1))"

definition chip_decode :: "u8 list \<Rightarrow> chip" where
  "chip_decode p =
     \<lparr>ch_write = drop_bit 2 (p ! 0), ch_outtmg = bit (p ! 0) 1, ch_extgck = bit (p ! 0) 0,
      ch_tmgrst = bit (p ! 1) 7, ch_dsprpt = bit (p ! 1) 6, ch_blank = bit (p ! 1) 5,
      ch_bcb = push_bit 2 (p ! 1 AND 0x1F) OR drop_bit 6 (p ! 2),
      ch_bcg = push_bit 1 (p ! 2 AND 0x3F) OR drop_bit 7 (p ! 3),
      ch_bcr = p ! 3 AND 0x7F,
      ch_led = map (\<lambda>i. \<lparr>led_r = be16 p (26 - 6 * i), led_g = be16 p (24 - 6 * i), led_b = be16 p (22 - 6 * i)\<rparr>)
        [0..<TLC5971_LEDS_PER_DEVICE]\<rparr>"

lemma lt_8_cases: "n < 8 \<longleftrightarrow> n = 0 \<or> n = 1 \<or> n = 2 \<or> n = 3 \<or> n = 4 \<or> n = 5 \<or> n = 6 \<or> n = (7 :: nat)"
  by auto

lemma byte_eqI: "(\<And>n. n < 8 \<Longrightarrow> bit x n \<longleftrightarrow> bit y n) \<Longrightarrow> x = (y :: u8)"
  by (rule bit_word_eqI) simp

lemmas bit_structure = bit_or_iff bit_and_iff bit_push_bit_iff bit_drop_bit_eq o_def bit_of_bool_iff flag_def

lemma be16_split: "push_bit 8 (ucast (ucast (drop_bit 8 x) :: u8)) OR ucast (ucast (x AND 0xFF) :: u8) = (x :: u16)"
proof (rule bit_word_eqI)
  fix n assume "n < LENGTH(16)"
  then have "n < 8 \<or> (n = 8 + (n - 8) \<and> n - 8 < 8)" by auto
  moreover have "bit (0xFF :: u16) n" if "n < 8"
    using that unfolding lt_8_cases by auto
  ultimately show "bit (push_bit 8 (ucast (ucast (drop_bit 8 x) :: u8)) OR ucast (ucast (x AND 0xFF) :: u8) :: u16) n \<longleftrightarrow> bit x n"
    by (auto simp only: bit_structure bit_unsigned_iff) simp_all
qed

lemma hd_bcb: "push_bit 2 ((push_bit 7 (flag t) OR push_bit 6 (flag d) OR push_bit 5 (flag b) OR drop_bit 2 (x AND 0x7F)) AND 0x1F)
    OR drop_bit 6 (push_bit 6 (x AND 0x03) OR drop_bit 1 (y AND 0x7F)) = x AND 0x7F"
  by (rule byte_eqI, unfold lt_8_cases, elim disjE; (simp only: bit_structure)?; simp add: bit_1_iff)

lemma hd_bcg: "push_bit 1 ((push_bit 6 (x AND 0x03) OR drop_bit 1 (y AND 0x7F)) AND 0x3F)
    OR drop_bit 7 (push_bit 7 (y AND 0x01) OR (z AND 0x7F)) = y AND (0x7F :: u8)"
  by (rule byte_eqI, unfold lt_8_cases, elim disjE; (simp only: bit_structure)?; simp add: bit_1_iff; simp add: eval_nat_numeral)

lemma hd_bcr: "(push_bit 7 (y AND 0x01) OR (z AND 0x7F)) AND 0x7F = z AND (0x7F :: u8)"
  by (rule byte_eqI, unfold lt_8_cases, elim disjE; (simp only: bit_structure)?; simp add: bit_1_iff)

lemma hd_write: "drop_bit 2 (push_bit 2 TLC5971_WRITE_CMD OR push_bit 1 (flag x) OR flag y) = TLC5971_WRITE_CMD"
  by (rule byte_eqI, unfold lt_8_cases, elim disjE; (simp only: bit_structure)?; simp add: bit_1_iff)

lemma hd_flags:
  "bit (push_bit 2 TLC5971_WRITE_CMD OR push_bit 1 (flag x) OR flag y) 1 \<longleftrightarrow> x \<noteq> 0"
  "bit (push_bit 2 TLC5971_WRITE_CMD OR push_bit 1 (flag x) OR flag y) 0 \<longleftrightarrow> y \<noteq> 0"
  "bit (push_bit 7 (flag t) OR push_bit 6 (flag d) OR push_bit 5 (flag b) OR drop_bit 2 (x AND 0x7F)) 7 \<longleftrightarrow> t \<noteq> 0"
  "bit (push_bit 7 (flag t) OR push_bit 6 (flag d) OR push_bit 5 (flag b) OR drop_bit 2 (x AND 0x7F)) 6 \<longleftrightarrow> d \<noteq> 0"
  "bit (push_bit 7 (flag t) OR push_bit 6 (flag d) OR push_bit 5 (flag b) OR drop_bit 2 (x AND 0x7F)) 5 \<longleftrightarrow> b \<noteq> 0"
  by (simp only: bit_structure, simp add: bit_1_iff)+

lemmas hd_fields = hd_write hd_flags hd_bcb hd_bcg hd_bcr

lemma pack_header_length [simp]: "length (tlc5971_pack_header ot eg tr dr bl cb cg cr) = 4"
  by (simp add: tlc5971_pack_header_def)

lemma upt_4: "[0..<4] = [0, 1, 2, 3 :: nat]"
  by code_simp

lemma pack_gs_explicit:
  "tlc5971_pack_gs r g b = concat (map (\<lambda>i. [ucast (drop_bit 8 (b ! i)), ucast (b ! i AND 0xFF),
     ucast (drop_bit 8 (g ! i)), ucast (g ! i AND 0xFF), ucast (drop_bit 8 (r ! i)), ucast (r ! i AND 0xFF)]) [3, 2, 1, 0])"
  by (simp add: tlc5971_pack_gs_def upt_4)

lemma pack_gs_length [simp]: "length (tlc5971_pack_gs r g b) = 24"
  by (simp add: pack_gs_explicit)

definition leds_of :: "u16 list \<Rightarrow> u16 list \<Rightarrow> u16 list \<Rightarrow> tlc5971_led list" where
  "leds_of r g b = map (\<lambda>i. \<lparr>led_r = r ! i, led_g = g ! i, led_b = b ! i\<rparr>) [0..<TLC5971_LEDS_PER_DEVICE]"

text \<open>A packed chip reads back as what was packed.\<close>

lemma decode_pack_chip_fc:
  "chip_decode (tlc5971_pack_chip_fc r g b ot eg tr dr bl cr cg cb)
   = \<lparr>ch_write = TLC5971_WRITE_CMD, ch_outtmg = (ot \<noteq> 0), ch_extgck = (eg \<noteq> 0), ch_tmgrst = (tr \<noteq> 0),
      ch_dsprpt = (dr \<noteq> 0), ch_blank = (bl \<noteq> 0), ch_bcb = cb AND 0x7F, ch_bcg = cg AND 0x7F,
      ch_bcr = cr AND 0x7F, ch_led = leds_of r g b\<rparr>"
proof -
  let ?p = "tlc5971_pack_chip_fc r g b ot eg tr dr bl cr cg cb"
  have h: "?p ! 0 = push_bit 2 TLC5971_WRITE_CMD OR push_bit 1 (flag ot) OR flag eg"
    "?p ! 1 = push_bit 7 (flag tr) OR push_bit 6 (flag dr) OR push_bit 5 (flag bl) OR drop_bit 2 (cb AND 0x7F)"
    "?p ! 2 = push_bit 6 (cb AND 0x03) OR drop_bit 1 (cg AND 0x7F)"
    "?p ! 3 = push_bit 7 (cg AND 0x01) OR (cr AND 0x7F)"
    by (simp_all add: tlc5971_pack_chip_fc_def tlc5971_pack_header_def)
  have p: "?p ! (k + 4) = tlc5971_pack_gs r g b ! k" for k
    by (simp add: tlc5971_pack_chip_fc_def nth_append)
  have "map (\<lambda>i. \<lparr>led_r = be16 ?p (26 - 6 * i), led_g = be16 ?p (24 - 6 * i), led_b = be16 ?p (22 - 6 * i)\<rparr>)
      [0..<TLC5971_LEDS_PER_DEVICE] = leds_of r g b"
    using p [of 0] p [of 1] p [of 2] p [of 3] p [of 4] p [of 5] p [of 6] p [of 7] p [of 8] p [of 9]
      p [of 10] p [of 11] p [of 12] p [of 13] p [of 14] p [of 15] p [of 16] p [of 17] p [of 18] p [of 19]
      p [of 20] p [of 21] p [of 22] p [of 23]
    unfolding be16_def leds_of_def by (simp add: pack_gs_explicit upt_4 be16_split)
  then show ?thesis unfolding chip_decode_def h hd_fields by simp
qed

lemma serialize_pack:
  "tlc5971_serialize dev i = tlc5971_pack_chip_fc
     (map (\<lambda>j. led_r (slot_led (slots dev ! i) ! j)) [0..<4]) (map (\<lambda>j. led_g (slot_led (slots dev ! i) ! j)) [0..<4])
     (map (\<lambda>j. led_b (slot_led (slots dev ! i) ! j)) [0..<4])
     (outtmg dev) (extgck dev) (tmgrst dev) (dsprpt dev) (blank dev) (bcr dev) (bcg dev) (bcb dev)"
  by (simp add: tlc5971_serialize_def tlc5971_pack_chip_fc_def Let_def)

lemma serialize_length [simp]: "length (tlc5971_serialize dev i) = 28"
  by (simp add: serialize_pack tlc5971_pack_chip_fc_def)

text \<open>What the chip of slot \<open>s\<close> is to show.\<close>

definition shown :: "tlc5971_device \<Rightarrow> tlc5971_slot \<Rightarrow> chip" where
  "shown dev s = \<lparr>ch_write = TLC5971_WRITE_CMD, ch_outtmg = (outtmg dev \<noteq> 0), ch_extgck = (extgck dev \<noteq> 0),
     ch_tmgrst = (tmgrst dev \<noteq> 0), ch_dsprpt = (dsprpt dev \<noteq> 0), ch_blank = (blank dev \<noteq> 0),
     ch_bcb = bcb dev AND 0x7F, ch_bcg = bcg dev AND 0x7F, ch_bcr = bcr dev AND 0x7F, ch_led = slot_led s\<rparr>"

lemma decode_serialize:
  assumes "length (slot_led (slots dev ! i)) = 4"
  shows "chip_decode (tlc5971_serialize dev i) = shown dev (slots dev ! i)"
proof -
  have "leds_of (map (\<lambda>j. led_r (slot_led (slots dev ! i) ! j)) [0..<4]) (map (\<lambda>j. led_g (slot_led (slots dev ! i) ! j)) [0..<4])
     (map (\<lambda>j. led_b (slot_led (slots dev ! i) ! j)) [0..<4]) = slot_led (slots dev ! i)"
    using assms by (auto simp: leds_of_def intro!: nth_equalityI)
  then show ?thesis by (simp add: serialize_pack decode_pack_chip_fc shown_def)
qed

section \<open>The chain\<close>

text \<open>The shift registers of the chips form one register; a byte enters at the chip next to the bus.
The register is listed from there on, and a chip reads its 28 bytes in the order they came.\<close>

definition shift_in :: "u8 \<Rightarrow> u8 list \<Rightarrow> u8 list" where
  "shift_in x reg = butlast (x # reg)"

definition chip_at :: "u8 list \<Rightarrow> nat \<Rightarrow> chip" where
  "chip_at reg j = chip_decode (rev (take 28 (drop (28 * j) reg)))"

lemma shift_in_all: "length xs \<le> length reg \<Longrightarrow> fold shift_in xs reg = rev xs @ take (length reg - length xs) reg"
proof (induction xs rule: rev_induct)
  case (snoc x xs)
  have "take (length reg - length xs) reg = take (length reg - Suc (length xs)) reg @ [reg ! (length reg - Suc (length xs))]"
    using snoc.prems by (subst take_Suc_conv_app_nth [symmetric]) (auto simp: Suc_diff_Suc)
  then show ?case using snoc by (auto simp: shift_in_def butlast_append)
qed simp

lemma packets_rev:
  assumes "\<forall>i<n. length (p i) = 28" "j < n"
  shows "take 28 (drop (28 * j) (rev (concat (map p [0..<n])))) = rev (p (n - 1 - j))"
  using assms
proof (induction n arbitrary: j)
  case (Suc n)
  then show ?case by (cases j) (auto simp: algebra_simps)
qed simp

lemma packets_length: "(\<forall>i<n. length (p i) = 28) \<Longrightarrow> length (concat (map p [0..<n])) = 28 * n"
  by (induction n) auto

lemma chip_at_chain:
  assumes "\<forall>i<n. length (p i) = 28" "j < n" "length reg = 28 * n"
  shows "chip_at (fold shift_in (concat (map p [0..<n])) reg) j = chip_decode (p (n - 1 - j))"
  using assms packets_length [OF assms(1)]
  by (simp add: chip_at_def shift_in_all packets_rev del: rev_concat)

section \<open>The device over a run\<close>

datatype tlc_event = Set_led u32 u8 u16 u16 u16 | Set_all u16 u16 u16 | Set_fc u8 u8 u8 u8 u8
  | Set_brightness u8 u8 u8 | Set_blank u8 | Set_sck u32 | Send_internal | Send_full | Send_long | Sync

fun tlc_step :: "'b spi_bus \<Rightarrow> tlc_event \<Rightarrow> tlc5971_device \<times> 'b \<Rightarrow> tlc5971_device \<times> 'b" where
  "tlc_step spi (Set_led d l r g b) (dev, w) = (snd (tlc5971_set_led d l r g b dev), w)"
| "tlc_step spi (Set_all r g b) (dev, w) = (tlc5971_set_all_leds r g b dev, w)"
| "tlc_step spi (Set_fc rpt rst ext out bl) (dev, w) = (tlc5971_set_fc rpt rst ext out bl dev, w)"
| "tlc_step spi (Set_brightness r g b) (dev, w) = (tlc5971_set_brightness_control r g b dev, w)"
| "tlc_step spi (Set_blank bl) (dev, w) = (tlc5971_set_blank bl dev, w)"
| "tlc_step spi (Set_sck p) (dev, w) = (snd (tlc5971_set_sck_period_ns p dev), w)"
| "tlc_step spi Send_internal (dev, w) = snd (tlc5971_send_internal_repeat spi dev w)"
| "tlc_step spi Send_full (dev, w) = snd (tlc5971_send_external_full_period spi dev w)"
| "tlc_step spi Send_long (dev, w) = snd (tlc5971_send_external_long_chain spi dev w)"
| "tlc_step spi Sync (dev, w) = (dev, snd (tlc5971_sync_with_scki spi w))"

definition tlc_wf :: "tlc5971_device \<Rightarrow> bool" where
  "tlc_wf dev \<longleftrightarrow> unat (num_devices dev) \<le> 153391689 \<and> length (slots dev) = unat (num_devices dev)
     \<and> (\<forall>s\<in>set (slots dev). length (slot_led s) = TLC5971_LEDS_PER_DEVICE)
     \<and> length (frame_buf dev) = TLC5971_PACKET_BYTES * unat (num_devices dev)
     \<and> bcr dev AND 0x7F = bcr dev \<and> bcg dev AND 0x7F = bcg dev \<and> bcb dev AND 0x7F = bcb dev"

text \<open>The colour the calls so far have given each LED, by device and LED number.\<close>

fun lit_step :: "nat \<Rightarrow> tlc_event \<Rightarrow> (nat \<Rightarrow> nat \<Rightarrow> tlc5971_led) \<Rightarrow> nat \<Rightarrow> nat \<Rightarrow> tlc5971_led" where
  "lit_step n (Set_led d l r g b) f =
     (if unat d < n \<and> unat l < 4 then f(unat d := (f (unat d))(unat l := \<lparr>led_r = r, led_g = g, led_b = b\<rparr>)) else f)"
| "lit_step n (Set_all r g b) f = (\<lambda>_ _. \<lparr>led_r = r, led_g = g, led_b = b\<rparr>)"
| "lit_step n _ f = f"

definition dark :: "nat \<Rightarrow> nat \<Rightarrow> tlc5971_led" where
  "dark = (\<lambda>_ _. \<lparr>led_r = 0, led_g = 0, led_b = 0\<rparr>)"

definition lit :: "nat \<Rightarrow> (nat \<Rightarrow> nat \<Rightarrow> tlc5971_led) \<Rightarrow> tlc5971_device \<Rightarrow> bool" where
  "lit n f dev \<longleftrightarrow> unat (num_devices dev) = n
     \<and> (\<forall>d<n. \<forall>l<4. slot_led (slots dev ! d) ! l = f d l)"

lemma store_packets:
  assumes "length buf = 28 * n" "k \<le> n"
  shows "fold (store_packet dev) [0..<k] buf = concat (map (tlc5971_serialize dev) [0..<k]) @ drop (28 * k) buf"
  using assms(2)
proof (induction k)
  case (Suc k)
  have "length (concat (map (tlc5971_serialize dev) [0..<k])) = 28 * k" by (rule packets_length) simp
  then show ?case using Suc assms(1) by (simp add: store_packet_def algebra_simps)
qed simp

lemma frame_stored:
  assumes "tlc_wf dev"
  shows "fold (store_packet dev) [0..<unat (num_devices dev)] (frame_buf dev)
    = concat (map (tlc5971_serialize dev) [0..<unat (num_devices dev)])"
  using assms store_packets [of "frame_buf dev" "unat (num_devices dev)" "unat (num_devices dev)" dev]
  by (simp add: tlc_wf_def)

lemma frame_length:
  "length (concat (map (tlc5971_serialize dev) [0..<n])) = 28 * n"
  by (rule packets_length) simp

lemma send_eq:
  assumes "tlc_wf dev"
  defines "fr \<equiv> concat (map (tlc5971_serialize dev) [0..<unat (num_devices dev)])"
  shows "tlc5971_send spi dev w = (case write_seq spi (pieces fr) w of (ret, w) \<Rightarrow> (ret, dev\<lparr>frame_buf := fr\<rparr>, w))"
proof -
  have n: "\<not> 0xFFFFFFFF div of_nat 28 < num_devices dev" "unat (num_devices dev * of_nat 28 :: u32) = 28 * unat (num_devices dev)"
    using assms(1) by (auto simp: tlc_wf_def word_less_nat_alt unat_word_ariths)
  show ?thesis
    unfolding tlc5971_send_def frame_stored [OF assms(1)] fr_def [symmetric]
    using n by (simp add: Let_def write_buf_seq frame_length fr_def)
qed

lemma send_wf:
  assumes "tlc_wf dev"
  shows "tlc_wf (fst (snd (tlc5971_send spi dev w)))"
    "slots (fst (snd (tlc5971_send spi dev w))) = slots dev"
    "num_devices (fst (snd (tlc5971_send spi dev w))) = num_devices dev"
  using assms frame_length [of dev "unat (num_devices dev)"]
  by (auto simp: send_eq [OF assms] tlc_wf_def split: prod.splits)

lemma send_latched_dev: "fst (snd (tlc5971_send_latched spi dev w)) = fst (snd (tlc5971_send spi dev w))"
  by (auto simp: tlc5971_send_latched_def split: prod.splits)

lemma set_fc_keeps [simp]:
  "tlc_wf (tlc5971_set_fc a b c d e dev) = tlc_wf dev" "slots (tlc5971_set_fc a b c d e dev) = slots dev"
  "num_devices (tlc5971_set_fc a b c d e dev) = num_devices dev"
  by (simp_all add: tlc5971_set_fc_def tlc_wf_def)

text \<open>The send functions change the device only in its control bits and frame.\<close>

definition same_leds :: "tlc5971_device \<Rightarrow> tlc5971_device \<Rightarrow> bool" where
  "same_leds dev dev' \<longleftrightarrow> tlc_wf dev' \<and> slots dev' = slots dev \<and> num_devices dev' = num_devices dev"

lemma sends_same:
  assumes "tlc_wf dev"
  shows "same_leds dev (fst (snd (tlc5971_send_internal_repeat spi dev w)))"
    "same_leds dev (fst (snd (tlc5971_send_external_full_period spi dev w)))"
    "same_leds dev (fst (snd (tlc5971_send_external_long_chain spi dev w)))"
proof -
  have l: "same_leds dev (fst (snd (tlc5971_send_latched spi (tlc5971_set_fc a b c d e dev) w)))" for a b c d e
    using send_wf [of "tlc5971_set_fc a b c d e dev" spi w] assms by (simp add: same_leds_def send_latched_dev)
  show "same_leds dev (fst (snd (tlc5971_send_internal_repeat spi dev w)))"
    using l by (simp add: tlc5971_send_internal_repeat_def)
  show "same_leds dev (fst (snd (tlc5971_send_external_full_period spi dev w)))"
    using l [of 0 1 1 1 0] by (auto simp: tlc5971_send_external_full_period_def split: prod.splits)
  show "same_leds dev (fst (snd (tlc5971_send_external_long_chain spi dev w)))"
    using l [of 0 1 1 1 0] assms
    by (auto simp: tlc5971_send_external_long_chain_def same_leds_def Let_def split: prod.splits)
qed

lemma slot_upd: "x\<lparr>slot_led := v\<rparr> = \<lparr>slot_led = v\<rparr>" for x :: tlc5971_slot
  by (cases x) simp

lemma set_slot:
  assumes "d < length ss" "length (slot_led (ss ! d)) = 4"
  shows "fold (set_led_at r g b d) [0..<4] ss = ss[d := \<lparr>slot_led = replicate 4 \<lparr>led_r = r, led_g = g, led_b = b\<rparr>\<rparr>]"
proof -
  obtain p q s t where "slot_led (ss ! d) = [p, q, s, t]"
    using assms(2) by (auto simp: length_Suc_conv numeral_eq_Suc)
  then show ?thesis using assms(1) by (simp add: set_led_at_def upt_4 numeral_eq_Suc slot_upd)
qed

lemma set_all_slots:
  assumes "\<forall>s\<in>set ss. length (slot_led s) = 4" "k \<le> length ss"
  shows "fold (\<lambda>d. fold (set_led_at r g b d) [0..<4]) [0..<k] ss
    = replicate k \<lparr>slot_led = replicate 4 \<lparr>led_r = r, led_g = g, led_b = b\<rparr>\<rparr> @ drop k ss"
  using assms(2)
proof (induction k)
  case (Suc k)
  then have "drop k ss = ss ! k # drop (Suc k) ss" by (simp add: Cons_nth_drop_Suc)
  then show ?case
    using Suc assms(1) by (simp add: set_slot nth_append list_update_append replicate_append_same del: upt_Suc add: upt_Suc_append)
qed simp

lemma set_all_eq:
  "tlc_wf dev \<Longrightarrow> slots (tlc5971_set_all_leds r g b dev)
     = replicate (unat (num_devices dev)) \<lparr>slot_led = replicate 4 \<lparr>led_r = r, led_g = g, led_b = b\<rparr>\<rparr>"
  by (simp add: tlc5971_set_all_leds_def tlc_wf_def set_all_slots)

lemma set_led_wf:
  assumes "tlc_wf dev"
  shows "tlc_wf (snd (tlc5971_set_led d l r g b dev))"
proof (cases "num_devices dev \<le> d \<or> 4 \<le> unat l")
  case False
  then have "unat d < length (slots dev)" using assms by (simp add: tlc_wf_def word_less_nat_alt word_le_nat_alt)
  then have "length (slot_led (slots dev ! unat d)) = 4" using assms by (simp add: tlc_wf_def)
  then show ?thesis
    using False assms by (auto simp: tlc5971_set_led_def tlc_wf_def Let_def dest!: set_update_subset_insert [THEN subsetD])
qed (use assms in \<open>auto simp: tlc5971_set_led_def\<close>)

lemma setters_wf:
  assumes "tlc_wf dev"
  shows "tlc_wf (tlc5971_set_brightness_control r g b dev)" "tlc_wf (tlc5971_set_blank bl dev)"
    "tlc_wf (snd (tlc5971_set_sck_period_ns p dev))"
  using assms by (simp_all add: tlc_wf_def tlc5971_set_brightness_control_def tlc5971_set_blank_def
      tlc5971_set_sck_period_ns_def and.assoc)

lemma step_wf: "tlc_wf (fst s) \<Longrightarrow> tlc_wf (fst (tlc_step spi e s))"
proof -
  assume wf: "tlc_wf (fst s)"
  obtain dev w where s: "s = (dev, w)" by (cases s)
  show ?thesis
  proof (cases e)
    case (Set_all r g b)
    then show ?thesis
      using wf s set_all_eq [of dev r g b] by (simp add: tlc_wf_def tlc5971_set_all_leds_def)
  qed (use wf s sends_same [of dev spi w] in \<open>simp_all add: set_led_wf same_leds_def setters_wf\<close>)
qed

interpretation tlc: event_driven "tlc_step spi" "\<lambda>s. tlc_wf (fst s)" for spi
  by unfold_locales (rule step_wf)

lemma step_lit:
  assumes wf: "tlc_wf dev" and f: "lit n f dev"
  shows "lit n (lit_step n e f) (fst (tlc_step spi e (dev, w)))"
proof (cases e)
  case (Set_led d l r g b)
  show ?thesis
  proof (cases "unat d < n \<and> unat l < 4")
    case True
    then have "\<not> (num_devices dev \<le> d \<or> 4 \<le> unat l)" "unat d < length (slots dev)"
      using wf f by (auto simp: lit_def tlc_wf_def word_le_nat_alt)
    moreover have "length (slot_led (slots dev ! unat d)) = 4" using wf calculation(2) by (simp add: tlc_wf_def)
    ultimately show ?thesis
      using f True unfolding Set_led lit_def by (auto simp: tlc5971_set_led_def Let_def nth_list_update)
  next
    case False
    then show ?thesis using f unfolding Set_led lit_def by (auto simp: tlc5971_set_led_def word_le_nat_alt)
  qed
next
  case (Set_all r g b)
  then show ?thesis using f set_all_eq [OF wf, of r g b] by (simp add: lit_def) (simp add: tlc5971_set_all_leds_def)
qed (use f sends_same [OF wf, of spi w] in \<open>auto simp: lit_def same_leds_def
    tlc5971_set_brightness_control_def tlc5971_set_blank_def tlc5971_set_sck_period_ns_def\<close>)

lemma run_lit:
  "tlc_wf dev \<Longrightarrow> lit n f dev \<Longrightarrow> lit n (fold (lit_step n) es f) (fst (fold (tlc_step spi) es (dev, w)))"
proof (induction es arbitrary: dev w f)
  case (Cons e es)
  then show ?case
    using Cons.IH [of "fst (tlc_step spi e (dev, w))" _ "snd (tlc_step spi e (dev, w))"]
      step_wf [of "(dev, w)" spi e] step_lit [of dev n f e spi w] by simp
qed simp

lemma init_ready:
  assumes "tlc5971_init a c d s n = (0, Some dev)"
  shows "tlc_wf dev" "lit (unat n) dark dev"
proof -
  have "\<not> n > 0xFFFFFFFF div of_nat 28"
    "dev = zero_device\<lparr>dev_spi := True, num_devices := n, outtmg := 1, extgck := 0,
        tmgrst := 0, dsprpt := 0, blank := 0, bcr := 0x7F, bcg := 0x7F, bcb := 0x7F,
        sck_period_ns := TLC5971_DEFAULT_SCK_NS, slots := replicate (unat n) zero_slot,
        frame_buf := replicate (unat n * 28) 0\<rparr>"
    using assms by (auto simp: tlc5971_init_def split: if_splits)
  then show "tlc_wf dev" "lit (unat n) dark dev"
    by (auto simp: tlc_wf_def lit_def zero_slot_def dark_def word_less_nat_alt)
qed

section \<open>Properties\<close>

text \<open>A bus that logs the buffers written to it and fails where it is told to.\<close>

definition log_bus :: "(nat \<Rightarrow> int) \<Rightarrow> u8 list list spi_bus" where
  "log_bus fail = \<lparr>write_bytes = (\<lambda>bs w. (fail (length w), w @ [bs])), ndelay = (\<lambda>_ w. w)\<rparr>"

lemma log_bus_law: "bus_law (log_bus fail) concat"
  by (simp add: bus_law_def log_bus_def)

lemma log_bus_seq:
  assumes "write_seq (log_bus fail) cs w = (ret, w')"
  obtains k where "w' = w @ take k cs" "k \<le> length cs" "ret = 0 \<Longrightarrow> k = length cs"
    "ret \<noteq> 0 \<Longrightarrow> 0 < k \<and> ret = fail (length w + k - 1)"
    "\<forall>i. length w \<le> i \<and> (if ret = 0 then i < length w + k else Suc i < length w + k) \<longrightarrow> fail i = 0"
  using assms
proof (induction cs arbitrary: w thesis)
  case Nil
  then show ?case by (intro Nil(1) [of 0]) auto
next
  case (Cons c cs)
  show ?case
  proof (cases "fail (length w) = 0")
    case True
    then have "write_seq (log_bus fail) cs (w @ [c]) = (ret, w')" using Cons.prems(2) by (simp add: log_bus_def)
    then obtain k where k: "w' = (w @ [c]) @ take k cs" "k \<le> length cs" "ret = 0 \<Longrightarrow> k = length cs"
      "ret \<noteq> 0 \<Longrightarrow> 0 < k \<and> ret = fail (length (w @ [c]) + k - 1)"
      "\<forall>i. length (w @ [c]) \<le> i \<and> (if ret = 0 then i < length (w @ [c]) + k else Suc i < length (w @ [c]) + k) \<longrightarrow> fail i = 0"
      using Cons.IH by blast
    have "\<forall>i. length w \<le> i \<and> (if ret = 0 then i < length w + Suc k else Suc i < length w + Suc k) \<longrightarrow> fail i = 0"
      using k(5) True by (metis (no_types, lifting) Suc_eq_plus1 add_Suc_right add_Suc_shift antisym_conv length_append_singleton not_less_eq_eq)
    then show ?thesis using k(1-4) by (intro Cons.prems(1) [of "Suc k"]) auto
  next
    case False
    then show ?thesis using Cons.prems(2) by (intro Cons.prems(1) [of 1]) (auto simp: log_bus_def)
  qed
qed

text \<open>C21.  End to end from the setter calls to the chips: after any sequence of calls from
initialisation on, a successful \<open>tlc5971_send\<close> puts bytes on the wire that leave in the register of
every chip of the chain (chip 0 is next to the bus) a packet with the write command, the device's
control bits and brightness, and in each LED the colour last set for the slot that counts from the
far end of the chain.\<close>

theorem chain_shows:
  assumes "tlc5971_init a c d s n = (0, Some dev0)" "bus_law spi wire"
    and "fold (tlc_step spi) es (dev0, w0) = (dev, w)" "tlc5971_send spi dev w = (0, dev', w')"
    and "length reg = 28 * unat n" "j < unat n"
  shows "\<exists>sent. wire w' = wire w @ sent
    \<and> (let ch = chip_at (fold shift_in sent reg) j
       in ch_write ch = 0x25 \<and> ch_blank ch = (blank dev \<noteq> 0) \<and> ch_outtmg ch = (outtmg dev \<noteq> 0)
         \<and> ch_extgck ch = (extgck dev \<noteq> 0) \<and> ch_tmgrst ch = (tmgrst dev \<noteq> 0) \<and> ch_dsprpt ch = (dsprpt dev \<noteq> 0)
         \<and> ch_bcr ch = bcr dev \<and> ch_bcg ch = bcg dev \<and> ch_bcb ch = bcb dev
         \<and> (\<forall>l<4. ch_led ch ! l = fold (lit_step (unat n)) es dark (unat n - 1 - j) l))"
proof -
  let ?fr = "concat (map (tlc5971_serialize dev) [0..<unat n])"
  have wf: "tlc_wf dev" using tlc.run_inv [of "(dev0, w0)" spi es] init_ready(1) [OF assms(1)] assms(3) by simp
  have l: "lit (unat n) (fold (lit_step (unat n)) es dark) dev"
    using run_lit [OF init_ready [OF assms(1)], of es spi w0] assms(3) by simp
  then have n: "unat (num_devices dev) = unat n" by (simp add: lit_def)
  have "wire w' = wire w @ ?fr"
    using write_seq_wire [OF assms(2), of "pieces ?fr" w w'] send_eq [OF wf, of spi w] assms(4) n
    by (auto split: prod.splits)
  moreover have "length (slot_led (slots dev ! (unat n - 1 - j))) = 4"
    using wf assms(6) n by (simp add: tlc_wf_def)
  then have "chip_at (fold shift_in ?fr reg) j = shown dev (slots dev ! (unat n - 1 - j))"
    using chip_at_chain [of "unat n" "tlc5971_serialize dev" j reg] assms(5,6) by (simp add: decode_serialize)
  moreover have "unat n - 1 - j < unat n" using assms(6) by simp
  ultimately show ?thesis using wf l unfolding lit_def by (auto simp: shown_def tlc_wf_def Let_def)
qed

theorem chain_shows_witness:
  "\<exists>sent. concat [] @ sent = concat (snd (snd (tlc5971_send (log_bus (\<lambda>_. 0))
      (fst (fold (tlc_step (log_bus (\<lambda>_. 0))) [Set_led 1 2 3 4 5] (the (snd (tlc5971_init True True (Some zero_device) True 2)), []))) [])))
     \<and> ch_led (chip_at (fold shift_in sent (replicate 56 0)) 0) ! 2 = \<lparr>led_r = 3, led_g = 4, led_b = 5\<rparr>"
proof -
  let ?dev = "fst (fold (tlc_step (log_bus (\<lambda>_. 0))) [Set_led 1 2 3 4 5] (the (snd (tlc5971_init True True (Some zero_device) True 2)), []))"
  have i: "tlc5971_init True True (Some zero_device) True 2 = (0, Some (the (snd (tlc5971_init True True (Some zero_device) True 2))))"
    by code_simp
  have r: "fold (tlc_step (log_bus (\<lambda>_. 0))) [Set_led 1 2 3 4 5] (the (snd (tlc5971_init True True (Some zero_device) True 2)), []) = (?dev, [])"
    by simp
  have "fst (tlc5971_send (log_bus (\<lambda>_. 0)) ?dev []) = 0" by code_simp
  then have s: "tlc5971_send (log_bus (\<lambda>_. 0)) ?dev [] = (0, fst (snd (tlc5971_send (log_bus (\<lambda>_. 0)) ?dev [])), snd (snd (tlc5971_send (log_bus (\<lambda>_. 0)) ?dev [])))"
    by (simp add: prod_eq_iff)
  have "fold (lit_step 2) [Set_led 1 2 3 4 5] dark (2 - 1 - 0) 2 = \<lparr>led_r = 3, led_g = 4, led_b = 5\<rparr>"
    by (simp add: dark_def)
  with chain_shows [OF i log_bus_law r s, of "replicate 56 0" 0] show ?thesis
    unfolding Let_def by (auto simp del: fold_simps)
qed

lemma send_latched_wire:
  assumes "bus_law spi wire" "tlc_wf dev" "tlc5971_send_latched spi dev w = (0, dev', w')"
  shows "wire w' = wire w @ frame_buf dev'" "length (frame_buf dev') = 28 * unat (num_devices dev)"
    "num_devices dev' = num_devices dev"
proof -
  let ?fr = "concat (map (tlc5971_serialize dev) [0..<unat (num_devices dev)])"
  obtain r w1 where w1: "write_seq spi (pieces ?fr) w = (r, w1)" by (cases "write_seq spi (pieces ?fr) w")
  then have "r = 0" "dev' = dev\<lparr>frame_buf := ?fr\<rparr>" "w' = tlc5971_latch_pulse spi (sck_period_ns dev') w1"
    using assms(3) by (auto simp: tlc5971_send_latched_def send_eq [OF assms(2)] split: if_splits)
  moreover have "wire w1 = wire w @ ?fr" using write_seq_wire [OF assms(1)] w1 calculation(1) by simp
  ultimately show "wire w' = wire w @ frame_buf dev'" "length (frame_buf dev') = 28 * unat (num_devices dev)"
    "num_devices dev' = num_devices dev"
    using bus_lawD(2) [OF assms(1)] frame_length by (simp_all add: tlc5971_latch_pulse_def)
qed

lemma idle_bits_wire:
  assumes "bus_law spi wire" "tlc5971_send_idle_bits spi k w = (0, w')"
  shows "wire w' = wire w @ replicate (unat k div 8) 0"
  using assms(2) write_seq_wire [OF assms(1), of "pieces (replicate (unat (k div 8)) 0)" w w']
  by (auto simp: tlc5971_send_idle_bits_def idle_chunks_seq unat_div split: if_splits)

text \<open>C22.  \<open>tlc5971_send_external_long_chain\<close> drives exactly one grayscale period of 65536 clocks,
data and idle bits together, with the frame first; a chain that needs more clocks for its data is
refused before anything is changed or sent.\<close>

theorem gs_period_exact:
  assumes "tlc5971_init a c d s n = (0, Some dev0)" "bus_law spi wire"
    and "fold (tlc_step spi) es (dev0, w0) = (dev, w)"
  shows "if unat n * 224 \<le> 65536
    then \<forall>dev' w'. tlc5971_send_external_long_chain spi dev w = (0, dev', w') \<longrightarrow>
      (\<exists>sent. wire w' = wire w @ sent \<and> length sent * 8 = 65536 \<and> take (28 * unat n) sent = frame_buf dev')
    else tlc5971_send_external_long_chain spi dev w
      = (if n > 0xFFFFFFFF div 224 then - EOVERFLOW else - ERANGE, dev, w)"
proof -
  let ?dev = "tlc5971_set_fc 0 1 1 1 0 dev"
  have wf: "tlc_wf dev" using tlc.run_inv [of "(dev0, w0)" spi es] init_ready(1) [OF assms(1)] assms(3) by simp
  have "lit (unat n) (fold (lit_step (unat n)) es dark) dev"
    using run_lit [OF init_ready [OF assms(1)], of es spi w0] assms(3) by simp
  then have n: "num_devices dev = n" by (simp add: lit_def word_unat_eq_iff)
  show ?thesis
  proof (cases "unat n * 224 \<le> 65536")
    case True
    then have b: "unat (n * 224) = unat n * 224" by (simp add: unat_word_ariths)
    then have i: "unat (65536 - n * 224) = 65536 - unat n * 224" using True by (simp add: unat_sub word_le_nat_alt)
    have g: "\<not> 0xFFFFFFFF div 224 < n" "\<not> 65536 < n * 224" using True b by (auto simp: word_less_nat_alt)
    have "\<exists>sent. wire w' = wire w @ sent \<and> length sent * 8 = 65536 \<and> take (28 * unat n) sent = frame_buf dev'"
      if r: "tlc5971_send_external_long_chain spi dev w = (0, dev', w')" for dev' w'
    proof -
      obtain q d1 w1 where l: "tlc5971_send_latched spi ?dev w = (q, d1, w1)"
        by (cases "tlc5971_send_latched spi ?dev w")
      have c: "q = 0" "dev' = d1" "if 65536 - n * 224 = 0 then w' = w1 else tlc5971_send_idle_bits spi (65536 - n * 224) w1 = (0, w')"
        using r l g n by (auto simp: tlc5971_send_external_long_chain_def Let_def split: if_splits prod.splits)
      have "wire w' = wire w1 @ replicate ((65536 - unat n * 224) div 8) 0"
        using c(3) idle_bits_wire [OF assms(2)] i by (cases "65536 - n * 224 = 0") (auto simp: unat_eq_zero)
      moreover have "wire w1 = wire w @ frame_buf d1" "length (frame_buf d1) = 28 * unat n"
        using send_latched_wire [OF assms(2) _ l [unfolded c(1)]] wf n by auto
      ultimately show ?thesis using True c(2) by (intro exI [of _ "frame_buf d1 @ replicate ((65536 - unat n * 224) div 8) 0"]) auto
    qed
    then show ?thesis using True by auto
  next
    case False
    have "65536 < n * 224" if "\<not> 0xFFFFFFFF div 224 < n"
    proof -
      have "unat (n * 224) = unat n * 224" using that by (simp add: unat_word_ariths word_less_nat_alt)
      then show ?thesis using False by (simp add: word_less_nat_alt)
    qed
    then show ?thesis using False n by (auto simp: tlc5971_send_external_long_chain_def Let_def)
  qed
qed

lemma log_bus_ok: "fst (write_seq (log_bus (\<lambda>_. 0)) cs w) = 0"
  by (induction cs arbitrary: w) (auto simp: log_bus_def)

lemma send_latched_ok: "tlc_wf dev \<Longrightarrow> fst (tlc5971_send_latched (log_bus (\<lambda>_. 0)) dev w) = 0"
  using log_bus_ok [of "pieces (concat (map (tlc5971_serialize dev) [0..<unat (num_devices dev)]))" w]
  by (auto simp: tlc5971_send_latched_def send_eq split: prod.splits)

theorem gs_period_exact_witness:
  "\<exists>sent. length sent * 8 = 65536 \<and> concat (snd (snd (tlc5971_send_external_long_chain (log_bus (\<lambda>_. 0))
      (the (snd (tlc5971_init True True (Some zero_device) True 2))) []))) = sent"
proof -
  let ?dev = "the (snd (tlc5971_init True True (Some zero_device) True 2))"
  let ?r = "tlc5971_send_external_long_chain (log_bus (\<lambda>_. 0)) ?dev []"
  have i: "tlc5971_init True True (Some zero_device) True 2 = (0, Some ?dev)" by code_simp
  have d: "num_devices ?dev = 2" by code_simp
  have "fst (tlc5971_send_latched (log_bus (\<lambda>_. 0)) (tlc5971_set_fc 0 1 1 1 0 ?dev) []) = 0"
    using init_ready(1) [OF i] by (intro send_latched_ok) simp
  moreover have "fst (tlc5971_send_idle_bits (log_bus (\<lambda>_. 0)) 65088 w) = 0" for w
    by (simp add: tlc5971_send_idle_bits_def idle_chunks_seq log_bus_ok)
  ultimately have f: "fst ?r = 0"
    by (auto simp: tlc5971_send_external_long_chain_def d split: prod.splits) (metis fst_conv)
  have "\<forall>dev' w'. ?r = (0, dev', w') \<longrightarrow> length (concat w') * 8 = 65536"
    using gs_period_exact [OF i log_bus_law, of "\<lambda>_. 0" "[]" "[]" ?dev "[]"] by auto
  then show ?thesis using f by (cases ?r) auto
qed

text \<open>C23.  \<open>tlc5971_write_buf\<close> hands the buffer to the bus in order, in pieces of 1 to 255 bytes.  It
stops at the first piece whose write fails and returns that error; it returns 0 only after the whole
buffer has been written.\<close>

theorem write_buf_errors:
  assumes "unat len \<le> length buf" "tlc5971_write_buf (log_bus fail) (Some buf) len [] = (ret, w)"
  shows "(\<forall>c\<in>set w. 1 \<le> length c \<and> length c \<le> 255)
    \<and> concat w = take (length (concat w)) (take (unat len) buf)
    \<and> (ret = 0 \<longrightarrow> concat w = take (unat len) buf \<and> (\<forall>i<length w. fail i = 0))
    \<and> (ret \<noteq> 0 \<longrightarrow> w \<noteq> [] \<and> ret = fail (length w - 1) \<and> (\<forall>i<length w - 1. fail i = 0))"
proof -
  let ?ps = "pieces (take (unat len) buf)"
  have seq: "write_seq (log_bus fail) ?ps [] = (ret, w)" using assms(2) by (simp only: write_buf_seq [OF assms(1)])
  obtain k where l: "w = [] @ take k ?ps" "k \<le> length ?ps" "ret = 0 \<Longrightarrow> k = length ?ps"
    "ret \<noteq> 0 \<Longrightarrow> 0 < k \<and> ret = fail (length ([] :: u8 list list) + k - 1)"
    "\<forall>i. length ([] :: u8 list list) \<le> i \<and> (if ret = 0 then i < length ([] :: u8 list list) + k
       else Suc i < length ([] :: u8 list list) + k) \<longrightarrow> fail i = 0"
    by (rule log_bus_seq [OF seq], rule that)
  have k: "w = take k ?ps" "\<forall>i. (if ret = 0 then i < k else Suc i < k) \<longrightarrow> fail i = 0"
    "ret \<noteq> 0 \<Longrightarrow> 0 < k \<and> ret = fail (k - 1)"
    using l(1,4,5) by simp_all
  have "concat w @ concat (drop k ?ps) = take (unat len) buf"
    unfolding k(1) by (simp flip: concat_append)
  then have "concat w = take (length (concat w)) (take (unat len) buf)" by (metis append_eq_conv_conj)
  moreover have "1 \<le> length c \<and> length c \<le> 255" if "c \<in> set w" for c
    using pieces_sizes [OF in_set_takeD [OF that [unfolded k(1)]]] by linarith
  moreover have "length w = k" using k(1) l(2) by simp
  moreover have "ret = 0 \<Longrightarrow> concat w = take (unat len) buf" using k(1) l(3) by simp
  ultimately show ?thesis using k(2,3) by (cases "ret = 0") (auto simp: less_diff_conv)
qed

theorem write_buf_errors_witness:
  "fst (tlc5971_write_buf (log_bus (\<lambda>_. - 5)) (Some [1, 2, 3]) 3 []) = - 5
   \<and> concat (snd (tlc5971_write_buf (log_bus (\<lambda>_. - 5)) (Some [1, 2, 3]) 3 [])) = [1, 2, 3]"
proof -
  have r: "tlc5971_write_buf (log_bus (\<lambda>_. - 5)) (Some [1, 2, 3]) 3 [] = (- 5, [[1, 2, 3]])" by code_simp
  show ?thesis using write_buf_errors [OF _ r] unfolding r by simp
qed

end
