(* ===== verification/Spi_Soft.thy ===== *)
theory Spi_Soft
  imports Kinetis_Prelude
begin

text \<open>
  The bit-banged SPI master of \<^verbatim>\<open>drivers/kinetis/spi_soft.c\<close> and the simulated slave that shares
  the four bus lines with it.  The slave is a thread that polls the lines; \<open>poll\<close> is one round of its
  loop.  The master runs beside it: while the master is in a delay the slave polls at least once, and
  between two calls of the master that do not wait it may poll or not.  How often it polls is the
  schedule \<open>sched\<close>, a function the definitions read and no property constrains.
\<close>

section \<open>State\<close>

datatype spi_slave_state = SPI_IDLE | SPI_MATCH_ADDRESS | SPI_RECEIVING_DATA | SPI_TRANSMITTING_DATA

record spi_slave =
  sl_cpol :: u8
  sl_cpha :: u8
  sl_bit_order :: u8
  last_state :: spi_slave_state
  current_state :: spi_slave_state
  bit_count :: u8
  byte_count :: u8
  current_byte :: u8
  is_read_operation :: bool
  buffer :: "u8 list"
  buffer_size :: u32
  index :: u8

record spi_bus_simulation =
  cs_line :: bool
  mosi_line :: bool
  miso_line :: bool
  sck_line :: bool
  slave :: spi_slave
  cs_last :: bool
  sck_last :: bool
  sched :: "nat \<Rightarrow> nat"
  tick :: nat

record spi_master =
  m_cpol :: u8
  m_cpha :: u8
  m_speed :: u8
  m_bit_order :: u8
  m_init :: bool
  m_write_bytes :: "(u8 list \<Rightarrow> spi_bus_simulation \<Rightarrow> int \<times> spi_bus_simulation) option"
  m_read_bytes :: "(u8 \<Rightarrow> spi_bus_simulation \<Rightarrow> (int \<times> u8 list) \<times> spi_bus_simulation) option"

abbreviation SPI_BIT_ORDER_MSB :: u8 where "SPI_BIT_ORDER_MSB \<equiv> 0"
abbreviation SPI_BIT_ORDER_LSB :: u8 where "SPI_BIT_ORDER_LSB \<equiv> 1"

section \<open>The slave\<close>

definition spi_slave_handle_byte_received :: "spi_slave \<Rightarrow> u8 \<Rightarrow> spi_slave" where
  "spi_slave_handle_byte_received d byte =
     (if unat (index d) < unat (buffer_size d)
      then d\<lparr>buffer := (buffer d)[unat (index d) := byte], index := index d + 1\<rparr> else d)"

definition spi_slave_get_next_tx_byte :: "spi_slave \<Rightarrow> u8 \<times> spi_slave" where
  "spi_slave_get_next_tx_byte d =
     (if unat (index d) < unat (buffer_size d)
      then (buffer d ! unat (index d), d\<lparr>index := index d + 1\<rparr>) else (0xFF, d))"

text \<open>Both functions return the new level of MISO with the slave.\<close>

definition spi_slave_prepare_bit :: "spi_slave \<Rightarrow> bool \<times> spi_slave" where
  "spi_slave_prepare_bit d =
     (let d = d\<lparr>bit_count := bit_count d + 1\<rparr>
      in if bit_count d \<le> 8
         then (if sl_bit_order d = SPI_BIT_ORDER_LSB then bit (current_byte d) (unat (bit_count d) - 1)
               else bit (current_byte d) (8 - unat (bit_count d)), d)
         else
           let d = d\<lparr>byte_count := byte_count d + 1\<rparr>;
               (b, d) = spi_slave_get_next_tx_byte d;
               d = d\<lparr>current_byte := b, bit_count := 1\<rparr>
           in (if sl_bit_order d = SPI_BIT_ORDER_LSB then bit (current_byte d) 0 else bit (current_byte d) 7, d))"

definition match_address :: "bool \<Rightarrow> spi_slave \<Rightarrow> bool \<times> spi_slave" where
  "match_address miso d =
     (let d = d\<lparr>is_read_operation := (current_byte d AND 0x80 \<noteq> 0)\<rparr>;
          d = d\<lparr>current_byte := current_byte d AND 0x7F\<rparr>;
          d = (if unat (current_byte d) < unat (buffer_size d) then d\<lparr>index := current_byte d\<rparr> else d)
      in if is_read_operation d
         then
           let d = d\<lparr>current_state := SPI_TRANSMITTING_DATA\<rparr>;
               (b, d) = spi_slave_get_next_tx_byte d;
               d = d\<lparr>current_byte := b, byte_count := 0\<rparr>
           in if sl_cpha d = 0
              then (if sl_bit_order d = SPI_BIT_ORDER_LSB then bit (current_byte d) 0 else bit (current_byte d) 7,
                    d\<lparr>bit_count := 1\<rparr>)
              else (miso, d\<lparr>bit_count := 0\<rparr>)
         else (miso, d\<lparr>current_state := SPI_RECEIVING_DATA, current_byte := 0, bit_count := 0\<rparr>))"

definition spi_slave_receive_bit :: "bool \<Rightarrow> bool \<Rightarrow> spi_slave \<Rightarrow> bool \<times> spi_slave" where
  "spi_slave_receive_bit mosi_current miso d =
     (let d = d\<lparr>bit_count := bit_count d + 1\<rparr>;
          d = (if bit_count d < 9 \<and> mosi_current
               then if sl_bit_order d = SPI_BIT_ORDER_LSB
                    then d\<lparr>current_byte := current_byte d OR push_bit (unat (bit_count d) - 1) 1\<rparr>
                    else d\<lparr>current_byte := current_byte d OR push_bit (8 - unat (bit_count d)) 1\<rparr>
               else d)
      in if bit_count d = 8
         then
           case current_state d of
             SPI_MATCH_ADDRESS \<Rightarrow> match_address miso d
           | SPI_RECEIVING_DATA \<Rightarrow>
               (let d = d\<lparr>byte_count := byte_count d + 1\<rparr>;
                    d = spi_slave_handle_byte_received d (current_byte d)
                in (miso, d\<lparr>bit_count := 0, current_byte := 0\<rparr>))
           | _ \<Rightarrow> (miso, d)
         else (miso, d))"

definition reset_slave :: "spi_slave \<Rightarrow> spi_slave" where
  "reset_slave d = d\<lparr>current_state := SPI_IDLE, bit_count := 0, byte_count := 0, current_byte := 0\<rparr>"

definition rising :: "spi_bus_simulation \<Rightarrow> bool" where
  "rising s \<longleftrightarrow> \<not> sck_last s \<and> sck_line s"

definition falling :: "spi_bus_simulation \<Rightarrow> bool" where
  "falling s \<longleftrightarrow> sck_last s \<and> \<not> sck_line s"

definition receive_state :: "spi_bus_simulation \<Rightarrow> spi_bus_simulation" where
  "receive_state s =
     (let d = slave s;
          sample = (if sl_cpha d = 0 \<and> sl_cpol d = 0 then rising s
                    else if sl_cpha d \<noteq> 0 \<and> sl_cpol d = 0 then falling s
                    else if sl_cpha d = 0 \<and> sl_cpol d \<noteq> 0 then falling s
                    else rising s)
      in if cs_line s then s\<lparr>slave := reset_slave d, mosi_line := False\<rparr>
         else if sample
         then case spi_slave_receive_bit (mosi_line s) (miso_line s) d of (m, d) \<Rightarrow>
           s\<lparr>slave := d, miso_line := m\<rparr>
         else s)"

definition transmit_state :: "spi_bus_simulation \<Rightarrow> spi_bus_simulation" where
  "transmit_state s =
     (let d = slave s;
          setup = (if sl_cpha d = 0 \<and> sl_cpol d = 0 then falling s
                   else if sl_cpha d \<noteq> 0 \<and> sl_cpol d = 0 then rising s
                   else if sl_cpha d = 0 \<and> sl_cpol d \<noteq> 0 then rising s
                   else falling s)
      in if cs_line s then s\<lparr>slave := reset_slave d, miso_line := False\<rparr>
         else if setup
         then case spi_slave_prepare_bit d of (m, d) \<Rightarrow> s\<lparr>slave := d, miso_line := m\<rparr>
         else s)"

definition poll :: "spi_bus_simulation \<Rightarrow> spi_bus_simulation" where
  "poll s =
     (let cs_current = cs_line s;
          sck_current = sck_line s;
          s = (case current_state (slave s) of
                 SPI_IDLE \<Rightarrow> if cs_last s \<and> \<not> cs_current
                   then s\<lparr>slave := (slave s)\<lparr>current_state := SPI_MATCH_ADDRESS\<rparr>\<rparr> else s
               | SPI_MATCH_ADDRESS \<Rightarrow> receive_state s
               | SPI_RECEIVING_DATA \<Rightarrow> receive_state s
               | SPI_TRANSMITTING_DATA \<Rightarrow> transmit_state s)
      in s\<lparr>cs_last := cs_current, sck_last := sck_current,
           slave := (slave s)\<lparr>last_state := current_state (slave s)\<rparr>\<rparr>)"

definition polls :: "nat \<Rightarrow> spi_bus_simulation \<Rightarrow> spi_bus_simulation" where
  "polls n s = (poll ^^ n) s"

definition spi_slave_soft_init :: "bool \<Rightarrow> int \<Rightarrow> u8 \<Rightarrow> u8 \<Rightarrow> u8 \<Rightarrow> u8 list \<Rightarrow> u32 \<Rightarrow> int + spi_slave" where
  "spi_slave_soft_init alloc_ok thread_ret cpol cpha order buf sz =
     (if \<not> alloc_ok then Inl (- ENOMEM)
      else if thread_ret \<noteq> 0 then Inl (- thread_ret)
      else Inr \<lparr>sl_cpol = cpol, sl_cpha = cpha, sl_bit_order = order, last_state = SPI_IDLE,
        current_state = SPI_IDLE, bit_count = 0, byte_count = 0, current_byte = 0,
        is_read_operation = False, buffer = buf, buffer_size = sz, index = 0\<rparr>)"

section \<open>The lines\<close>

text \<open>After a call that does not wait, the slave gets the rounds the schedule gives it.\<close>

definition gap :: "spi_bus_simulation \<Rightarrow> spi_bus_simulation" where
  "gap s = polls (sched s (tick s)) (s\<lparr>tick := tick s + 1\<rparr>)"

definition spi_master_soft_delay :: "u8 \<Rightarrow> spi_bus_simulation \<Rightarrow> spi_bus_simulation" where
  "spi_master_soft_delay ticks s = polls (Suc (sched s (tick s))) (s\<lparr>tick := tick s + 1\<rparr>)"

definition set_cs :: "bool \<Rightarrow> spi_bus_simulation \<Rightarrow> spi_bus_simulation" where
  "set_cs v s = gap (s\<lparr>cs_line := v\<rparr>)"

definition set_mosi :: "bool \<Rightarrow> spi_bus_simulation \<Rightarrow> spi_bus_simulation" where
  "set_mosi v s = gap (s\<lparr>mosi_line := v\<rparr>)"

definition set_sck :: "bool \<Rightarrow> spi_bus_simulation \<Rightarrow> spi_bus_simulation" where
  "set_sck v s = gap (s\<lparr>sck_line := v\<rparr>)"

definition miso_read :: "spi_bus_simulation \<Rightarrow> bool \<times> spi_bus_simulation" where
  "miso_read s = (miso_line s, gap s)"

section \<open>The master\<close>

definition spi_master_soft_init ::
  "u8 \<Rightarrow> u8 \<Rightarrow> u8 \<Rightarrow> u8 \<Rightarrow> spi_master option \<Rightarrow> spi_bus_simulation \<Rightarrow> int \<times> spi_master option \<times> spi_bus_simulation" where
  "spi_master_soft_init cpol cpha order speed master s =
     (case master of
        None \<Rightarrow> (- EINVAL, None, s)
      | Some m \<Rightarrow>
          if \<not> m_init m then (- EINVAL, Some m, s)
          else
            let m = m\<lparr>m_cpol := cpol, m_cpha := cpha, m_bit_order := order, m_speed := speed\<rparr>;
                s = set_cs True s;
                s = (if m_cpol m = 0 then set_sck False s else set_sck True s)
            in (0, Some m, s))"

definition spi_soft_set_mode ::
  "u8 \<Rightarrow> u8 \<Rightarrow> spi_master \<Rightarrow> spi_bus_simulation \<Rightarrow> spi_master \<times> spi_bus_simulation" where
  "spi_soft_set_mode cpol cpha m s =
     (let m = m\<lparr>m_cpol := cpol, m_cpha := cpha\<rparr>;
          s = s\<lparr>slave := (slave s)\<lparr>sl_cpol := cpol, sl_cpha := cpha\<rparr>\<rparr>
      in (m, if m_cpol m = 0 then set_sck False s else set_sck True s))"

definition spi_soft_set_bit_order ::
  "u8 \<Rightarrow> spi_master \<Rightarrow> spi_bus_simulation \<Rightarrow> spi_master \<times> spi_bus_simulation" where
  "spi_soft_set_bit_order order m s =
     (m\<lparr>m_bit_order := order\<rparr>, s\<lparr>slave := (slave s)\<lparr>sl_bit_order := order\<rparr>\<rparr>)"

definition spi_soft_set_speed :: "u8 \<Rightarrow> spi_master \<Rightarrow> spi_master" where
  "spi_soft_set_speed speed m = m\<lparr>m_speed := speed\<rparr>"

text \<open>The two clock edges of a bit of \<open>spi_master_soft_send_byte\<close>, with the delays.\<close>

definition send_clock :: "spi_master \<Rightarrow> spi_bus_simulation \<Rightarrow> spi_bus_simulation" where
  "send_clock m s =
     (let pulse = (\<lambda>v s. spi_master_soft_delay (m_speed m)
            (set_sck (\<not> v) (spi_master_soft_delay (m_speed m) (set_sck v s))))
      in if m_cpha m = 0 \<and> m_cpol m = 0 then pulse False s
         else if m_cpha m = 0 \<and> m_cpol m \<noteq> 0 then pulse True s
         else if m_cpha m \<noteq> 0 \<and> m_cpol m = 0 then pulse True s
         else pulse False s)"

definition send_bit :: "spi_master \<Rightarrow> u8 \<Rightarrow> nat \<Rightarrow> spi_bus_simulation \<Rightarrow> spi_bus_simulation" where
  "send_bit m data i s =
     (let b = (if m_bit_order m = SPI_BIT_ORDER_MSB then bit data i else bit data (7 - i))
      in send_clock m (set_mosi b s))"

definition spi_master_soft_send_byte :: "spi_master \<Rightarrow> u8 \<Rightarrow> spi_bus_simulation \<Rightarrow> spi_bus_simulation" where
  "spi_master_soft_send_byte m data s = fold (send_bit m data) (rev [0..<8]) s"

definition read_clock :: "spi_master \<Rightarrow> spi_bus_simulation \<Rightarrow> bool \<times> spi_bus_simulation" where
  "read_clock m s =
     (let early = (\<lambda>v s. case miso_read (set_sck v s) of (b, s) \<Rightarrow>
            (b, spi_master_soft_delay (m_speed m) (set_sck (\<not> v) (spi_master_soft_delay (m_speed m) s))));
          late = (\<lambda>v s. case miso_read (set_sck (\<not> v) (spi_master_soft_delay (m_speed m) (set_sck v s))) of (b, s) \<Rightarrow>
            (b, spi_master_soft_delay (m_speed m) s))
      in if m_cpha m = 0 \<and> m_cpol m = 0 then early True s
         else if m_cpha m = 0 \<and> m_cpol m \<noteq> 0 then early False s
         else if m_cpha m \<noteq> 0 \<and> m_cpol m = 0 then late True s
         else late False s)"

definition read_bit :: "spi_master \<Rightarrow> nat \<Rightarrow> u8 \<times> spi_bus_simulation \<Rightarrow> u8 \<times> spi_bus_simulation" where
  "read_bit m i ds =
     (case ds of (data, s) \<Rightarrow> case read_clock m s of (b, s) \<Rightarrow>
        (if m_bit_order m = SPI_BIT_ORDER_MSB then data OR push_bit i (of_bool b)
         else data OR push_bit (7 - i) (of_bool b), s))"

definition spi_master_soft_read_byte :: "spi_master \<Rightarrow> spi_bus_simulation \<Rightarrow> u8 \<times> spi_bus_simulation" where
  "spi_master_soft_read_byte m s = fold (read_bit m) (rev [0..<8]) (0, s)"

text \<open>A pointer that may be null is an option; the bytes read are part of the result.\<close>

definition spi_master_soft_write_bytes_with_reg ::
  "spi_master option \<Rightarrow> u8 \<Rightarrow> u8 list option \<Rightarrow> u8 \<Rightarrow> spi_bus_simulation \<Rightarrow> int \<times> spi_bus_simulation" where
  "spi_master_soft_write_bytes_with_reg master reg pdata len s =
     (case (master, pdata) of
        (Some m, Some bs) \<Rightarrow>
          if len = 0 then (- EINVAL, s)
          else
            let s = set_cs False s;
                s = spi_master_soft_send_byte m (0x7F AND reg) s;
                s = fold (\<lambda>i. spi_master_soft_send_byte m (bs ! i)) [0..<unat len] s
            in (0, set_cs True s)
      | _ \<Rightarrow> (- EINVAL, s))"

fun read_bytes_loop :: "spi_master \<Rightarrow> nat \<Rightarrow> spi_bus_simulation \<Rightarrow> u8 list \<times> spi_bus_simulation" where
  "read_bytes_loop m 0 s = ([], s)"
| "read_bytes_loop m (Suc n) s =
     (case spi_master_soft_read_byte m s of (b, s) \<Rightarrow>
      case read_bytes_loop m n s of (bs, s) \<Rightarrow> (b # bs, s))"

definition spi_master_soft_read_bytes_with_reg ::
  "spi_master option \<Rightarrow> u8 \<Rightarrow> bool \<Rightarrow> u8 \<Rightarrow> spi_bus_simulation \<Rightarrow> (int \<times> u8 list) \<times> spi_bus_simulation" where
  "spi_master_soft_read_bytes_with_reg master reg pdata len s =
     (case master of
        Some m \<Rightarrow>
          if \<not> pdata \<or> len = 0 then ((- EINVAL, []), s)
          else
            let s = set_cs False s;
                s = spi_master_soft_send_byte m (0x80 OR reg) s;
                (bs, s) = read_bytes_loop m (unat len) s
            in ((0, bs), set_cs True s)
      | None \<Rightarrow> ((- EINVAL, []), s))"

definition spi_master_port_transmit ::
  "spi_master option \<Rightarrow> u8 \<Rightarrow> u8 list option \<Rightarrow> u8 \<Rightarrow> spi_bus_simulation \<Rightarrow> int \<times> spi_bus_simulation" where
  "spi_master_port_transmit master reg pdata len s =
     (case (master, pdata) of
        (Some m, Some bs) \<Rightarrow>
          (case m_write_bytes m of
             Some w \<Rightarrow> w (take (unat len) bs) s
           | None \<Rightarrow> spi_master_soft_write_bytes_with_reg master reg pdata len s)
      | _ \<Rightarrow> (- EINVAL, s))"

definition spi_master_port_receive ::
  "spi_master option \<Rightarrow> u8 \<Rightarrow> bool \<Rightarrow> u8 \<Rightarrow> spi_bus_simulation \<Rightarrow> (int \<times> u8 list) \<times> spi_bus_simulation" where
  "spi_master_port_receive master reg pdata len s =
     (case master of
        Some m \<Rightarrow>
          if \<not> pdata then ((- EINVAL, []), s)
          else (case m_read_bytes m of
             Some r \<Rightarrow> r len s
           | None \<Rightarrow> spi_master_soft_read_bytes_with_reg master reg pdata len s)
      | None \<Rightarrow> ((- EINVAL, []), s))"

end
