(* ===== verification/Register_Bus.thy ===== *)
theory Register_Bus
  imports Kinetis_Prelude
begin

text \<open>
  The contract of a serial bus to a device with a file of byte registers: a write stores consecutive
  registers, a read returns them, and nothing else changes.  The client's view of a whole sequence of
  transactions follows once, for every bus that keeps the contract.
\<close>

section \<open>A register file\<close>

definition reg_put :: "nat \<Rightarrow> u8 list \<Rightarrow> u8 list \<Rightarrow> u8 list" where
  "reg_put r bs v = take r v @ bs @ drop (r + length bs) v"

definition reg_get :: "nat \<Rightarrow> nat \<Rightarrow> u8 list \<Rightarrow> u8 list" where
  "reg_get r n v = take n (drop r v)"

lemma reg_put_length [simp]: "r + length bs \<le> length v \<Longrightarrow> length (reg_put r bs v) = length v"
  by (simp add: reg_put_def)

lemma reg_get_put: "r + length bs \<le> length v \<Longrightarrow> reg_get r (length bs) (reg_put r bs v) = bs"
  by (simp add: reg_get_def reg_put_def)

datatype reg_op = Put u8 "u8 list" | Get u8 u8

text \<open>The transactions that stay inside the register file.\<close>

definition reg_fits :: "nat \<Rightarrow> reg_op \<Rightarrow> bool" where
  "reg_fits sz op = (case op of
     Put r bs \<Rightarrow> unat r < 128 \<and> 0 < length bs \<and> length bs < 256 \<and> unat r + length bs \<le> sz
   | Get r n \<Rightarrow> unat r < 128 \<and> 0 < unat n \<and> unat r + unat n \<le> sz)"

fun reg_run :: "reg_op list \<Rightarrow> u8 list \<Rightarrow> u8 list list \<times> u8 list" where
  "reg_run [] v = ([], v)"
| "reg_run (Put r bs # ops) v = reg_run ops (reg_put (unat r) bs v)"
| "reg_run (Get r n # ops) v = (case reg_run ops v of (out, w) \<Rightarrow> (reg_get (unat r) (unat n) v # out, w))"

section \<open>The bus\<close>

text \<open>A client either runs a transaction or waits.  It is \<open>paced\<close> when it waits between any two
transactions, so that the device can notice the end of the first.\<close>

datatype bus_call = Wait | Do reg_op

fun paced :: "bus_call list \<Rightarrow> bool" where
  "paced [] = True"
| "paced (Wait # cs) = paced cs"
| "paced [Do op] = True"
| "paced (Do op # c # cs) = (c = Wait \<and> paced cs)"

fun transactions :: "bus_call list \<Rightarrow> reg_op list" where
  "transactions [] = []"
| "transactions (Wait # cs) = transactions cs"
| "transactions (Do op # cs) = op # transactions cs"

fun bus_run ::
  "(u8 \<Rightarrow> u8 list \<Rightarrow> 's \<Rightarrow> int \<times> 's) \<Rightarrow> (u8 \<Rightarrow> u8 \<Rightarrow> 's \<Rightarrow> (int \<times> u8 list) \<times> 's) \<Rightarrow> ('s \<Rightarrow> 's) \<Rightarrow>
    bus_call list \<Rightarrow> 's \<Rightarrow> (int list \<times> u8 list list) \<times> 's" where
  "bus_run put get wait [] s = (([], []), s)"
| "bus_run put get wait (Wait # cs) s = bus_run put get wait cs (wait s)"
| "bus_run put get wait (Do (Put r bs) # cs) s =
     (case put r bs s of (e, s) \<Rightarrow> case bus_run put get wait cs s of ((es, out), s) \<Rightarrow> ((e # es, out), s))"
| "bus_run put get wait (Do (Get r n) # cs) s =
     (case get r n s of ((e, bs), s) \<Rightarrow> case bus_run put get wait cs s of ((es, out), s) \<Rightarrow> ((e # es, bs # out), s))"

text \<open>A transaction starts when the device is \<open>ready\<close> and leaves it \<open>released\<close>; a wait makes it ready
again.\<close>

locale register_bus =
  fixes put :: "u8 \<Rightarrow> u8 list \<Rightarrow> 's \<Rightarrow> int \<times> 's"
    and get :: "u8 \<Rightarrow> u8 \<Rightarrow> 's \<Rightarrow> (int \<times> u8 list) \<times> 's"
    and wait :: "'s \<Rightarrow> 's"
    and regs :: "'s \<Rightarrow> u8 list"
    and ready :: "'s \<Rightarrow> bool"
    and released :: "'s \<Rightarrow> bool"
  assumes put_law: "ready s \<Longrightarrow> length (regs s) \<le> 256 \<Longrightarrow> reg_fits (length (regs s)) (Put r bs) \<Longrightarrow>
      \<exists>s'. put r bs s = (0, s') \<and> released s' \<and> regs s' = reg_put (unat r) bs (regs s)"
    and get_law: "ready s \<Longrightarrow> length (regs s) \<le> 256 \<Longrightarrow> reg_fits (length (regs s)) (Get r n) \<Longrightarrow>
      \<exists>s'. get r n s = ((0, reg_get (unat r) (unat n) (regs s)), s') \<and> released s' \<and> regs s' = regs s"
    and wait_law: "released s \<Longrightarrow> ready (wait s) \<and> regs (wait s) = regs s"
    and ready_released: "ready s \<Longrightarrow> released s"
begin

text \<open>One transaction followed by a run from the released state.\<close>

lemma do_then:
  assumes "ready s" "length (regs s) \<le> 256" "reg_fits (length (regs s)) op"
    and run: "\<And>s1. released s1 \<Longrightarrow> length (regs s1) = length (regs s) \<Longrightarrow>
      \<exists>s'. bus_run put get wait cs s1
          = ((replicate (length (transactions cs)) 0, fst (reg_run (transactions cs) (regs s1))), s')
        \<and> released s' \<and> regs s' = snd (reg_run (transactions cs) (regs s1))"
  shows "\<exists>s'. bus_run put get wait (Do op # cs) s
      = ((replicate (length (transactions (Do op # cs))) 0, fst (reg_run (transactions (Do op # cs)) (regs s))), s')
    \<and> released s' \<and> regs s' = snd (reg_run (transactions (Do op # cs)) (regs s))"
proof (cases op)
  case (Put r bs)
  then obtain s1 where s1: "put r bs s = (0, s1)" "released s1" "regs s1 = reg_put (unat r) bs (regs s)"
    using put_law [of s r bs] assms(1-3) by auto
  moreover have "length (regs s1) = length (regs s)" using s1(3) assms(3) Put by (simp add: reg_fits_def)
  ultimately show ?thesis using run [of s1] Put by auto
next
  case (Get r n)
  then obtain s1 where "get r n s = ((0, reg_get (unat r) (unat n) (regs s)), s1)" "released s1" "regs s1 = regs s"
    using get_law [of s r n] assms(1-3) by auto
  then show ?thesis using run [of s1] Get by (auto split: prod.splits)
qed

lemma run_refines:
  assumes "ready s" "length (regs s) \<le> 256" "\<forall>op\<in>set (transactions cs). reg_fits (length (regs s)) op" "paced cs"
  shows "\<exists>s'. bus_run put get wait cs s
      = ((replicate (length (transactions cs)) 0, fst (reg_run (transactions cs) (regs s))), s')
    \<and> released s' \<and> regs s' = snd (reg_run (transactions cs) (regs s))"
  using assms
proof (induction cs arbitrary: s rule: paced.induct)
  case 1
  then show ?case using ready_released by simp
next
  case (2 cs)
  note w = wait_law [OF ready_released [OF 2(2)]]
  then show ?case using 2(1) [of "wait s"] 2(3-) by simp
next
  case (3 op)
  then show ?case by (intro do_then) simp_all
next
  case (4 op c cs)
  show ?case
  proof (rule do_then [OF 4(2,3)])
    show "reg_fits (length (regs s)) op" using 4(4) by simp
    show "\<exists>s'. bus_run put get wait (c # cs) s1
          = ((replicate (length (transactions (c # cs))) 0, fst (reg_run (transactions (c # cs)) (regs s1))), s')
        \<and> released s' \<and> regs s' = snd (reg_run (transactions (c # cs)) (regs s1))"
      if "released s1" "length (regs s1) = length (regs s)" for s1
      using 4(1) [of "wait s1"] 4(2-) that wait_law [OF that(1)] by simp
  qed
qed

end

end
