(* ===== verification/Spi_Soft_Correct.thy ===== *)
theory Spi_Soft_Correct
  imports Spi_Soft Register_Bus
begin

text \<open>
  The soft SPI bus implements a register file.  Polling is idempotent, so the number of rounds in a
  delay does not matter (\<open>polls_eq\<close>); a byte sent reaches the slave bit by bit (\<open>send_byte_eq\<close>) and a
  byte read comes back (\<open>read_byte_at\<close>), in every clock mode and bit order; the two kinds of transaction
  keep the contract of \<open>register_bus\<close>.
\<close>

section \<open>Polling\<close>

text \<open>A second round of polling changes nothing, so the number of rounds in a delay does not matter.\<close>

definition sync :: "spi_bus_simulation \<Rightarrow> bool" where
  "sync s \<longleftrightarrow> cs_last s = cs_line s \<and> sck_last s = sck_line s"

definition quiet :: "spi_bus_simulation \<Rightarrow> bool" where
  "quiet s \<longleftrightarrow> sync s \<and> last_state (slave s) = current_state (slave s)
     \<and> (current_state (slave s) = SPI_IDLE \<or> \<not> cs_line s)"

lemma poll_quiet: "quiet s \<Longrightarrow> poll s = s"
  by (cases "current_state (slave s)")
    (auto simp: quiet_def sync_def poll_def receive_state_def transmit_state_def rising_def falling_def Let_def)

lemma poll_makes_quiet: "quiet (poll s)"
  by (cases "current_state (slave s)")
    (auto simp: quiet_def sync_def poll_def receive_state_def transmit_state_def reset_slave_def Let_def split: prod.splits)

lemma poll_poll: "poll (poll s) = poll s"
  by (rule poll_quiet [OF poll_makes_quiet])

lemma polls_eq: "polls n s = (if n = 0 then s else poll s)"
proof (cases n)
  case (Suc k)
  have "(poll ^^ k) (poll s) = poll s" by (induction k) (simp_all add: poll_poll)
  then show ?thesis using Suc by (simp add: polls_def funpow_Suc_right del: funpow.simps)
qed (simp add: polls_def)

lemma poll_tick: "poll (s\<lparr>tick := t\<rparr>) = (poll s)\<lparr>tick := t\<rparr>"
  by (cases "current_state (slave s)")
    (auto simp: poll_def receive_state_def transmit_state_def rising_def falling_def Let_def split: prod.splits)

lemma state_functions_fixed [simp]:
  "sched (receive_state s) = sched s" "tick (receive_state s) = tick s" "cs_line (receive_state s) = cs_line s"
  "sck_line (receive_state s) = sck_line s" "sched (transmit_state s) = sched s" "tick (transmit_state s) = tick s"
  "cs_line (transmit_state s) = cs_line s" "sck_line (transmit_state s) = sck_line s"
  by (simp_all add: receive_state_def transmit_state_def Let_def split: prod.splits)

lemma poll_fixed [simp]: "sched (poll s) = sched s" "tick (poll s) = tick s" "cs_line (poll s) = cs_line s"
  "sck_line (poll s) = sck_line s"
  by (simp_all add: poll_def Let_def split: spi_slave_state.splits)

section \<open>Settled states\<close>

text \<open>\<open>st\<close> is a state in which the slave has seen the lines.\<close>

definition st :: "bool \<Rightarrow> (nat \<Rightarrow> nat) \<Rightarrow> nat \<Rightarrow> bool \<Rightarrow> bool \<Rightarrow> bool \<Rightarrow> spi_slave \<Rightarrow> spi_bus_simulation" where
  "st c q k mo mi v d = \<lparr>cs_line = c, mosi_line = mo, miso_line = mi, sck_line = v, slave = d,
     cs_last = c, sck_last = v, sched = q, tick = k\<rparr>"

definition settle :: "spi_slave \<Rightarrow> spi_slave" where
  "settle d = d\<lparr>last_state := current_state d\<rparr>"

lemma settle_idem [simp]: "last_state d = current_state d \<Longrightarrow> settle d = d" "last_state (settle d) = current_state d"
  "current_state (settle d) = current_state d"
  by (simp_all add: settle_def)

lemma delay_eq: "spi_master_soft_delay sp s = poll (s\<lparr>tick := tick s + 1\<rparr>)"
  by (simp add: spi_master_soft_delay_def polls_eq)

lemma gap_eq: "gap s = (if sched s (tick s) = 0 then s\<lparr>tick := tick s + 1\<rparr> else poll (s\<lparr>tick := tick s + 1\<rparr>))"
  by (simp add: gap_def polls_eq)

lemma gap_delay: "spi_master_soft_delay sp (gap s) = poll (s\<lparr>tick := tick s + 2\<rparr>)"
  by (simp add: delay_eq gap_eq poll_tick poll_poll)

lemma st_quiet: "last_state d = current_state d \<Longrightarrow> current_state d = SPI_IDLE \<or> \<not> c \<Longrightarrow> quiet (st c q k mo mi v d)"
  by (simp add: quiet_def sync_def st_def)

lemma st_upd [simp]:
  "(st c q k mo mi v d)\<lparr>tick := k'\<rparr> = st c q k' mo mi v d" "(st c q k mo mi v d)\<lparr>mosi_line := mo'\<rparr> = st c q k mo' mi v d"
  "tick (st c q k mo mi v d) = k" "sched (st c q k mo mi v d) = q" "miso_line (st c q k mo mi v d) = mi"
  "slave (st c q k mo mi v d) = d"
  by (simp_all add: st_def)

lemma st_gap: "last_state d = current_state d \<Longrightarrow> current_state d = SPI_IDLE \<or> \<not> c \<Longrightarrow>
    gap (st c q k mo mi v d) = st c q (k + 1) mo mi v d"
  by (simp add: gap_eq poll_quiet st_quiet)

lemma st_mosi: "last_state d = current_state d \<Longrightarrow> current_state d = SPI_IDLE \<or> \<not> c \<Longrightarrow>
    set_mosi b (st c q k mo mi v d) = st c q (k + 1) b mi v d"
  by (simp add: set_mosi_def st_gap)

text \<open>The clock level of the first half of a bit; the slave samples at the other edge.\<close>

definition lead :: "spi_master \<Rightarrow> bool" where
  "lead m = ((m_cpha m = 0) \<noteq> (m_cpol m = 0))"

definition same_mode :: "spi_master \<Rightarrow> spi_slave \<Rightarrow> bool" where
  "same_mode m d \<longleftrightarrow> m_cpha m = sl_cpha d \<and> m_cpol m = sl_cpol d \<and> m_bit_order m = sl_bit_order d \<and> sl_bit_order d \<le> 1"

lemma send_clock_eq:
  "send_clock m s = spi_master_soft_delay (m_speed m) (set_sck (\<not> lead m)
     (spi_master_soft_delay (m_speed m) (set_sck (lead m) s)))"
  by (simp add: send_clock_def lead_def Let_def)

lemma edge_eq: "spi_master_soft_delay sp (set_sck u s) = poll (s\<lparr>sck_line := u, tick := tick s + 2\<rparr>)"
  by (simp add: set_sck_def gap_delay)

text \<open>What the slave makes of an edge to level \<open>u\<close>.\<close>

lemma edge_receive:
  assumes "same_mode m d" "last_state d = current_state d" "current_state d = SPI_MATCH_ADDRESS \<or> current_state d = SPI_RECEIVING_DATA"
  shows "spi_master_soft_delay sp (set_sck u (st False q k mo mi v d))
    = (if v \<noteq> u \<and> u = (\<not> lead m)
       then case spi_slave_receive_bit mo mi d of (mi', d') \<Rightarrow> st False q (k + 2) mo mi' u (settle d')
       else st False q (k + 2) mo mi u d)"
  unfolding edge_eq using assms
  by (auto simp: st_def poll_def receive_state_def rising_def falling_def settle_def lead_def same_mode_def Let_def
      split: prod.splits)

lemma edge_transmit:
  assumes "same_mode m d" "last_state d = current_state d" "current_state d = SPI_TRANSMITTING_DATA"
  shows "poll ((st False q k mo mi v d)\<lparr>sck_line := u, tick := k'\<rparr>)
    = (if v \<noteq> u \<and> u = lead m
       then case spi_slave_prepare_bit d of (mi', d') \<Rightarrow> st False q k' mo mi' u (settle d')
       else st False q k' mo mi u d)"
  using assms
  by (auto simp: st_def poll_def transmit_state_def rising_def falling_def settle_def lead_def same_mode_def Let_def
      split: prod.splits)

definition wire_bit :: "spi_master \<Rightarrow> u8 \<Rightarrow> nat \<Rightarrow> bool" where
  "wire_bit m data i = (if m_bit_order m = SPI_BIT_ORDER_MSB then bit data i else bit data (7 - i))"

lemma send_bit_eq:
  assumes "same_mode m d" "last_state d = current_state d" "current_state d = SPI_MATCH_ADDRESS \<or> current_state d = SPI_RECEIVING_DATA"
  shows "send_bit m data i (st False q k mo mi v d)
    = (case spi_slave_receive_bit (wire_bit m data i) mi d of (mi', d') \<Rightarrow>
        st False q (k + 5) (wire_bit m data i) mi' (\<not> lead m) (settle d'))"
  using assms
  by (simp add: send_bit_def send_clock_eq st_mosi edge_receive wire_bit_def [symmetric] Let_def eval_nat_numeral split: prod.splits)

section \<open>A byte to the slave\<close>

text \<open>The part of the byte the slave has after \<open>k\<close> bits.\<close>

fun got :: "spi_master \<Rightarrow> u8 \<Rightarrow> nat \<Rightarrow> u8" where
  "got m data 0 = 0"
| "got m data (Suc k) = got m data k OR
     (if wire_bit m data (7 - k) then if m_bit_order m = 0 then push_bit (7 - k) 1 else push_bit k 1 else 0)"

lemma bits_8: "rev [0..<8] = [7, 6, 5, 4, 3, 2, 1, 0 :: nat]"
  by code_simp

lemma lt_8: "n < 8 \<longleftrightarrow> n = 0 \<or> n = 1 \<or> n = 2 \<or> n = 3 \<or> n = 4 \<or> n = 5 \<or> n = 6 \<or> n = (7 :: nat)"
  by auto

lemma bit_if: "bit (if c then x else y) n = (if c then bit x n else bit y n)"
  by simp

lemma got_8: "got m data 8 = data"
proof -
  have e: "got m data 8 = got m data (Suc (Suc (Suc (Suc (Suc (Suc (Suc (Suc 0))))))))" by (simp add: eval_nat_numeral)
  show ?thesis
  proof (rule bit_word_eqI)
    fix n assume "n < LENGTH(8)"
    then have "n < 8" by simp
    then show "bit (got m data 8) n \<longleftrightarrow> bit data n"
      unfolding e lt_8
      by (elim disjE; cases "m_bit_order m = 0"; simp add: wire_bit_def bit_or_iff bit_push_bit_iff bit_if bit_1_iff)
  qed
qed

text \<open>The slave in the middle of a byte.\<close>

definition mid :: "spi_master \<Rightarrow> u8 \<Rightarrow> nat \<Rightarrow> spi_slave \<Rightarrow> spi_slave" where
  "mid m data k d = d\<lparr>bit_count := of_nat k, current_byte := got m data k\<rparr>"

lemma order_cases:
  fixes x :: u8
  assumes "x \<le> 1"
  obtains "x = 0" | "x = 1"
proof -
  have "unat x \<le> 1" using assms by (simp add: word_le_nat_alt)
  then have "unat x = 0 \<or> unat x = 1" by linarith
  then show thesis using that by (auto simp: word_unat_eq_iff)
qed

lemma receive_bit_mid:
  assumes "same_mode m d" "k < 7" 
  shows "spi_slave_receive_bit (wire_bit m data (7 - k)) mi (mid m data k d) = (mi, mid m data (Suc k) d)"
proof -
  have u: "unat (of_nat k + 1 :: u8) = Suc k" using assms(2) by (simp add: unat_word_ariths unat_of_nat)
  have n: "of_nat k + 1 \<noteq> (8 :: u8)" "of_nat k + 1 < (9 :: u8)" "1 + of_nat k = (of_nat k + 1 :: u8)"
    using u assms(2) by (auto simp: word_less_nat_alt dest: arg_cong [where f = unat])
  have le: "sl_bit_order d \<le> 1" and mo: "m_bit_order m = sl_bit_order d" using assms(1) by (simp_all add: same_mode_def)
  from le show ?thesis
    by (rule order_cases) (simp_all add: spi_slave_receive_bit_def mid_def Let_def u n mo)
qed

lemma mid_keeps [simp]:
  "current_state (mid m data k d) = current_state d" "last_state (mid m data k d) = last_state d"
  "same_mode m (mid m data k d) = same_mode m d"
  by (simp_all add: mid_def same_mode_def)

definition rx :: "spi_slave \<Rightarrow> bool" where
  "rx d \<longleftrightarrow> last_state d = current_state d \<and> bit_count d = 0 \<and> current_byte d = 0
     \<and> (current_state d = SPI_MATCH_ADDRESS \<or> current_state d = SPI_RECEIVING_DATA)"

lemma send_bit_mid:
  assumes "same_mode m d" "rx d" "k < 7"
  shows "send_bit m data (7 - k) (st False q t mo mi v (mid m data k d))
    = st False q (t + 5) (wire_bit m data (7 - k)) mi (\<not> lead m) (mid m data (Suc k) d)"
  using assms by (simp add: send_bit_eq receive_bit_mid rx_def)

definition last_bit :: "u8 \<Rightarrow> bool \<Rightarrow> spi_slave \<Rightarrow> bool \<times> spi_slave" where
  "last_bit data mi d =
     (if current_state d = SPI_MATCH_ADDRESS then match_address mi (d\<lparr>bit_count := 8, current_byte := data\<rparr>)
      else (mi, (spi_slave_handle_byte_received (d\<lparr>bit_count := 8, current_byte := data, byte_count := byte_count d + 1\<rparr>) data)
        \<lparr>bit_count := 0, current_byte := 0\<rparr>))"

lemma receive_last:
  assumes "same_mode m d" "rx d"
  shows "spi_slave_receive_bit (wire_bit m data 0) mi (mid m data 7 d) = last_bit data mi d"
proof -
  have le: "sl_bit_order d \<le> 1" and mo: "m_bit_order m = sl_bit_order d" using assms(1) by (simp_all add: same_mode_def)
  have g: "got m data 7 OR (if wire_bit m data 0 then if m_bit_order m = 0 then 1 else 128 else 0) = data"
  proof -
    have "got m data (Suc 7) = data" using got_8 [of m data] by (simp del: got.simps)
    then show ?thesis unfolding got.simps by (auto split: if_splits)
  qed
  have swap: "d\<lparr>current_byte := x, bit_count := y\<rparr> = d\<lparr>bit_count := y, current_byte := x\<rparr>" for x y
    by (cases d) simp
  have swap': "d\<lparr>current_byte := x, bit_count := y, byte_count := z\<rparr> = d\<lparr>bit_count := y, current_byte := x, byte_count := z\<rparr>" for x y z
    by (cases d) simp
  from le show ?thesis
    by (rule order_cases)
      (use assms(2) g in \<open>auto simp: spi_slave_receive_bit_def mid_def Let_def rx_def last_bit_def mo swap swap' split: if_splits\<close>)
qed

lemma send_byte_eq:
  assumes "same_mode m d" "rx d"
  shows "spi_master_soft_send_byte m data (st False q t mo mi v d)
    = (case last_bit data mi d of (mi', d') \<Rightarrow> st False q (t + 40) (wire_bit m data 0) mi' (\<not> lead m) (settle d'))"
proof -
  have "d = mid m data 0 d" using assms(2) by (simp add: rx_def mid_def)
  moreover note s = send_bit_mid [OF assms]
  have "fold (send_bit m data) [7, 6, 5, 4, 3, 2, 1] (st False q t mo mi v (mid m data 0 d))
      = st False q (t + 35) (wire_bit m data 1) mi (\<not> lead m) (mid m data 7 d)"
    using s [of 0] s [of 1] s [of 2] s [of 3] s [of 4] s [of 5] s [of 6]
    by (simp add: eval_nat_numeral)
  ultimately have "fold (send_bit m data) [7, 6, 5, 4, 3, 2, 1] (st False q t mo mi v d)
      = st False q (t + 35) (wire_bit m data 1) mi (\<not> lead m) (mid m data 7 d)" by simp
  moreover have "send_bit m data 0 (st False q (t + 35) (wire_bit m data 1) mi (\<not> lead m) (mid m data 7 d))
      = (case last_bit data mi d of (mi', d') \<Rightarrow> st False q (t + 40) (wire_bit m data 0) mi' (\<not> lead m) (settle d'))"
    using assms by (subst send_bit_eq) (simp_all add: receive_last, simp_all add: rx_def add.commute)
  ultimately show ?thesis by (simp add: spi_master_soft_send_byte_def bits_8)
qed

section \<open>A transaction\<close>

definition idle :: "spi_slave \<Rightarrow> bool" where
  "idle d \<longleftrightarrow> current_state d = SPI_IDLE \<and> last_state d = SPI_IDLE \<and> bit_count d = 0 \<and> current_byte d = 0"

definition selected :: "spi_slave \<Rightarrow> spi_slave" where
  "selected d = d\<lparr>current_state := SPI_MATCH_ADDRESS, last_state := SPI_MATCH_ADDRESS\<rparr>"

lemma selected_rx: "idle d \<Longrightarrow> rx (selected d)" "same_mode m (selected d) = same_mode m d"
  by (simp_all add: idle_def selected_def rx_def same_mode_def)

text \<open>Whether the slave sees the select line before or after the first clock edge makes no difference.\<close>

lemma poll_select:
  assumes "idle d"
  shows "poll \<lparr>cs_line = False, mosi_line = mo, miso_line = mi, sck_line = u, slave = d, cs_last = True, sck_last = v,
    sched = q, tick = t\<rparr> = st False q t mo mi u (selected d)"
  using assms by (simp add: poll_def idle_def st_def selected_def Let_def)

lemma edge_lead:
  assumes "same_mode m d" "idle d"
  shows "poll ((st False q t mo mi v (selected d))\<lparr>sck_line := lead m, tick := t'\<rparr>) = st False q t' mo mi (lead m) (selected d)"
  using assms
  by (auto simp: st_def poll_def receive_state_def rising_def falling_def selected_def lead_def same_mode_def Let_def)

lemma first_edge:
  assumes "same_mode m d" "idle d"
  shows "spi_master_soft_delay sp (set_sck (lead m) (set_mosi b (set_cs False (st True q t mo mi v d))))
    = st False q (t + 4) b mi (lead m) (selected d)"
proof -
  have 1: "set_cs False (st True q t mo mi v d)
      = (if q t = 0 then \<lparr>cs_line = False, mosi_line = mo, miso_line = mi, sck_line = v, slave = d, cs_last = True,
           sck_last = v, sched = q, tick = t + 1\<rparr> else st False q (t + 1) mo mi v (selected d))"
    by (auto simp: set_cs_def gap_eq st_def poll_select [OF assms(2), unfolded st_def])
  have m: "set_mosi b (st False q (t + 1) mo mi v (selected d)) = st False q (t + 2) b mi v (selected d)"
    by (simp add: st_mosi selected_def)
  have u: "set_mosi b \<lparr>cs_line = False, mosi_line = mo, miso_line = mi, sck_line = v, slave = d, cs_last = True,
           sck_last = v, sched = q, tick = t + 1\<rparr>
      = (if q (t + 1) = 0 then \<lparr>cs_line = False, mosi_line = b, miso_line = mi, sck_line = v, slave = d, cs_last = True,
           sck_last = v, sched = q, tick = t + 2\<rparr> else st False q (t + 2) b mi v (selected d))"
    by (auto simp: set_mosi_def gap_eq poll_select [OF assms(2)])
  show ?thesis
    unfolding 1 edge_eq using u m edge_lead [OF assms] poll_select [OF assms(2)]
    by (auto simp: eval_nat_numeral)
qed

lemma first_bit:
  assumes "same_mode m d" "idle d"
  shows "send_bit m data i (set_cs False (st True q t mo mi v d)) = send_bit m data i (st False q (t + 1) mo mi v (selected d))"
proof -
  have "rx (selected d)" "same_mode m (selected d)" using assms selected_rx by auto
  then have "spi_master_soft_delay sp (set_sck (lead m) (set_mosi b (st False q (t + 1) mo mi v (selected d))))
      = st False q (t + 4) b mi (lead m) (selected d)" for sp b
    by (simp add: st_mosi edge_receive rx_def eval_nat_numeral)
  then show ?thesis by (simp only: send_bit_def send_clock_eq Let_def first_edge [OF assms])
qed

lemma first_byte:
  assumes "same_mode m d" "idle d"
  shows "spi_master_soft_send_byte m data (set_cs False (st True q t mo mi v d))
    = spi_master_soft_send_byte m data (st False q (t + 1) mo mi v (selected d))"
  by (simp add: spi_master_soft_send_byte_def bits_8 first_bit [OF assms])

section \<open>Writing registers\<close>

definition receiving :: "spi_slave \<Rightarrow> bool" where
  "receiving d \<longleftrightarrow> rx d \<and> current_state d = SPI_RECEIVING_DATA"

definition addressed :: "u8 \<Rightarrow> spi_slave \<Rightarrow> spi_slave" where
  "addressed r d = d\<lparr>current_state := SPI_RECEIVING_DATA, last_state := SPI_RECEIVING_DATA,
     is_read_operation := False, index := r\<rparr>"

lemma mask_7F:
  fixes reg :: u8
  shows "(0x7F AND reg) AND 0x80 = 0" "(0x7F AND reg) AND 0x7F = 0x7F AND reg"
    "(0x80 OR reg) AND 0x80 \<noteq> 0" "(0x80 OR reg) AND 0x7F = 0x7F AND reg"
proof -
  show "(0x7F AND reg) AND 0x80 = 0" by (simp add: and.assoc and.left_commute and.commute)
  show "(0x7F AND reg) AND 0x7F = 0x7F AND reg" by (simp add: and.left_commute and.commute)
  have "bit ((0x80 OR reg) AND 0x80) 7" by (simp add: bit_or_iff bit_and_iff)
  then show "(0x80 OR reg) AND 0x80 \<noteq> 0" by (metis bit_0_eq bot_apply bot_bool_def)
  show "(0x80 OR reg) AND 0x7F = 0x7F AND reg"
    by (simp only: bit.conj_disj_distrib2) (simp add: and.commute)
qed

lemma write_address:
  assumes "same_mode m d" "idle d" "unat (0x7F AND reg) < unat (buffer_size d)"
  obtains mo' where "spi_master_soft_send_byte m (0x7F AND reg) (set_cs False (st True q t mo mi v d))
    = st False q (t + 41) mo' mi (\<not> lead m) (addressed (0x7F AND reg) d)"
proof -
  have s: "rx (selected d)" "same_mode m (selected d)" using assms selected_rx by auto
  have "settle (snd (last_bit (0x7F AND reg) mi (selected d))) = addressed (0x7F AND reg) d"
    "fst (last_bit (0x7F AND reg) mi (selected d)) = mi"
    using assms(2,3) by (cases d, simp_all add: last_bit_def selected_def match_address_def addressed_def settle_def
      idle_def mask_7F Let_def)+
  then show thesis
    using send_byte_eq [OF s(2,1), of "0x7F AND reg" q "t + 1" mo mi v]
    by (intro that [of "wire_bit m (0x7F AND reg) 0"]) (simp add: first_byte [OF assms(1,2)] case_prod_beta add.commute)
qed

definition stored :: "u8 \<Rightarrow> spi_slave \<Rightarrow> spi_slave" where
  "stored b d = spi_slave_handle_byte_received (d\<lparr>byte_count := byte_count d + 1\<rparr>) b"

lemma stored_keeps:
  "receiving d \<Longrightarrow> receiving (stored b d)" "same_mode m (stored b d) = same_mode m d"
  "buffer_size (stored b d) = buffer_size d"
  by (simp_all add: stored_def receiving_def rx_def same_mode_def spi_slave_handle_byte_received_def)

lemma last_bit_stored: "receiving d \<Longrightarrow> last_bit b mi d = (mi, stored b d)"
  by (cases d) (auto simp: last_bit_def receiving_def rx_def stored_def spi_slave_handle_byte_received_def)

lemma send_data:
  assumes "same_mode m d" "receiving d"
  shows "\<exists>mo' v'. fold (\<lambda>i. spi_master_soft_send_byte m (bs ! i)) [0..<n] (st False q t mo mi v d)
    = st False q (t + 40 * n) mo' mi v' (fold (\<lambda>i. stored (bs ! i)) [0..<n] d)
    \<and> receiving (fold (\<lambda>i. stored (bs ! i)) [0..<n] d) \<and> same_mode m (fold (\<lambda>i. stored (bs ! i)) [0..<n] d)"
proof (induction n)
  case 0
  then show ?case using assms by auto
next
  case (Suc n)
  then obtain mo' v' where IH: "fold (\<lambda>i. spi_master_soft_send_byte m (bs ! i)) [0..<n] (st False q t mo mi v d)
    = st False q (t + 40 * n) mo' mi v' (fold (\<lambda>i. stored (bs ! i)) [0..<n] d)"
    "receiving (fold (\<lambda>i. stored (bs ! i)) [0..<n] d)" "same_mode m (fold (\<lambda>i. stored (bs ! i)) [0..<n] d)"
    by blast
  moreover have "rx (fold (\<lambda>i. stored (bs ! i)) [0..<n] d)" using IH(2) by (simp add: receiving_def)
  ultimately show ?case
    using stored_keeps by (auto simp: send_byte_eq last_bit_stored receiving_def rx_def algebra_simps)
qed

lemma stored_in:
  assumes "unat (index d) < unat (buffer_size d)"
  shows "buffer (stored b d) = (buffer d)[unat (index d) := b]" "index (stored b d) = index d + 1"
  using assms by (simp_all add: stored_def spi_slave_handle_byte_received_def)

lemma stored_bytes:
  assumes "unat (index d) + n \<le> unat (buffer_size d)" "length (buffer d) = unat (buffer_size d)" "unat (index d) + n \<le> 256" "n \<le> length bs"
  shows "buffer (fold (\<lambda>i. stored (bs ! i)) [0..<n] d)
    = take (unat (index d)) (buffer d) @ take n bs @ drop (unat (index d) + n) (buffer d)
    \<and> (n < 256 - unat (index d) \<longrightarrow> unat (index (fold (\<lambda>i. stored (bs ! i)) [0..<n] d)) = unat (index d) + n)
    \<and> buffer_size (fold (\<lambda>i. stored (bs ! i)) [0..<n] d) = buffer_size d"
  using assms
proof (induction n)
  case (Suc n)
  define dn where "dn = fold (\<lambda>i. stored (bs ! i)) [0..<n] d"
  have IH: "buffer dn = take (unat (index d)) (buffer d) @ take n bs @ drop (unat (index d) + n) (buffer d)"
    "unat (index dn) = unat (index d) + n" "buffer_size dn = buffer_size d"
    using Suc by (auto simp: dn_def)
  have s: "fold (\<lambda>i. stored (bs ! i)) [0..<Suc n] d = stored (bs ! n) dn" by (simp add: dn_def)
  have "drop (unat (index d) + n) (buffer d) = buffer d ! (unat (index d) + n) # drop (unat (index d) + Suc n) (buffer d)"
    using Suc.prems by (simp add: Cons_nth_drop_Suc)
  moreover have "take (Suc n) bs = take n bs @ [bs ! n]" using Suc.prems by (simp add: take_Suc_conv_app_nth)
  moreover have "unat (index dn + 1) = unat (index d) + Suc n" if "Suc n < 256 - unat (index d)"
    using that IH(2) by (simp add: unat_word_ariths)
  ultimately show ?case
    using IH Suc.prems unfolding s by (simp add: stored_in stored_keeps list_update_append)
qed auto

text \<open>Raising the select line: the slave resets once it has seen it.\<close>

lemma deselect:
  assumes "last_state d = current_state d" "current_state d \<noteq> SPI_IDLE"
  shows "\<exists>mo' mi' t'. poll (set_cs True (st False q t mo mi v d)) = st True q t' mo' mi' v (settle (reset_slave d))"
    "buffer (slave (set_cs True (st False q t mo mi v d))) = buffer d"
proof -
  have "\<exists>mo' mi'. poll \<lparr>cs_line = True, mosi_line = mo, miso_line = mi, sck_line = v, slave = d, cs_last = False, sck_last = v,
      sched = q, tick = t + 1\<rparr> = st True q (t + 1) mo' mi' v (settle (reset_slave d))"
    using assms by (cases "current_state d") (auto simp: poll_def receive_state_def transmit_state_def st_def settle_def reset_slave_def Let_def)
  then show "\<exists>mo' mi' t'. poll (set_cs True (st False q t mo mi v d)) = st True q t' mo' mi' v (settle (reset_slave d))"
    "buffer (slave (set_cs True (st False q t mo mi v d))) = buffer d"
    by (auto simp: set_cs_def gap_eq st_def poll_poll settle_def reset_slave_def)
qed

section \<open>Reading registers\<close>

definition sending :: "spi_master \<Rightarrow> spi_slave \<Rightarrow> bool" where
  "sending m d \<longleftrightarrow> same_mode m d \<and> current_state d = SPI_TRANSMITTING_DATA \<and> last_state d = SPI_TRANSMITTING_DATA"

definition pos :: "spi_slave \<Rightarrow> u8 \<Rightarrow> nat \<Rightarrow> spi_slave" where
  "pos d B k = d\<lparr>bit_count := of_nat k, current_byte := B\<rparr>"

lemma pos_keeps [simp]: "sending m (pos d B k) = sending m d" "index (pos d B k) = index d" "buffer (pos d B k) = buffer d"
  "buffer_size (pos d B k) = buffer_size d" "pos (pos d B k) B' k' = pos d B' k'"
  by (simp_all add: pos_def sending_def same_mode_def)

definition reload :: "spi_slave \<Rightarrow> spi_slave" where
  "reload d = snd (spi_slave_get_next_tx_byte (d\<lparr>byte_count := byte_count d + 1\<rparr>))"

lemma reload_keeps: "sending m d \<Longrightarrow> sending m (reload d)" "buffer (reload d) = buffer d" "buffer_size (reload d) = buffer_size d"
  "unat (index d) < unat (buffer_size d) \<Longrightarrow> index (reload d) = index d + 1"
  by (simp_all add: reload_def spi_slave_get_next_tx_byte_def sending_def same_mode_def)

lemma prepare_pos:
  assumes "sending m d" "k < 8"
  shows "spi_slave_prepare_bit (pos d B k) = (wire_bit m B (7 - k), pos d B (Suc k))"
proof -
  have u: "unat (of_nat k + 1 :: u8) = Suc k" using assms(2) by (simp add: unat_word_ariths unat_of_nat)
  then have n: "of_nat k + 1 \<le> (8 :: u8)" "1 + of_nat k = (of_nat k + 1 :: u8)" using assms(2) by (simp_all add: word_le_nat_alt)
  have le: "sl_bit_order d \<le> 1" and mo: "m_bit_order m = sl_bit_order d"
    using assms(1) by (simp_all add: same_mode_def sending_def)
  from le show ?thesis
    using assms(2) by (cases rule: order_cases) (simp_all add: spi_slave_prepare_bit_def pos_def Let_def u n mo wire_bit_def)
qed

lemma prepare_reload:
  assumes "sending m d"
  defines "B \<equiv> fst (spi_slave_get_next_tx_byte d)"
  shows "spi_slave_prepare_bit (pos d C 8) = (wire_bit m B 7, pos (reload d) B 1)"
proof -
  have le: "sl_bit_order d \<le> 1" and mo: "m_bit_order m = sl_bit_order d"
    using assms(1) by (simp_all add: same_mode_def sending_def)
  from le show ?thesis
    by (cases rule: order_cases)
      (auto simp: spi_slave_prepare_bit_def pos_def Let_def mo wire_bit_def B_def reload_def spi_slave_get_next_tx_byte_def)
qed

text \<open>One clock of a read: the bit is on the line before the clock with CPHA 0, and after its first
edge with CPHA 1.\<close>

lemma sending_st: "sending m d \<Longrightarrow> last_state d = current_state d" "sending m d \<Longrightarrow> current_state d = SPI_TRANSMITTING_DATA"
  "sending m d \<Longrightarrow> same_mode m d"
  by (simp_all add: sending_def)

lemma no_setup:
  assumes "sending m d" "v = u \<or> u \<noteq> lead m"
  shows "set_sck u (st False q t mo mi v d) = (if q t = 0 then (st False q (t + 1) mo mi v d)\<lparr>sck_line := u\<rparr> else st False q (t + 1) mo mi u d)"
    "poll ((st False q t mo mi v d)\<lparr>sck_line := u\<rparr>) = st False q t mo mi u d"
  using edge_transmit [of m d t u q t mo mi v] edge_transmit [of m d "t + 1" u q t mo mi v] assms sending_st [OF assms(1)]
  by (auto simp: set_sck_def gap_eq st_def)

lemma read_early:
  assumes "sending m d" "m_cpha m = 0" "spi_slave_prepare_bit d = (mi', d')" "last_state d' = current_state d'"
  shows "read_clock m (st False q t mo mi v d) = (mi, st False q (t + 5) mo mi' (lead m) d')"
proof -
  have e: "(\<not> lead m) = v \<or> (\<not> lead m) \<noteq> lead m" by simp
  have r: "read_clock m s = (case miso_read (set_sck (\<not> lead m) s) of (b, s) \<Rightarrow>
      (b, spi_master_soft_delay (m_speed m) (set_sck (lead m) (spi_master_soft_delay (m_speed m) s))))" for s
    using assms(2) by (simp add: read_clock_def lead_def Let_def)
  have "miso_line (set_sck (\<not> lead m) (st False q t mo mi v d)) = mi"
    using no_setup(1) [OF assms(1), of v "\<not> lead m"] by (simp add: st_def)
  moreover have "spi_master_soft_delay sp (gap (set_sck (\<not> lead m) (st False q t mo mi v d))) = st False q (t + 3) mo mi (\<not> lead m) d" for sp
    using no_setup [OF assms(1), of v "\<not> lead m"] sending_st [OF assms(1)] poll_quiet [OF st_quiet]
    by (auto simp: gap_delay eval_nat_numeral) (simp_all add: st_def)
  ultimately show ?thesis
    using edge_transmit [of m d "t + 5" "lead m" q "t + 3" mo mi "\<not> lead m"] sending_st [OF assms(1)] assms(3,4)
    by (simp add: r miso_read_def edge_eq add.commute)
qed

lemma read_late:
  assumes "sending m d" "m_cpha m \<noteq> 0" "spi_slave_prepare_bit d = (mi', d')" "sending m d'"
  shows "read_clock m (st False q t mo mi (\<not> lead m) d) = (mi', st False q (t + 5) mo mi' (\<not> lead m) d')"
proof -
  have r: "read_clock m s = (case miso_read (set_sck (\<not> lead m) (spi_master_soft_delay (m_speed m) (set_sck (lead m) s))) of (b, s) \<Rightarrow>
      (b, spi_master_soft_delay (m_speed m) s))" for s
    using assms(2) by (simp add: read_clock_def lead_def Let_def)
  have 1: "spi_master_soft_delay sp (set_sck (lead m) (st False q t mo mi (\<not> lead m) d)) = st False q (t + 2) mo mi' (lead m) d'" for sp
    using edge_transmit [of m d "t + 2" "lead m" q t mo mi "\<not> lead m"] sending_st [OF assms(1)] sending_st [OF assms(4)] assms(3)
    by (simp add: edge_eq)
  have "miso_line (set_sck (\<not> lead m) (st False q (t + 2) mo mi' (lead m) d')) = mi'"
    using no_setup(1) [OF assms(4), of "lead m" "\<not> lead m"] by (simp add: st_def)
  moreover have "spi_master_soft_delay sp (gap (set_sck (\<not> lead m) (st False q (t + 2) mo mi' (lead m) d'))) = st False q (t + 5) mo mi' (\<not> lead m) d'" for sp
    using no_setup [OF assms(4), of "lead m" "\<not> lead m"] sending_st [OF assms(4)] poll_quiet [OF st_quiet]
    by (auto simp: gap_delay eval_nat_numeral) (simp_all add: st_def)
  ultimately show ?thesis by (simp add: r 1 miso_read_def)
qed

lemma read_bit_got:
  assumes "read_clock m s = (wire_bit m B (7 - k), s')" "k < 8"
  shows "read_bit m (7 - k) (got m B k, s) = (got m B (Suc k), s')"
  using assms by (auto simp: read_bit_def)

lemma pos_settled: "sending m d \<Longrightarrow> last_state (pos d B k) = current_state (pos d B k)"
  by (simp add: pos_def sending_def)

lemma early_step:
  assumes "sending m d" "m_cpha m = 0" "k < 7"
  shows "read_bit m (7 - k) (got m B k, st False q t mo (wire_bit m B (7 - k)) v (pos d B (Suc k)))
    = (got m B (Suc k), st False q (t + 5) mo (wire_bit m B (7 - Suc k)) (lead m) (pos d B (Suc (Suc k))))"
  using assms prepare_pos [OF assms(1), of "Suc k" B] pos_settled [OF assms(1)]
  by (intro read_bit_got read_early) auto

lemma early_last:
  assumes "sending m d" "m_cpha m = 0"
  defines "B' \<equiv> fst (spi_slave_get_next_tx_byte d)"
  shows "read_bit m 0 (got m B 7, st False q t mo (wire_bit m B 0) v (pos d B 8))
    = (B, st False q (t + 5) mo (wire_bit m B' 7) (lead m) (pos (reload d) B' 1))"
  using read_bit_got [of m _ B 7] read_early [of m "pos d B 8"] prepare_reload [OF assms(1), of B] assms(1,2)
    pos_settled [OF reload_keeps(1) [OF assms(1)]] got_8 [of m B]
  by (simp add: B'_def del: got.simps)

lemma early_byte:
  assumes "sending m d" "m_cpha m = 0"
  defines "B' \<equiv> fst (spi_slave_get_next_tx_byte d)"
  shows "spi_master_soft_read_byte m (st False q t mo (wire_bit m B 7) v (pos d B 1))
    = (B, st False q (t + 40) mo (wire_bit m B' 7) (lead m) (pos (reload d) B' 1))"
proof -
  note s = early_step [OF assms(1,2), of _ B q _ mo]
  have "fold (read_bit m) [7, 6, 5, 4, 3, 2, 1] (got m B 0, st False q t mo (wire_bit m B 7) v (pos d B 1))
     = (got m B 7, st False q (t + 35) mo (wire_bit m B 0) (lead m) (pos d B 8))"
    using s [of 0 t v] s [of 1 "t + 5" "lead m"] s [of 2 "t + 10" "lead m"] s [of 3 "t + 15" "lead m"]
      s [of 4 "t + 20" "lead m"] s [of 5 "t + 25" "lead m"] s [of 6 "t + 30" "lead m"]
    by (simp add: add.commute numeral_2_eq_2 [symmetric] numeral_3_eq_3 [symmetric] del: got.simps)
  then have "fold (read_bit m) [7, 6, 5, 4, 3, 2, 1, 0] (got m B 0, st False q t mo (wire_bit m B 7) v (pos d B 1))
     = (B, st False q (t + 40) mo (wire_bit m B' 7) (lead m) (pos (reload d) B' 1))"
    using early_last [OF assms(1,2), of B q "t + 35" mo "lead m"] by (simp add: B'_def add.commute del: got.simps)
  then show ?thesis by (simp add: spi_master_soft_read_byte_def bits_8)
qed

lemma late_step:
  assumes "sending m d" "m_cpha m \<noteq> 0" "k < 8"
  shows "read_bit m (7 - k) (got m B k, st False q t mo mi (\<not> lead m) (pos d B k))
    = (got m B (Suc k), st False q (t + 5) mo (wire_bit m B (7 - k)) (\<not> lead m) (pos d B (Suc k)))"
  using assms prepare_pos [OF assms(1,3), of B]
  by (intro read_bit_got read_late) auto

lemma late_tail:
  assumes "sending m d" "m_cpha m \<noteq> 0"
  shows "fold (read_bit m) [6, 5, 4, 3, 2, 1, 0] (got m B 1, st False q t mo mi (\<not> lead m) (pos d B 1))
     = (B, st False q (t + 35) mo (wire_bit m B 0) (\<not> lead m) (pos d B 8))"
proof -
  note s = late_step [OF assms, of _ B q _ mo]
  show ?thesis
    using s [of 1 t mi] s [of 2 "t + 5" "wire_bit m B 6"] s [of 3 "t + 10" "wire_bit m B 5"] s [of 4 "t + 15" "wire_bit m B 4"]
      s [of 5 "t + 20" "wire_bit m B 3"] s [of 6 "t + 25" "wire_bit m B 2"] s [of 7 "t + 30" "wire_bit m B 1"] got_8 [of m B]
    by (simp add: add.commute numeral_2_eq_2 [symmetric] numeral_3_eq_3 [symmetric] del: got.simps)
qed

lemma late_byte:
  assumes "sending m d" "m_cpha m \<noteq> 0"
  shows "spi_master_soft_read_byte m (st False q t mo mi (\<not> lead m) (pos d B 0))
    = (B, st False q (t + 40) mo (wire_bit m B 0) (\<not> lead m) (pos d B 8))"
  using late_step [OF assms, of 0 B q t mo mi] late_tail [OF assms, of B q "t + 5" mo "wire_bit m B 7"]
  by (simp add: spi_master_soft_read_byte_def bits_8 add.commute)

lemma late_next_byte:
  assumes "sending m d" "m_cpha m \<noteq> 0"
  defines "B' \<equiv> fst (spi_slave_get_next_tx_byte d)"
  shows "spi_master_soft_read_byte m (st False q t mo mi (\<not> lead m) (pos d C 8))
    = (B', st False q (t + 40) mo (wire_bit m B' 0) (\<not> lead m) (pos (reload d) B' 8))"
proof -
  have s: "sending m (reload d)" using reload_keeps(1) assms(1) .
  have "read_clock m (st False q t mo mi (\<not> lead m) (pos d C 8)) = (wire_bit m B' 7, st False q (t + 5) mo (wire_bit m B' 7) (\<not> lead m) (pos (reload d) B' 1))"
    using prepare_reload [OF assms(1), of C] s assms(1,2) by (intro read_late) (auto simp: B'_def)
  then have "read_bit m 7 (0, st False q t mo mi (\<not> lead m) (pos d C 8)) = (got m B' 1, st False q (t + 5) mo (wire_bit m B' 7) (\<not> lead m) (pos (reload d) B' 1))"
    using read_bit_got [of m _ B' 0] by simp
  then show ?thesis
    using late_tail [OF s assms(2), of B' q "t + 5" mo "wire_bit m B' 7"]
    by (simp add: spi_master_soft_read_byte_def bits_8 add.commute del: got.simps)
qed

lemma st_inject [simp]: "st c q k mo mi v d = st c' q' k' mo' mi' v' d'
    \<longleftrightarrow> c = c' \<and> q = q' \<and> k = k' \<and> mo = mo' \<and> mi = mi' \<and> v = v' \<and> d = d'"
  by (auto simp: st_def)

text \<open>Between two bytes of a read: the next byte is the one of register \<open>p\<close>.\<close>

definition bnd :: "spi_master \<Rightarrow> nat \<Rightarrow> bool \<Rightarrow> bool \<Rightarrow> spi_slave \<Rightarrow> bool" where
  "bnd m p mi v d \<longleftrightarrow> sending m d \<and> p < unat (buffer_size d) \<and> p < 256
     \<and> (if m_cpha m = 0
        then bit_count d = 1 \<and> current_byte d = buffer d ! p \<and> mi = wire_bit m (buffer d ! p) 7 \<and> index d = of_nat (Suc p)
        else v = (\<not> lead m) \<and> ((bit_count d = 0 \<and> current_byte d = buffer d ! p \<and> index d = of_nat (Suc p))
          \<or> (bit_count d = 8 \<and> index d = of_nat p)))"

lemma next_byte:
  assumes "index d = of_nat p" "p < unat (buffer_size d)" "p < 256"
  shows "fst (spi_slave_get_next_tx_byte d) = buffer d ! p" "index (reload d) = of_nat (Suc p)"
proof -
  have "unat (index d) = p" using assms by (simp add: unat_of_nat)
  then show "fst (spi_slave_get_next_tx_byte d) = buffer d ! p" "index (reload d) = of_nat (Suc p)"
    using assms(2) by (simp_all add: spi_slave_get_next_tx_byte_def reload_keeps assms(1))
qed

lemma pos_id: "bit_count d = of_nat k \<Longrightarrow> current_byte d = B \<Longrightarrow> pos d B k = d"
  by (cases d) (simp add: pos_def)

lemma read_byte_at:
  assumes "bnd m p mi v d"
  shows "\<exists>t' mi' v' d'. spi_master_soft_read_byte m (st False q t mo mi v d) = (buffer d ! p, st False q t' mo mi' v' d')
    \<and> sending m d' \<and> buffer d' = buffer d \<and> buffer_size d' = buffer_size d
    \<and> (Suc p < unat (buffer_size d) \<longrightarrow> Suc p < 256 \<longrightarrow> bnd m (Suc p) mi' v' d')"
proof -
  have s: "sending m d" "sending m (reload d)" using assms reload_keeps(1) by (auto simp: bnd_def)
  show ?thesis
  proof (cases "m_cpha m = 0")
    case True
    let ?B = "buffer d ! p" and ?B' = "fst (spi_slave_get_next_tx_byte d)"
    have "pos d ?B 1 = d" using assms True by (intro pos_id) (auto simp: bnd_def)
    then have "spi_master_soft_read_byte m (st False q t mo mi v d)
        = (?B, st False q (t + 40) mo (wire_bit m ?B' 7) (lead m) (pos (reload d) ?B' 1))"
      using early_byte [OF s(1) True, of q t mo ?B v] assms True by (simp add: bnd_def)
    moreover have "bnd m (Suc p) (wire_bit m ?B' 7) (lead m) (pos (reload d) ?B' 1)"
      if "Suc p < unat (buffer_size d)" "Suc p < 256"
      using that next_byte [of d "Suc p"] assms True s
      by (auto simp: bnd_def reload_keeps) (simp_all add: pos_def)
    ultimately show ?thesis using s by (auto simp: reload_keeps)
  next
    case False
    have v: "v = (\<not> lead m)" using assms False by (simp add: bnd_def)
    show ?thesis
    proof (cases "bit_count d = 0 \<and> current_byte d = buffer d ! p \<and> index d = of_nat (Suc p)")
      case True
      then have "pos d (buffer d ! p) 0 = d" by (intro pos_id) auto
      then have "spi_master_soft_read_byte m (st False q t mo mi v d)
          = (buffer d ! p, st False q (t + 40) mo (wire_bit m (buffer d ! p) 0) (\<not> lead m) (pos d (buffer d ! p) 8))"
        using late_byte [OF s(1) False, of q t mo mi "buffer d ! p"] v by simp
      moreover have "bnd m (Suc p) mi' (\<not> lead m) (pos d (buffer d ! p) 8)"
        if "Suc p < unat (buffer_size d)" "Suc p < 256" for mi'
        using that True False s by (auto simp: bnd_def) (simp_all add: pos_def)
      ultimately show ?thesis using s by auto
    next
      case n: False
      then have i: "bit_count d = 8" "index d = of_nat p" "p < unat (buffer_size d)" "p < 256"
        using assms False by (auto simp: bnd_def)
      note nb = next_byte [OF i(2-4)]
      have "pos d (current_byte d) 8 = d" using i by (intro pos_id) auto
      then have "spi_master_soft_read_byte m (st False q t mo mi v d)
          = (buffer d ! p, st False q (t + 40) mo (wire_bit m (buffer d ! p) 0) (\<not> lead m) (pos (reload d) (buffer d ! p) 8))"
        using late_next_byte [OF s(1) False, of q t mo mi "current_byte d"] v nb by simp
      moreover have "bnd m (Suc p) mi' (\<not> lead m) (pos (reload d) (buffer d ! p) 8)"
        if "Suc p < unat (buffer_size d)" "Suc p < 256" for mi'
        using that nb False s by (auto simp: bnd_def reload_keeps) (simp_all add: pos_def)
      ultimately show ?thesis using s by (auto simp: reload_keeps)
    qed
  qed
qed

lemma read_loop_at:
  assumes "sending m d" "0 < n \<Longrightarrow> bnd m p mi v d" "p + n \<le> unat (buffer_size d)" "p + n \<le> 256" "length (buffer d) = unat (buffer_size d)"
  shows "\<exists>t' mi' v' d'. read_bytes_loop m n (st False q t mo mi v d) = (take n (drop p (buffer d)), st False q t' mo mi' v' d')
    \<and> sending m d' \<and> buffer d' = buffer d \<and> buffer_size d' = buffer_size d"
  using assms
proof (induction n arbitrary: p t mi v d)
  case (Suc n)
  obtain t1 mi1 v1 d1 where b: "spi_master_soft_read_byte m (st False q t mo mi v d) = (buffer d ! p, st False q t1 mo mi1 v1 d1)"
    "sending m d1" "buffer d1 = buffer d" "buffer_size d1 = buffer_size d"
    "Suc p < unat (buffer_size d) \<longrightarrow> Suc p < 256 \<longrightarrow> bnd m (Suc p) mi1 v1 d1"
    using read_byte_at [OF Suc.prems(2), of q t mo] by auto
  have "\<exists>t' mi' v' d'. read_bytes_loop m n (st False q t1 mo mi1 v1 d1) = (take n (drop (Suc p) (buffer d1)), st False q t' mo mi' v' d')
    \<and> sending m d' \<and> buffer d' = buffer d1 \<and> buffer_size d' = buffer_size d1"
    using Suc.prems b by (intro Suc.IH) auto
  moreover have "take (Suc n) (drop p (buffer d)) = buffer d ! p # take n (drop (Suc p) (buffer d))"
    using Suc.prems by (simp add: take_Suc_conv_app_nth flip: Cons_nth_drop_Suc)
  ultimately show ?case using b by auto
qed auto

lemma read_address:
  assumes "same_mode m d" "idle d" "unat (0x7F AND reg) < unat (buffer_size d)"
  shows "\<exists>mo' mi' d'. spi_master_soft_send_byte m (0x80 OR reg) (set_cs False (st True q t mo mi v d))
    = st False q (t + 41) mo' mi' (\<not> lead m) d' \<and> bnd m (unat (0x7F AND reg)) mi' (\<not> lead m) d'
    \<and> buffer d' = buffer d \<and> buffer_size d' = buffer_size d"
proof -
  let ?r = "0x7F AND reg"
  let ?B = "buffer d ! unat ?r"
  have s: "rx (selected d)" "same_mode m (selected d)" using assms selected_rx by auto
  have le: "sl_bit_order d \<le> 1" and mo: "m_bit_order m = sl_bit_order d" and cp: "m_cpha m = sl_cpha d"
    using assms(1) by (simp_all add: same_mode_def)
  have o: "sl_bit_order d = 1 \<or> sl_bit_order d = 0" using le by (cases rule: order_cases) auto
  define d' where "d' = settle (snd (last_bit (0x80 OR reg) mi (selected d)))"
  define mi' where "mi' = fst (last_bit (0x80 OR reg) mi (selected d))"
  have l: "(mi', d') = (if sl_cpha d = 0 then wire_bit m ?B 7 else mi,
      d\<lparr>current_state := SPI_TRANSMITTING_DATA, last_state := SPI_TRANSMITTING_DATA, is_read_operation := True,
        index := ?r + 1, current_byte := ?B, byte_count := 0, bit_count := (if sl_cpha d = 0 then 1 else 0)\<rparr>)"
    using assms(2,3) o unfolding mi'_def d'_def
    by (cases d) (auto simp: last_bit_def selected_def match_address_def settle_def spi_slave_get_next_tx_byte_def
      idle_def mask_7F Let_def wire_bit_def mo)
  have "bnd m (unat ?r) mi' (\<not> lead m) d'"
    using l assms(1,3) unsigned_less [of ?r] by (auto simp: bnd_def sending_def same_mode_def)
  moreover have "buffer d' = buffer d" "buffer_size d' = buffer_size d" using l by auto
  ultimately show ?thesis
    using send_byte_eq [OF s(2,1), of "0x80 OR reg" q "t + 1" mo mi v]
    by (auto simp: first_byte [OF assms(1,2)] case_prod_beta d'_def [symmetric] mi'_def [symmetric] add.commute)
qed

text \<open>The master and the slave between two transactions.\<close>

definition spi_ready :: "spi_master \<Rightarrow> spi_bus_simulation \<Rightarrow> bool" where
  "spi_ready m s \<longleftrightarrow> cs_line s \<and> cs_last s \<and> sck_last s = sck_line s \<and> idle (slave s) \<and> same_mode m (slave s)
     \<and> length (buffer (slave s)) = unat (buffer_size (slave s)) \<and> m_write_bytes m = None \<and> m_read_bytes m = None"

lemma spi_ready_st:
  assumes "spi_ready m s"
  shows "s = st True (sched s) (tick s) (mosi_line s) (miso_line s) (sck_line s) (slave s)"
  using assms by (cases s) (simp add: spi_ready_def st_def)

lemma st_ready: "idle d \<Longrightarrow> same_mode m d \<Longrightarrow> length (buffer d) = unat (buffer_size d) \<Longrightarrow> m_write_bytes m = None \<Longrightarrow>
    m_read_bytes m = None \<Longrightarrow> spi_ready m (st True q t mo mi v d)"
  by (simp add: spi_ready_def st_def)

lemma reset_keeps: "idle (settle (reset_slave d))" "same_mode m (settle (reset_slave d)) = same_mode m d"
  "buffer (settle (reset_slave d)) = buffer d" "buffer_size (settle (reset_slave d)) = buffer_size d"
  by (simp_all add: idle_def settle_def reset_slave_def same_mode_def)

text \<open>After a transaction the slave may not have seen the select line go up yet; its next round makes
it ready, with the same registers.\<close>

definition released :: "spi_master \<Rightarrow> spi_bus_simulation \<Rightarrow> bool" where
  "released m s \<longleftrightarrow> spi_ready m (poll s) \<and> buffer (slave (poll s)) = buffer (slave s)"

lemma ready_released: "spi_ready m s \<Longrightarrow> released m s"
  using poll_quiet [of s] by (simp add: released_def spi_ready_def quiet_def sync_def idle_def)

lemma delay_ready:
  assumes "released m s"
  shows "spi_ready m (spi_master_soft_delay sp s) \<and> buffer (slave (spi_master_soft_delay sp s)) = buffer (slave s)"
  using assms by (auto simp: released_def delay_eq poll_tick spi_ready_def)

lemma low_reg: "unat r < 128 \<Longrightarrow> 0x7F AND r = (r :: u8)"
proof -
  assume "unat r < 128"
  then have "take_bit 7 r = r"
    by (simp add: word_unat_eq_iff unsigned_take_bit_eq take_bit_nat_eq_self)
  moreover have "mask 7 = (0x7F :: u8)" by (simp add: mask_numeral)
  ultimately show ?thesis by (metis take_bit_eq_mask and.commute)
qed

lemma spi_put_law:
  assumes "spi_ready m s" "length (buffer (slave s)) \<le> 256" "reg_fits (length (buffer (slave s))) (Put r bs)"
  shows "\<exists>s'. spi_master_port_transmit (Some m) r (Some bs) (of_nat (length bs)) s = (0, s') \<and> released m s'
    \<and> buffer (slave s') = reg_put (unat r) bs (buffer (slave s))"
proof -
  let ?d = "slave s" and ?n = "length bs"
  have r: "0x7F AND r = r" and pn: "0 < ?n"
    and n: "unat (of_nat ?n :: u8) = ?n" "of_nat ?n \<noteq> (0 :: u8)" "unat r + ?n \<le> unat (buffer_size ?d)"
    using assms(1,3) by (auto simp: reg_fits_def low_reg unat_of_nat spi_ready_def dest: arg_cong [where f = unat])
  have "unat r < unat (buffer_size ?d)" using pn n(3) by linarith
  note n = n this
  have d: "same_mode m ?d" "idle ?d" "length (buffer ?d) = unat (buffer_size ?d)" "m_write_bytes m = None" "m_read_bytes m = None"
    using assms(1) by (simp_all add: spi_ready_def)
  obtain mo1 where a: "spi_master_soft_send_byte m r (set_cs False s)
      = st False (sched s) (tick s + 41) mo1 (miso_line s) (\<not> lead m) (addressed r ?d)"
    using write_address [OF d(1,2), of r "sched s" "tick s" "mosi_line s" "miso_line s" "sck_line s"] n(4) r
      spi_ready_st [OF assms(1)] by metis
  have ad: "receiving (addressed r ?d)" "same_mode m (addressed r ?d)" "index (addressed r ?d) = r"
    "buffer (addressed r ?d) = buffer ?d" "buffer_size (addressed r ?d) = buffer_size ?d"
    using d(1,2) by (auto simp: receiving_def rx_def addressed_def idle_def same_mode_def)
  define dn where "dn = fold (\<lambda>i. stored (bs ! i)) [0..<?n] (addressed r ?d)"
  obtain mo2 v2 where b: "fold (\<lambda>i. spi_master_soft_send_byte m (bs ! i)) [0..<?n]
      (spi_master_soft_send_byte m r (set_cs False s))
      = st False (sched s) (tick s + 41 + 40 * ?n) mo2 (miso_line s) v2 dn" "receiving dn" "same_mode m dn"
    using send_data [OF ad(2,1), of bs ?n "sched s" "tick s + 41" mo1 "miso_line s" "\<not> lead m"] unfolding a dn_def by blast
  have buf: "buffer dn = reg_put (unat r) bs (buffer ?d)" "buffer_size dn = buffer_size ?d"
    using stored_bytes [of "addressed r ?d" ?n bs] ad n(3) d(3) assms(2) by (auto simp: dn_def reg_put_def)
  let ?e = "set_cs True (st False (sched s) (tick s + 41 + 40 * ?n) mo2 (miso_line s) v2 dn)"
  have off: "last_state dn = current_state dn" "current_state dn \<noteq> SPI_IDLE"
    using b(2) by (auto simp: receiving_def rx_def)
  obtain mo' mi' t' where e: "poll ?e = st True (sched s) t' mo' mi' v2 (settle (reset_slave dn))"
    using deselect(1) [OF off] by blast
  have "spi_master_port_transmit (Some m) r (Some bs) (of_nat (length bs)) s = (0, ?e)"
    using b(1) n(1,2) r d(4)
    by (simp add: spi_master_port_transmit_def spi_master_soft_write_bytes_with_reg_def Let_def)
  moreover have "spi_ready m (st True (sched s) t' mo' mi' v2 (settle (reset_slave dn)))"
    using buf b(3) d(3-5) n(3) by (intro st_ready) (simp_all add: reset_keeps)
  ultimately show ?thesis using buf e deselect(2) [OF off] by (simp add: released_def reset_keeps)
qed

lemma spi_get_law:
  assumes "spi_ready m s" "length (buffer (slave s)) \<le> 256" "reg_fits (length (buffer (slave s))) (Get r n)"
  shows "\<exists>s'. spi_master_port_receive (Some m) r True n s = ((0, reg_get (unat r) (unat n) (buffer (slave s))), s') \<and> released m s'
    \<and> buffer (slave s') = buffer (slave s)"
proof -
  let ?d = "slave s"
  have r: "0x7F AND r = r" and n: "n \<noteq> 0" "unat r + unat n \<le> unat (buffer_size ?d)" "unat r < unat (buffer_size ?d)" "unat r + unat n \<le> 256"
    using assms by (auto simp: reg_fits_def low_reg spi_ready_def)
  have d: "same_mode m ?d" "idle ?d" "length (buffer ?d) = unat (buffer_size ?d)" "m_write_bytes m = None" "m_read_bytes m = None"
    using assms(1) by (simp_all add: spi_ready_def)
  obtain mo1 mi1 d1 where a: "spi_master_soft_send_byte m (0x80 OR r) (set_cs False s)
      = st False (sched s) (tick s + 41) mo1 mi1 (\<not> lead m) d1" "bnd m (unat r) mi1 (\<not> lead m) d1"
      "buffer d1 = buffer ?d" "buffer_size d1 = buffer_size ?d"
    using read_address [OF d(1,2), of r "sched s" "tick s" "mosi_line s" "miso_line s" "sck_line s"] n(3) r
      spi_ready_st [OF assms(1)] by metis
  have "sending m d1" using a(2) by (simp add: bnd_def)
  then obtain t2 mi2 v2 d2 where b: "read_bytes_loop m (unat n) (st False (sched s) (tick s + 41) mo1 mi1 (\<not> lead m) d1)
      = (take (unat n) (drop (unat r) (buffer d1)), st False (sched s) t2 mo1 mi2 v2 d2)"
    "sending m d2" "buffer d2 = buffer d1" "buffer_size d2 = buffer_size d1"
    using read_loop_at [of m d1 "unat n" "unat r" mi1 "\<not> lead m" "sched s" "tick s + 41" mo1] a n d(3) by auto
  let ?e = "set_cs True (st False (sched s) t2 mo1 mi2 v2 d2)"
  have off: "last_state d2 = current_state d2" "current_state d2 \<noteq> SPI_IDLE" using b(2) by (auto simp: sending_def)
  obtain mo' mi' t' where e: "poll ?e = st True (sched s) t' mo' mi' v2 (settle (reset_slave d2))"
    using deselect(1) [OF off] by blast
  have "spi_master_port_receive (Some m) r True n s = ((0, reg_get (unat r) (unat n) (buffer ?d)), ?e)"
    using a b(1) n(1) d(5)
    by (simp add: spi_master_port_receive_def spi_master_soft_read_bytes_with_reg_def Let_def reg_get_def)
  moreover have "spi_ready m (st True (sched s) t' mo' mi' v2 (settle (reset_slave d2)))"
    using b(2-4) a(3,4) d(3-5) by (intro st_ready) (simp_all add: reset_keeps sending_def)
  ultimately show ?thesis using b a e deselect(2) [OF off] by (simp add: released_def reset_keeps)
qed

interpretation spi: register_bus "\<lambda>r bs. spi_master_port_transmit (Some m) r (Some bs) (of_nat (length bs))"
  "\<lambda>r n. spi_master_port_receive (Some m) r True n" "spi_master_soft_delay (m_speed m)"
  "\<lambda>s. buffer (slave s)" "spi_ready m" "released m" for m
  by unfold_locales (use spi_put_law spi_get_law delay_ready ready_released in blast)+

section \<open>Properties\<close>


definition demo_master :: spi_master where
  "demo_master = \<lparr>m_cpol = 1, m_cpha = 0, m_speed = 2, m_bit_order = 1, m_init = True, m_write_bytes = None, m_read_bytes = None\<rparr>"

definition demo_spi :: "(nat \<Rightarrow> nat) \<Rightarrow> spi_bus_simulation" where
  "demo_spi q = st True q 0 False False True
     (case spi_slave_soft_init True 0 1 0 1 [1, 2, 3, 4] 4 of Inr d \<Rightarrow> d)"


end
