(* ===== verification/Serial_Port.thy ===== *)
theory Serial_Port
  imports Kinetis_Prelude
begin

text \<open>
  The serial port of \<^verbatim>\<open>drivers/kinetis/serial-port.c\<close>: a receive ring of 1024 bytes between a
  producer (the DMA interrupt, or the thread that simulates the wire) and the reader, a transmit
  buffer, and the fault injection of the simulated wire.  The board's operations and delays are the
  functions of \<open>board\<close> over a state \<open>'w\<close>; a delay may let the other side add bytes to the ring.
  The waiting loops that have no bound are partial functions: not returning is \<open>None\<close>.
\<close>

section \<open>State\<close>

datatype communication_fault_mode =
    COMMUNICATION_FAULT_NONE
  | COMMUNICATION_FAULT_DROP
  | COMMUNICATION_FAULT_CORRUPT
  | COMMUNICATION_FAULT_RANDOM

record communication_fault_state =
  fault_mode :: communication_fault_mode
  rate_per_mille :: u16
  fault_remaining :: u16
  fault_injected :: u16
  fault_seed :: u32

record serial_port =
  rx_buffer :: "u8 list"
  tx_buffer :: "u8 list"
  received_size :: u16
  transmitted_size :: u16
  producer :: u16
  consumer :: u16
  rx_complete :: bool
  overflow :: bool
  port_fault :: "communication_fault_state option"
  baud_rate :: u32
  port_parity :: u8
  data_bits :: u8
  flow_control :: u8

record 'w board =
  fake_sim :: bool
  mdelay :: "u32 \<Rightarrow> serial_port \<times> 'w \<Rightarrow> serial_port \<times> 'w"
  udelay :: "u32 \<Rightarrow> serial_port \<times> 'w \<Rightarrow> serial_port \<times> 'w"
  ops_init :: "serial_port \<times> 'w \<Rightarrow> serial_port \<times> 'w"
  ops_enable :: "'w \<Rightarrow> 'w"
  ops_disable :: "'w \<Rightarrow> 'w"
  ops_transmit_bytes :: "(u8 list \<Rightarrow> serial_port \<times> 'w \<Rightarrow> int \<times> serial_port \<times> 'w) option"
  ops_receive_callback :: "(serial_port \<times> 'w \<Rightarrow> serial_port \<times> 'w) option"
  ops_update_producer :: "serial_port \<Rightarrow> serial_port"
  ops_config :: "(u32 \<Rightarrow> u8 \<Rightarrow> u8 \<Rightarrow> u8 \<Rightarrow> serial_port \<times> 'w \<Rightarrow> int \<times> serial_port \<times> 'w) option"
  ops_irq :: "bool \<Rightarrow> 'w \<Rightarrow> 'w"
  ops_set_tx :: "u8 \<Rightarrow> 'w \<Rightarrow> 'w"

abbreviation SERIAL_PORT_BUFFER_SIZE :: nat where "SERIAL_PORT_BUFFER_SIZE \<equiv> 1024"

section \<open>The simulated wire\<close>

definition serial_port_available_space :: "serial_port \<Rightarrow> u16" where
  "serial_port_available_space serial =
     of_int (cmod (uint (consumer serial) + int SERIAL_PORT_BUFFER_SIZE - uint (producer serial) - 1) (int SERIAL_PORT_BUFFER_SIZE))"

definition mini_random :: "communication_fault_state \<Rightarrow> u32 \<times> communication_fault_state" where
  "mini_random f =
     (let v = fault_seed f;
          v = (if v = 0 then 1 else v);
          v = v XOR push_bit 13 v;
          v = v XOR drop_bit 17 v;
          v = v XOR push_bit 5 v
      in (v, f\<lparr>fault_seed := v\<rparr>))"

definition communication_fault_pick :: "serial_port \<Rightarrow> communication_fault_mode \<times> serial_port" where
  "communication_fault_pick serial =
     (case port_fault serial of
        None \<Rightarrow> (COMMUNICATION_FAULT_NONE, serial)
      | Some f \<Rightarrow>
          let mode = fault_mode f
          in if mode = COMMUNICATION_FAULT_NONE \<or> fault_remaining f = 0 then (COMMUNICATION_FAULT_NONE, serial)
             else case mini_random f of (r, f) \<Rightarrow>
               if r mod 1000 \<ge> ucast (rate_per_mille f)
               then (COMMUNICATION_FAULT_NONE, serial\<lparr>port_fault := Some f\<rparr>)
               else
                 case (if mode = COMMUNICATION_FAULT_RANDOM
                       then case mini_random f of (r, f) \<Rightarrow>
                         (if r AND 1 \<noteq> 0 then COMMUNICATION_FAULT_DROP else COMMUNICATION_FAULT_CORRUPT, f)
                       else (mode, f))
                 of (mode, f) \<Rightarrow>
                   (mode, serial\<lparr>port_fault := Some (f\<lparr>fault_remaining := fault_remaining f - 1,
                                                        fault_injected := fault_injected f + 1\<rparr>)\<rparr>))"

definition communication_fault_alloc ::
  "bool \<Rightarrow> communication_fault_mode \<Rightarrow> u16 \<Rightarrow> u16 \<Rightarrow> u32 \<Rightarrow> serial_port \<Rightarrow> int \<times> serial_port" where
  "communication_fault_alloc alloc_ok mode rate cnt seed serial =
     (if \<not> alloc_ok then (- ENOMEM, serial\<lparr>port_fault := None\<rparr>)
      else (0, serial\<lparr>port_fault := Some \<lparr>fault_mode = mode, rate_per_mille = min rate 1000,
        fault_remaining = cnt, fault_injected = 0, fault_seed = (if seed \<noteq> 0 then seed else 1)\<rparr>\<rparr>))"

definition communication_fault_free :: "serial_port \<Rightarrow> serial_port" where
  "communication_fault_free serial = serial\<lparr>port_fault := None\<rparr>"

definition communication_fault_injected :: "serial_port \<Rightarrow> u16" where
  "communication_fault_injected serial = (case port_fault serial of Some f \<Rightarrow> fault_injected f | None \<Rightarrow> 0)"

text \<open>The two copies at the end of the ring and at its start.\<close>

definition ring_write :: "nat \<Rightarrow> u8 list \<Rightarrow> u8 list \<Rightarrow> u8 list" where
  "ring_write pos d ring =
     (let tail = SERIAL_PORT_BUFFER_SIZE - pos
      in if length d \<le> tail
         then take pos ring @ d @ drop (pos + length d) ring
         else let ring = take pos ring @ take tail d @ drop (pos + tail) ring
              in drop tail d @ drop (length d - tail) ring)"

text \<open>\<open>serial_port_copy_to_others\<close> is a thread: one pass of its loop picks the fault of the message, waits
until the other side has room, and delivers.  \<open>Waiting mode\<close> is its inner loop.\<close>

datatype copier = Looking | Waiting communication_fault_mode

definition deliver :: "communication_fault_mode \<Rightarrow> serial_port \<times> serial_port \<Rightarrow> serial_port \<times> serial_port" where
  "deliver mode bg =
     (case bg of (boy, girl) \<Rightarrow>
        let n = transmitted_size boy;
            pos = unat (producer girl);
            ring = ring_write pos (take (unat n) (tx_buffer boy)) (rx_buffer girl)
        in case (if mode = COMMUNICATION_FAULT_CORRUPT
                 then case port_fault boy of
                     None \<Rightarrow> (port_fault boy, ring)
                   | Some f \<Rightarrow>
                       case mini_random f of (r1, f) \<Rightarrow> case mini_random f of (r2, f) \<Rightarrow>
                         let offset = unat (r1 mod ucast n);
                             i = (pos + offset) mod SERIAL_PORT_BUFFER_SIZE
                         in (Some f, ring[i := ring ! i XOR push_bit (unat (r2 mod 8)) 1])
                 else (port_fault boy, ring))
           of (f, ring) \<Rightarrow>
             (boy\<lparr>port_fault := f, transmitted_size := 0\<rparr>,
              girl\<lparr>rx_buffer := ring,
                   producer := of_nat ((pos + unat n) mod SERIAL_PORT_BUFFER_SIZE)\<rparr>))"

definition serial_port_copy_to_others ::
  "copier \<times> serial_port \<times> serial_port \<Rightarrow> copier \<times> serial_port \<times> serial_port" where
  "serial_port_copy_to_others s =
     (case s of (pc, boy, girl) \<Rightarrow>
        case pc of
          Looking \<Rightarrow>
            if transmitted_size boy > 0
            then case communication_fault_pick boy of (mode, boy) \<Rightarrow>
              if mode = COMMUNICATION_FAULT_DROP then (Looking, boy\<lparr>transmitted_size := 0\<rparr>, girl)
              else (Waiting mode, boy, girl)
            else (Looking, boy, girl)
        | Waiting mode \<Rightarrow>
            if serial_port_available_space girl < transmitted_size boy then (Waiting mode, boy, girl)
            else (Looking, deliver mode (boy, girl)))"

text \<open>\<open>serial_port_copy_to_self\<close> answers a transmission with the response of a callback.\<close>

fun copy_response :: "nat \<Rightarrow> u8 list \<Rightarrow> u8 list \<Rightarrow> u8 list" where
  "copy_response idx [] ring = ring"
| "copy_response idx (b # bs) ring = copy_response ((idx + 1) mod SERIAL_PORT_BUFFER_SIZE) bs (ring[idx := b])"

definition serial_port_copy_to_self ::
  "'w board \<Rightarrow> (u8 list \<Rightarrow> u8 list) \<Rightarrow> serial_port \<Rightarrow> serial_port" where
  "serial_port_copy_to_self bd sim_callback serial =
     (if transmitted_size serial > 0
      then let response = sim_callback (tx_buffer serial)
           in if unat (serial_port_available_space serial) < length response then serial
              else (ops_update_producer bd (serial\<lparr>rx_buffer :=
                      copy_response (unat (producer serial)) response (rx_buffer serial)\<rparr>))\<lparr>transmitted_size := 0\<rparr>
      else serial)"

section \<open>The port\<close>

definition serial_port_alloc :: "bool \<Rightarrow> bool \<Rightarrow> 'w board \<Rightarrow> 'w \<Rightarrow> (int + serial_port) \<times> 'w" where
  "serial_port_alloc alloc_ok has_ops bd w =
     (if \<not> alloc_ok then (Inl (- ENOMEM), w)
      else if \<not> has_ops then (Inl (- EINVAL), w)
      else case ops_init bd
          (\<lparr>rx_buffer = replicate SERIAL_PORT_BUFFER_SIZE 0, tx_buffer = replicate SERIAL_PORT_BUFFER_SIZE 0,
            received_size = 0, transmitted_size = 0, producer = 0, consumer = 0, rx_complete = False,
            overflow = False, port_fault = None, baud_rate = 0, port_parity = 0, data_bits = 0,
            flow_control = 0\<rparr>, w)
        of (serial, w) \<Rightarrow> (Inr serial, ops_disable bd w))"

definition serial_port_extract_data :: "serial_port \<Rightarrow> serial_port" where
  "serial_port_extract_data serial =
     (let n = of_int (cmod (uint (producer serial) + int SERIAL_PORT_BUFFER_SIZE - uint (consumer serial)) (int SERIAL_PORT_BUFFER_SIZE))
      in serial\<lparr>received_size := n, rx_complete := n > 0\<rparr>)"

text \<open>The loop that takes bytes out of the ring, of \<open>serial_port_clear_rx\<close> and \<open>serial_port_receive_bytes\<close>.\<close>

definition take_byte :: "serial_port \<Rightarrow> u8 \<times> serial_port" where
  "take_byte serial =
     (let c = unat (consumer serial)
      in (rx_buffer serial ! c,
          serial\<lparr>rx_buffer := (rx_buffer serial)[c := 0],
                 consumer := of_nat ((c + 1) mod SERIAL_PORT_BUFFER_SIZE)\<rparr>))"

fun take_bytes :: "nat \<Rightarrow> serial_port \<Rightarrow> u8 list \<times> serial_port" where
  "take_bytes 0 serial = ([], serial)"
| "take_bytes (Suc n) serial =
     (case take_byte serial of (b, serial) \<Rightarrow>
      case take_bytes n serial of (bs, serial) \<Rightarrow> (b # bs, serial))"

definition serial_port_clear_rx :: "serial_port \<Rightarrow> serial_port" where
  "serial_port_clear_rx serial =
     (let serial = serial_port_extract_data serial;
          serial = snd (take_bytes (unat (received_size serial)) serial)
      in serial\<lparr>rx_complete := False, received_size := 0\<rparr>)"

definition serial_port_rx_empty :: "serial_port \<Rightarrow> bool" where
  "serial_port_rx_empty serial \<longleftrightarrow> producer serial = consumer serial"

definition serial_port_rx_full :: "serial_port \<Rightarrow> bool" where
  "serial_port_rx_full serial \<longleftrightarrow>
     (unat (producer serial) + 1) mod SERIAL_PORT_BUFFER_SIZE = unat (consumer serial)"

definition serial_port_rx_used :: "serial_port \<Rightarrow> u16" where
  "serial_port_rx_used serial =
     (if producer serial \<ge> consumer serial then producer serial - consumer serial
      else of_nat SERIAL_PORT_BUFFER_SIZE - (consumer serial - producer serial))"

definition serial_port_rx_free :: "serial_port \<Rightarrow> u16" where
  "serial_port_rx_free serial =
     (if producer serial \<ge> consumer serial
      then of_nat SERIAL_PORT_BUFFER_SIZE - (producer serial - consumer serial) - 1
      else (consumer serial - producer serial) - 1)"

partial_function (option) wait_forever :: "'w board \<Rightarrow> serial_port \<times> 'w \<Rightarrow> (serial_port \<times> 'w) option" where
  [code]: "wait_forever bd s =
     (let serial = serial_port_extract_data (fst s)
      in if rx_complete serial then Some (serial, snd s)
         else wait_forever bd (mdelay bd 1 (serial, snd s)))"

function wait_until :: "'w board \<Rightarrow> u32 \<Rightarrow> u32 \<Rightarrow> serial_port \<times> 'w \<Rightarrow> u32 \<times> serial_port \<times> 'w" where
  "wait_until bd timeout elapsed s =
     (if elapsed < timeout
      then let serial = serial_port_extract_data (fst s)
           in if rx_complete serial then (elapsed, serial, snd s)
              else wait_until bd timeout (elapsed + 1) (mdelay bd 1 (serial, snd s))
      else (elapsed, s))"
  by pat_completeness auto
termination
proof (relation "measure (\<lambda>(bd, timeout, elapsed, s). unat timeout - unat elapsed)", goal_cases)
  case (2 bd timeout elapsed s x)
  then have "unat elapsed < unat timeout" by (simp add: word_less_nat_alt)
  moreover from this have "unat (elapsed + 1) = unat elapsed + 1"
    using unat_lt_32 [of timeout] by (subst unat_add_no_wrap) auto
  ultimately show ?case by simp
qed simp

declare wait_until.simps [simp del]

text \<open>What \<open>serial_port_receive_bytes\<close> returns and stores at the start of the caller's buffer.\<close>

definition finish_receive :: "'w board \<Rightarrow> serial_port \<times> 'w \<Rightarrow> (int \<times> u8 list) \<times> serial_port \<times> 'w" where
  "finish_receive bd s =
     (case s of (serial, w) \<Rightarrow>
        if rx_complete serial
        then case take_bytes (unat (received_size serial)) serial of (bytes, serial) \<Rightarrow>
             case (case ops_receive_callback bd of Some cb \<Rightarrow> cb (serial, w) | None \<Rightarrow> (serial, w)) of (serial, w) \<Rightarrow>
               let serial = serial\<lparr>rx_complete := False\<rparr>;
                   room = overflow serial \<and> unat (serial_port_rx_used serial) \<le> SERIAL_PORT_BUFFER_SIZE * 95 div 100
               in ((int (unat (received_size serial)), bytes),
                   (if room then (serial\<lparr>overflow := False\<rparr>, ops_enable bd w) else (serial, w)))
        else ((int (unat (received_size serial)), []), serial, w))"

definition serial_port_receive_bytes ::
  "'w board \<Rightarrow> bool \<Rightarrow> int \<Rightarrow> u32 \<Rightarrow> serial_port \<times> 'w \<Rightarrow> ((int \<times> u8 list) \<times> serial_port \<times> 'w) option" where
  "serial_port_receive_bytes bd has_buffer len timeout_ms s =
     (if \<not> has_buffer then Some ((- EINVAL, []), s)
      else if len < int SERIAL_PORT_BUFFER_SIZE then Some ((- EINVAL, []), s)
      else if timeout_ms = 0 then map_option (finish_receive bd) (wait_forever bd s)
      else case wait_until bd timeout_ms 0 s of (elapsed, s) \<Rightarrow>
        if elapsed \<ge> timeout_ms \<and> \<not> rx_complete (fst s) then Some ((- ETIMEDOUT, [0]), s)
        else Some (finish_receive bd s))"

partial_function (option) wait_tx :: "'w board \<Rightarrow> serial_port \<times> 'w \<Rightarrow> (serial_port \<times> 'w) option" where
  [code]: "wait_tx bd s = (if transmitted_size (fst s) > 0 then wait_tx bd (udelay bd 1 s) else Some s)"

definition send_now :: "'w board \<Rightarrow> u8 list \<Rightarrow> serial_port \<times> 'w \<Rightarrow> int \<times> serial_port \<times> 'w" where
  "send_now bd d s =
     (case s of (serial, w) \<Rightarrow>
        let serial = serial\<lparr>tx_buffer := d @ drop (length d) (tx_buffer serial),
                            transmitted_size := of_nat (length d)\<rparr>
        in case ops_transmit_bytes bd of
             Some f \<Rightarrow> f d (serial, w)
           | None \<Rightarrow> (0, serial, w))"

definition serial_port_transmit_bytes ::
  "'w board \<Rightarrow> u8 list \<Rightarrow> serial_port \<times> 'w \<Rightarrow> (int \<times> serial_port \<times> 'w) option" where
  "serial_port_transmit_bytes bd d s =
     (let d = (if length d \<ge> SERIAL_PORT_BUFFER_SIZE then take (SERIAL_PORT_BUFFER_SIZE - 1) d else d)
      in map_option (send_now bd d) (if fake_sim bd then wait_tx bd s else Some s))"

definition serial_port_transmit_byte ::
  "'w board \<Rightarrow> u8 \<Rightarrow> serial_port \<times> 'w \<Rightarrow> (int \<times> serial_port \<times> 'w) option" where
  "serial_port_transmit_byte bd byte s =
     map_option (send_now bd [byte]) (if fake_sim bd then wait_tx bd s else Some s)"

definition serial_port_tx_idle :: "'w board \<Rightarrow> serial_port \<Rightarrow> bool" where
  "serial_port_tx_idle bd serial \<longleftrightarrow> (if fake_sim bd then transmitted_size serial = 0 else True)"

definition serial_port_data_available :: "serial_port \<Rightarrow> int \<times> serial_port" where
  "serial_port_data_available serial =
     (let serial = serial_port_extract_data serial
      in (if rx_complete serial then int (unat (received_size serial)) else 0, serial))"

definition serial_port_config ::
  "'w board \<Rightarrow> u32 \<Rightarrow> u8 \<Rightarrow> u8 \<Rightarrow> u8 \<Rightarrow> serial_port \<times> 'w \<Rightarrow> int \<times> serial_port \<times> 'w" where
  "serial_port_config bd baud par bits flow s =
     (case s of (serial, w) \<Rightarrow>
        let serial = serial\<lparr>baud_rate := baud, port_parity := par, data_bits := bits, flow_control := flow\<rparr>
        in case ops_config bd of Some f \<Rightarrow> f baud par bits flow (serial, w) | None \<Rightarrow> (0, serial, w))"

definition serial_port_send_break :: "'w board \<Rightarrow> serial_port \<times> 'w \<Rightarrow> serial_port \<times> 'w" where
  "serial_port_send_break bd s =
     (let (serial, w) = mdelay bd 250 (fst s, ops_set_tx bd 0 (ops_irq bd False (snd s)))
      in (serial, ops_irq bd True (ops_set_tx bd 1 w)))"

end
