(* ===== verification/Mavlink.thy ===== *)
theory Mavlink
  imports Serial_Port "HOL-Library.Monad_Syntax"
begin

text \<open>
  The message layer of \<^verbatim>\<open>drivers/kinetis/mavlink.c\<close> on top of the serial port: the device state that
  incoming messages update, and the requests that wait for an acknowledgement.  The messages and their
  fields are those of \<^verbatim>\<open>include/kinetis/mavlink/mavlink_dialect.xml\<close>.  Their byte encoding, framing and
  decoding is generated code, and sleeping and the clock belong to the system: these are the functions of
  \<open>link\<close>.  \<open>frame_char\<close> works on the receive message and parser state of the device and tells whether the byte
  completed a message; \<open>decode i\<close> is the generated decoder of message \<open>i\<close>, applied to a raw message.
\<close>

section \<open>Messages and state\<close>

datatype mav_msg =
    Motor_control u8 int u8
  | Motor_status_query u8
  | Motor_status u8 int u8 u8
  | Motor_ack u8 u8
  | Image_control u8 u16
  | Image_ack u8 u8
  | System_heartbeat u8 u32 u16
  | File_transfer_start u8 u32 string
  | File_transfer_ack u8 u8 u32
  | File_transfer_progress u8 u32 u32 u8
  | File_transfer_cancel u8
  | File_transfer_list u8 u8 u32 string
  | Bootloader_update_cmd u8 u32 u32 string
  | Bootloader_ack u8 u8
  | Ring_cmd u16 u16 u8 u8 u8 u8 u8 "u8 list"
  | Ring_ack u16 u8 u8
  | Ring_error u16 u16 u8 u8 u8
  | Unknown_msg int

fun msgid :: "mav_msg \<Rightarrow> int" where
  "msgid (Motor_control _ _ _) = 50000"
| "msgid (Motor_status_query _) = 50001"
| "msgid (Motor_status _ _ _ _) = 50002"
| "msgid (Motor_ack _ _) = 50003"
| "msgid (Image_control _ _) = 50004"
| "msgid (Image_ack _ _) = 50005"
| "msgid (System_heartbeat _ _ _) = 50006"
| "msgid (File_transfer_start _ _ _) = 50010"
| "msgid (File_transfer_ack _ _ _) = 50011"
| "msgid (File_transfer_progress _ _ _ _) = 50012"
| "msgid (File_transfer_cancel _) = 50013"
| "msgid (File_transfer_list _ _ _ _) = 50014"
| "msgid (Bootloader_update_cmd _ _ _ _) = 50015"
| "msgid (Bootloader_ack _ _) = 50016"
| "msgid (Ring_cmd _ _ _ _ _ _ _ _) = 50020"
| "msgid (Ring_ack _ _ _) = 50021"
| "msgid (Ring_error _ _ _ _ _) = 50022"
| "msgid (Unknown_msg i) = i"

record mavlink_motor_state =
  target_speed :: int
  current_speed :: int
  mot_direction :: int
  mot_status :: u8

record mavlink_image_cmd =
  img_pending :: u8
  img_action :: u8
  image_index :: u16

record mavlink_ft_state =
  ft_active :: u8
  ft_direction :: u8
  ft_state :: u8
  ft_error_code :: u8
  ft_path :: string
  ft_total_bytes :: u32
  ft_transferred :: u32

record mavlink_bl_cmd =
  bl_pending :: u8
  bl_command :: u8
  firmware_size :: u32
  firmware_crc32 :: u32
  bl_filename :: string

record mavlink_ring_cmd_state =
  rc_pending :: u8
  rc_seq :: u16
  rc_cmd :: u16
  src_arm :: u8
  dst_arm :: u8
  current_arm :: u8
  rc_direction :: u8
  payload_len :: u8
  payload :: "u8 list"

record mavlink_ring_ack_state =
  ra_pending :: u8
  ra_seq :: u16
  ra_node :: u8
  ra_result :: u8

record mavlink_ring_error_state =
  re_pending :: u8
  re_seq :: u16
  re_error_code :: u8
  error_node :: u8
  error_link_from :: u8
  error_link_to :: u8

record ('m, 'p) mavlink_device =
  serial :: serial_port
  sysid :: u8
  compid :: u8
  motors :: "mavlink_motor_state list"
  image_cmd :: mavlink_image_cmd
  ft :: mavlink_ft_state
  bl :: mavlink_bl_cmd
  sys_status :: u8
  error_count :: u16
  mav_uptime_s :: u32
  ring_cmd :: mavlink_ring_cmd_state
  ring_ack :: mavlink_ring_ack_state
  ring_error :: mavlink_ring_error_state
  tx_count :: u32
  rx_count :: u32
  rx_errors :: u32
  rx_status :: 'p
  rx_msg :: 'm

record ('m, 'p, 'w) link =
  port_board :: "'w board"
  encode :: "u8 \<Rightarrow> u8 \<Rightarrow> mav_msg \<Rightarrow> 'w \<Rightarrow> u8 list \<times> 'w"
  frame_char :: "u8 \<Rightarrow> 'm \<times> 'p \<Rightarrow> bool \<times> 'm \<times> 'p"
  raw_id :: "'m \<Rightarrow> int"
  decode :: "int \<Rightarrow> 'm \<Rightarrow> mav_msg"
  zero_msg :: 'm
  idle_status :: 'p
  msleep :: "u32 \<Rightarrow> serial_port \<times> 'w \<Rightarrow> serial_port \<times> 'w"
  get_ms :: "serial_port \<times> 'w \<Rightarrow> u64"

type_synonym ('m, 'p, 'w) mav_state = "('m, 'p) mavlink_device \<times> 'w"

abbreviation MAVLINK_MOTOR_COUNT :: nat where "MAVLINK_MOTOR_COUNT \<equiv> 4"
abbreviation MAVLINK_RING_PAYLOAD_LEN :: nat where "MAVLINK_RING_PAYLOAD_LEN \<equiv> 64"
abbreviation MAV_MOTOR_DIRECTION_REVERSE :: u8 where "MAV_MOTOR_DIRECTION_REVERSE \<equiv> 2"
abbreviation MAV_ACK_RESULT_OK :: u8 where "MAV_ACK_RESULT_OK \<equiv> 0"
abbreviation MAV_ACK_RESULT_INVALID_PARAM :: u8 where "MAV_ACK_RESULT_INVALID_PARAM \<equiv> 2"
abbreviation MAV_SYSTEM_STATUS_STANDBY :: u8 where "MAV_SYSTEM_STATUS_STANDBY \<equiv> 1"
abbreviation MAV_SYSTEM_STATUS_ACTIVE :: u8 where "MAV_SYSTEM_STATUS_ACTIVE \<equiv> 2"
abbreviation FT_TRANSFERRING :: u8 where "FT_TRANSFERRING \<equiv> 1"
abbreviation FT_COMPLETED :: u8 where "FT_COMPLETED \<equiv> 2"
abbreviation FT_CANCELLED :: u8 where "FT_CANCELLED \<equiv> 3"
abbreviation FT_ERROR :: u8 where "FT_ERROR \<equiv> 4"
abbreviation MAV_FT_RESULT_READY :: u8 where "MAV_FT_RESULT_READY \<equiv> 0"
abbreviation MAV_FT_ERR_PROTOCOL :: u8 where "MAV_FT_ERR_PROTOCOL \<equiv> 3"
abbreviation MAV_BL_ACK_ACCEPTED :: u8 where "MAV_BL_ACK_ACCEPTED \<equiv> 0"

section \<open>Directions\<close>

definition dir_to_wire :: "int \<Rightarrow> u8" where
  "dir_to_wire direction = (if direction > 0 then 1 else if direction < 0 then 2 else 0)"

definition dir_from_wire :: "u8 \<Rightarrow> int" where
  "dir_from_wire wire = (if wire = 1 then 1 else if wire = 2 then - 1 else 0)"

section \<open>Simulated motors\<close>

abbreviation ACCEL_STEP :: int where "ACCEL_STEP \<equiv> 100"
abbreviation REV_STEP :: int where "REV_STEP \<equiv> 200"
abbreviation ACCEL_DIV :: int where "ACCEL_DIV \<equiv> 20"
abbreviation ACCEL_CLAMP :: int where "ACCEL_CLAMP \<equiv> 50"
abbreviation NEAR_ZERO :: int where "NEAR_ZERO \<equiv> 20"

definition simulate_motor :: "mavlink_motor_state \<Rightarrow> mavlink_motor_state" where
  "simulate_motor mt =
     (let target = target_speed mt;
          current = current_speed mt
      in if target = 0
         then
           let current = (if current > 0 then s32 (current - ACCEL_STEP)
                          else if current < 0 then s32 (current + ACCEL_STEP) else current)
           in if current > - ACCEL_STEP \<and> current < ACCEL_STEP
              then mt\<lparr>mot_direction := - 1, mot_status := 0, current_speed := 0\<rparr>
              else mt\<lparr>current_speed := current\<rparr>
         else
           let target_dir = (if target > 0 then 1 else - 1)
           in if current \<noteq> 0 \<and> mot_direction mt \<noteq> target_dir
              then
                let current = s32 (current + (if current > 0 then - REV_STEP else REV_STEP))
                in if current > - NEAR_ZERO \<and> current < NEAR_ZERO
                   then mt\<lparr>mot_direction := target_dir, mot_status := 0, current_speed := 0\<rparr>
                   else mt\<lparr>current_speed := current\<rparr>
              else
                let diff = s32 (target - current);
                    step = cdiv diff ACCEL_DIV;
                    step = (if step = 0 then (if diff > 0 then 1 else - 1) else step);
                    step = (if step < - ACCEL_CLAMP then - ACCEL_CLAMP else step);
                    step = (if step > ACCEL_CLAMP then ACCEL_CLAMP else step)
                in mt\<lparr>mot_direction := target_dir, mot_status := 1, current_speed := s32 (current + step)\<rparr>)"

definition mavlink_motor_simulate :: "nat \<Rightarrow> ('m, 'p) mavlink_device \<Rightarrow> ('m, 'p) mavlink_device" where
  "mavlink_motor_simulate i dev = dev\<lparr>motors := (motors dev)[i := simulate_motor (motors dev ! i)]\<rparr>"

section \<open>Sending\<close>

definition mavlink_send_encoded_data ::
  "('m, 'p, 'w) link \<Rightarrow> mav_msg \<Rightarrow> ('m, 'p, 'w) mav_state \<Rightarrow> (int \<times> ('m, 'p, 'w) mav_state) option" where
  "mavlink_send_encoded_data lk msg s =
     (case s of (dev, w) \<Rightarrow> case encode lk (sysid dev) (compid dev) msg w of (bytes, w) \<Rightarrow>
        do {
          (ret, sp, w) \<leftarrow> serial_port_transmit_bytes (port_board lk) bytes (serial dev, w);
          let dev = dev\<lparr>serial := sp\<rparr>;
          Some (ret, (if ret \<ge> 0 then dev\<lparr>tx_count := tx_count dev + 1\<rparr> else dev), w)
        })"

definition mavlink_reset_rx_parser :: "('m, 'p, 'w) link \<Rightarrow> ('m, 'p) mavlink_device \<Rightarrow> ('m, 'p) mavlink_device" where
  "mavlink_reset_rx_parser lk dev = dev\<lparr>rx_status := idle_status lk\<rparr>"

definition mavlink_send_motor_status ::
  "('m, 'p, 'w) link \<Rightarrow> u16 \<Rightarrow> int \<Rightarrow> int \<Rightarrow> u8 \<Rightarrow> ('m, 'p, 'w) mav_state \<Rightarrow> (int \<times> ('m, 'p, 'w) mav_state) option" where
  "mavlink_send_motor_status lk motor_id speed direction status =
     mavlink_send_encoded_data lk (Motor_status (ucast motor_id) speed (dir_to_wire direction) status)"

definition mavlink_send_motor_ack ::
  "('m, 'p, 'w) link \<Rightarrow> u8 \<Rightarrow> u8 \<Rightarrow> ('m, 'p, 'w) mav_state \<Rightarrow> (int \<times> ('m, 'p, 'w) mav_state) option" where
  "mavlink_send_motor_ack lk motor_id result = mavlink_send_encoded_data lk (Motor_ack motor_id result)"

definition mavlink_send_image_ack ::
  "('m, 'p, 'w) link \<Rightarrow> u8 \<Rightarrow> u8 \<Rightarrow> ('m, 'p, 'w) mav_state \<Rightarrow> (int \<times> ('m, 'p, 'w) mav_state) option" where
  "mavlink_send_image_ack lk action result = mavlink_send_encoded_data lk (Image_ack action result)"

definition mavlink_send_ft_progress ::
  "('m, 'p, 'w) link \<Rightarrow> u8 \<Rightarrow> u32 \<Rightarrow> u32 \<Rightarrow> u8 \<Rightarrow> ('m, 'p, 'w) mav_state \<Rightarrow> (int \<times> ('m, 'p, 'w) mav_state) option" where
  "mavlink_send_ft_progress lk state transferred total_len err =
     mavlink_send_encoded_data lk (File_transfer_progress state transferred total_len err)"

definition mavlink_send_ft_cancel :: "('m, 'p, 'w) link \<Rightarrow> u8 \<Rightarrow> ('m, 'p, 'w) mav_state \<Rightarrow> (int \<times> ('m, 'p, 'w) mav_state) option" where
  "mavlink_send_ft_cancel lk direction = mavlink_send_encoded_data lk (File_transfer_cancel direction)"

definition mavlink_send_ft_list ::
  "('m, 'p, 'w) link \<Rightarrow> u8 \<Rightarrow> u8 \<Rightarrow> u32 \<Rightarrow> string option \<Rightarrow> ('m, 'p, 'w) mav_state \<Rightarrow> (int \<times> ('m, 'p, 'w) mav_state) option" where
  "mavlink_send_ft_list lk file_count idx file_size filename =
     mavlink_send_encoded_data lk (File_transfer_list file_count idx file_size
       (case filename of None \<Rightarrow> [] | Some n \<Rightarrow> take 31 n))"

definition mavlink_send_ft_ack ::
  "('m, 'p, 'w) link \<Rightarrow> u8 \<Rightarrow> u8 \<Rightarrow> u32 \<Rightarrow> ('m, 'p, 'w) mav_state \<Rightarrow> (int \<times> ('m, 'p, 'w) mav_state) option" where
  "mavlink_send_ft_ack lk direction result file_size =
     mavlink_send_encoded_data lk (File_transfer_ack direction result file_size)"

definition mavlink_ft_enter_passthrough :: "('m, 'p) mavlink_device \<Rightarrow> int \<times> ('m, 'p) mavlink_device" where
  "mavlink_ft_enter_passthrough dev =
     (if ft_active (ft dev) \<noteq> 0 then (- EBUSY, dev)
      else (0, dev\<lparr>ft := (ft dev)\<lparr>ft_active := 1, ft_state := FT_TRANSFERRING\<rparr>\<rparr>))"

definition mavlink_ft_exit_passthrough :: "('m, 'p) mavlink_device \<Rightarrow> ('m, 'p) mavlink_device" where
  "mavlink_ft_exit_passthrough dev = dev\<lparr>ft := (ft dev)\<lparr>ft_active := 0, ft_state := 0\<rparr>\<rparr>"

definition mavlink_send_image_control ::
  "('m, 'p, 'w) link \<Rightarrow> u8 \<Rightarrow> u16 \<Rightarrow> ('m, 'p, 'w) mav_state \<Rightarrow> (int \<times> ('m, 'p, 'w) mav_state) option" where
  "mavlink_send_image_control lk action idx = mavlink_send_encoded_data lk (Image_control action idx)"

definition mavlink_send_heartbeat ::
  "('m, 'p, 'w) link \<Rightarrow> u8 \<Rightarrow> u32 \<Rightarrow> u16 \<Rightarrow> ('m, 'p, 'w) mav_state \<Rightarrow> (int \<times> ('m, 'p, 'w) mav_state) option" where
  "mavlink_send_heartbeat lk status uptime errs = mavlink_send_encoded_data lk (System_heartbeat status uptime errs)"

definition mavlink_send_bootloader_ack ::
  "('m, 'p, 'w) link \<Rightarrow> u8 \<Rightarrow> u8 \<Rightarrow> ('m, 'p, 'w) mav_state \<Rightarrow> (int \<times> ('m, 'p, 'w) mav_state) option" where
  "mavlink_send_bootloader_ack lk command result = mavlink_send_encoded_data lk (Bootloader_ack command result)"

definition mavlink_send_ring_cmd ::
  "('m, 'p, 'w) link \<Rightarrow> u16 \<Rightarrow> u16 \<Rightarrow> u8 \<Rightarrow> u8 \<Rightarrow> u8 \<Rightarrow> u8 \<Rightarrow> u8 list option \<Rightarrow> u8 \<Rightarrow> ('m, 'p, 'w) mav_state \<Rightarrow> (int \<times> ('m, 'p, 'w) mav_state) option" where
  "mavlink_send_ring_cmd lk seq cmd src dst cur direction pl len s =
     (let len = (if unat len > MAVLINK_RING_PAYLOAD_LEN then of_nat MAVLINK_RING_PAYLOAD_LEN else len);
          bytes = (case pl of None \<Rightarrow> replicate MAVLINK_RING_PAYLOAD_LEN 0
            | Some p \<Rightarrow> take (unat len) p @ replicate (MAVLINK_RING_PAYLOAD_LEN - unat len) 0)
      in mavlink_send_encoded_data lk (Ring_cmd seq cmd src dst cur direction len bytes) s)"

definition mavlink_send_ring_ack ::
  "('m, 'p, 'w) link \<Rightarrow> u16 \<Rightarrow> u8 \<Rightarrow> u8 \<Rightarrow> ('m, 'p, 'w) mav_state \<Rightarrow> (int \<times> ('m, 'p, 'w) mav_state) option" where
  "mavlink_send_ring_ack lk seq node result = mavlink_send_encoded_data lk (Ring_ack seq node result)"

definition mavlink_send_ring_error ::
  "('m, 'p, 'w) link \<Rightarrow> u16 \<Rightarrow> u8 \<Rightarrow> u8 \<Rightarrow> u8 \<Rightarrow> u16 \<Rightarrow> ('m, 'p, 'w) mav_state \<Rightarrow> (int \<times> ('m, 'p, 'w) mav_state) option" where
  "mavlink_send_ring_error lk seq node from_arm to_arm code =
     mavlink_send_encoded_data lk (Ring_error seq code node from_arm to_arm)"

section \<open>Receiving\<close>

definition motor_control_ok :: "u8 \<Rightarrow> u8 \<Rightarrow> bool" where
  "motor_control_ok target direction \<longleftrightarrow>
     \<not> ((unat target \<ge> MAVLINK_MOTOR_COUNT \<and> target \<noteq> 255) \<or> direction > MAV_MOTOR_DIRECTION_REVERSE)"

definition set_targets :: "u8 \<Rightarrow> int \<Rightarrow> u8 \<Rightarrow> ('m, 'p) mavlink_device \<Rightarrow> ('m, 'p) mavlink_device" where
  "set_targets target speed direction dev =
     (let start = (if target = 255 then 0 else unat target);
          fin = (if target = 255 then MAVLINK_MOTOR_COUNT else unat (target + 1))
      in dev\<lparr>motors := fold (\<lambda>i ms. ms[i := (ms ! i)\<lparr>target_speed := speed, mot_direction := dir_from_wire direction\<rparr>])
           [start..<fin] (motors dev)\<rparr>)"

fun dispatch :: "('m, 'p, 'w) link \<Rightarrow> mav_msg \<Rightarrow> ('m, 'p, 'w) mav_state \<Rightarrow> ('m, 'p, 'w) mav_state option" where
  "dispatch lk (Motor_control target speed direction) (dev, w) =
     Some (if motor_control_ok target direction then (set_targets target speed direction dev, w) else (dev, w))"
| "dispatch lk (Motor_status_query _) s = Some s"
| "dispatch lk (Motor_status motor_id speed direction status) (dev, w) =
     Some (if unat motor_id < MAVLINK_MOTOR_COUNT
      then (dev\<lparr>motors := (motors dev)[unat motor_id := (motors dev ! unat motor_id)
             \<lparr>current_speed := speed, mot_direction := sint direction, mot_status := status\<rparr>]\<rparr>, w)
      else (dev, w))"
| "dispatch lk (Motor_ack _ _) s = Some s"
| "dispatch lk (Image_control action idx) (dev, w) =
     Some (dev\<lparr>image_cmd := (image_cmd dev)\<lparr>img_pending := 1, img_action := action, image_index := idx\<rparr>\<rparr>, w)"
| "dispatch lk (Image_ack _ _) s = Some s"
| "dispatch lk (System_heartbeat status uptime errs) (dev, w) =
     Some (dev\<lparr>sys_status := status, mav_uptime_s := uptime, error_count := errs\<rparr>, w)"
| "dispatch lk (File_transfer_start direction file_size path) (dev, w) =
     Some (dev\<lparr>ft := (ft dev)\<lparr>ft_direction := direction, ft_total_bytes := file_size, ft_transferred := 0,
        ft_error_code := 0, ft_path := take 63 path, ft_state := FT_TRANSFERRING, ft_active := 1\<rparr>\<rparr>, w)"
| "dispatch lk (File_transfer_ack direction result file_size) (dev, w) =
     Some (dev\<lparr>ft := (ft dev)\<lparr>ft_direction := direction, ft_transferred := 0, ft_total_bytes := file_size,
        ft_error_code := (if result = MAV_FT_RESULT_READY then 0 else MAV_FT_ERR_PROTOCOL),
        ft_state := (if result = MAV_FT_RESULT_READY then FT_TRANSFERRING else FT_ERROR),
        ft_active := (if result = MAV_FT_RESULT_READY then 1 else 0)\<rparr>\<rparr>, w)"
| "dispatch lk (File_transfer_progress state transferred total_len err) (dev, w) =
     Some (let f = (ft dev)\<lparr>ft_state := state, ft_transferred := transferred, ft_total_bytes := total_len, ft_error_code := err\<rparr>
      in (dev\<lparr>ft := (if state = FT_COMPLETED \<or> state = FT_CANCELLED \<or> state = FT_ERROR
                     then f\<lparr>ft_active := 0\<rparr> else f)\<rparr>, w))"
| "dispatch lk (File_transfer_cancel direction) (dev, w) =
     Some (dev\<lparr>ft := (ft dev)\<lparr>ft_direction := direction, ft_state := FT_CANCELLED, ft_active := 0\<rparr>\<rparr>, w)"
| "dispatch lk (File_transfer_list _ _ _ _) s = Some s"
| "dispatch lk (Bootloader_update_cmd command fsize crc filename) (dev, w) =
     map_option snd (mavlink_send_bootloader_ack lk command MAV_BL_ACK_ACCEPTED
       (dev\<lparr>bl := (bl dev)\<lparr>bl_pending := 1, bl_command := command, firmware_size := fsize,
          firmware_crc32 := crc, bl_filename := take 31 filename\<rparr>\<rparr>, w))"
| "dispatch lk (Bootloader_ack _ _) (dev, w) = Some (dev\<lparr>rx_errors := rx_errors dev + 1\<rparr>, w)"
| "dispatch lk (Ring_cmd seq cmd src dst cur direction len pl) (dev, w) =
     Some (dev\<lparr>ring_cmd := (ring_cmd dev)\<lparr>rc_pending := 1, rc_seq := seq, rc_cmd := cmd, src_arm := src, dst_arm := dst,
        current_arm := cur, rc_direction := direction,
        payload_len := (if unat len > MAVLINK_RING_PAYLOAD_LEN then of_nat MAVLINK_RING_PAYLOAD_LEN else len),
        payload := pl\<rparr>\<rparr>, w)"
| "dispatch lk (Ring_ack seq node result) (dev, w) =
     Some (dev\<lparr>ring_ack := (ring_ack dev)\<lparr>ra_pending := 1, ra_seq := seq, ra_node := node, ra_result := result\<rparr>\<rparr>, w)"
| "dispatch lk (Ring_error seq code node from_arm to_arm) (dev, w) =
     Some (dev\<lparr>ring_error := (ring_error dev)\<lparr>re_pending := 1, re_seq := seq, re_error_code := ucast code,
        error_node := node, error_link_from := from_arm, error_link_to := to_arm\<rparr>\<rparr>, w)"
| "dispatch lk (Unknown_msg _) (dev, w) = Some (dev\<lparr>rx_errors := rx_errors dev + 1\<rparr>, w)"

fun process_bytes ::
  "('m, 'p, 'w) link \<Rightarrow> u8 list \<Rightarrow> int \<Rightarrow> ('m, 'p, 'w) mav_state \<Rightarrow> (int \<times> ('m, 'p, 'w) mav_state) option" where
  "process_bytes lk [] last_msgid s = Some (last_msgid, s)"
| "process_bytes lk (b # bs) last_msgid (dev, w) =
     (case frame_char lk b (rx_msg dev, rx_status dev) of (framed, m, p) \<Rightarrow>
        let dev = dev\<lparr>rx_msg := m, rx_status := p\<rparr>
        in if \<not> framed then process_bytes lk bs last_msgid (dev, w)
           else do {
             s \<leftarrow> dispatch lk (decode lk (raw_id lk m) m) (dev\<lparr>rx_count := rx_count dev + 1\<rparr>, w);
             process_bytes lk bs (raw_id lk m) s
           })"

definition mavlink_receive_and_process ::
  "('m, 'p, 'w) link \<Rightarrow> u32 \<Rightarrow> ('m, 'p, 'w) mav_state \<Rightarrow> (int \<times> ('m, 'p, 'w) mav_state) option" where
  "mavlink_receive_and_process lk timeout s =
     (case s of (dev, w) \<Rightarrow>
        do {
          ((ret, bytes), sp, w) \<leftarrow> serial_port_receive_bytes (port_board lk) True (int SERIAL_PORT_BUFFER_SIZE) timeout (serial dev, w);
          let dev = dev\<lparr>serial := sp\<rparr>;
          if ret < 0 then Some (ret, dev, w)
          else process_bytes lk (take (nat ret) bytes) 0 (dev, w)
        })"

section \<open>Requests that wait\<close>

definition data_available :: "('m, 'p, 'w) mav_state \<Rightarrow> int \<times> ('m, 'p, 'w) mav_state" where
  "data_available s = (case serial_port_data_available (serial (fst s)) of (n, sp) \<Rightarrow> (n, (fst s)\<lparr>serial := sp\<rparr>, snd s))"

definition nap :: "('m, 'p, 'w) link \<Rightarrow> u32 \<Rightarrow> ('m, 'p, 'w) mav_state \<Rightarrow> ('m, 'p, 'w) mav_state" where
  "nap lk n s = (case msleep lk n (serial (fst s), snd s) of (sp, w) \<Rightarrow> ((fst s)\<lparr>serial := sp\<rparr>, w))"

text \<open>The loop that the four requests share: \<open>Inl\<close> is a return inside the loop or the time-out, \<open>Inr\<close> the
jump to \<open>received\<close>.\<close>

partial_function (option) wait_reply ::
  "('m, 'p, 'w) link \<Rightarrow> int \<Rightarrow> u32 \<Rightarrow> u32 \<Rightarrow> ('m, 'p, 'w) mav_state
     \<Rightarrow> ((int + unit) \<times> ('m, 'p, 'w) mav_state) option" where
  [code]: "wait_reply lk reply timeout elapsed s =
     (if elapsed < timeout
      then case data_available s of (n, s) \<Rightarrow>
        (if n > 0
         then do {
           (ret, s) \<leftarrow> mavlink_receive_and_process lk 100 s;
           (if ret < 0 then Some (Inl ret, s)
            else if ret = reply then Some (Inr (), s)
            else wait_reply lk reply timeout (elapsed + 10) (nap lk 10 s))
         }
         else wait_reply lk reply timeout (elapsed + 10) (nap lk 10 s))
      else Some (Inl (- ETIMEDOUT), mavlink_reset_rx_parser lk (fst s), snd s))"

definition request ::
  "('m, 'p, 'w) link \<Rightarrow> mav_msg \<Rightarrow> int \<Rightarrow> (mav_msg \<Rightarrow> int) \<Rightarrow> u32 \<Rightarrow> ('m, 'p, 'w) mav_state
     \<Rightarrow> (int \<times> ('m, 'p, 'w) mav_state) option" where
  "request lk msg reply verdict timeout s =
     do {
       (ret, s) \<leftarrow> mavlink_send_encoded_data lk msg s;
       if ret < 0 then Some (ret, s)
       else do {
         (r, s) \<leftarrow> wait_reply lk reply timeout 0 s;
         Some (case r of Inl e \<Rightarrow> e | Inr _ \<Rightarrow> verdict (decode lk reply (rx_msg (fst s))), s)
       }
     }"

text \<open>What the requests make of the decoded reply.  The decoder of a message only yields that message, so
the last case of each does not occur.\<close>

definition motor_ack_verdict :: "u8 \<Rightarrow> mav_msg \<Rightarrow> int" where
  "motor_ack_verdict target_id m = (case m of
     Motor_ack motor_id result \<Rightarrow>
       if target_id \<noteq> 255 \<and> motor_id \<noteq> target_id then - EPROTO
       else if result = MAV_ACK_RESULT_OK then 0
       else if result = MAV_ACK_RESULT_INVALID_PARAM then - EINVAL else - EIO
   | _ \<Rightarrow> - EPROTO)"

definition mavlink_send_motor_control ::
  "('m, 'p, 'w) link \<Rightarrow> u8 \<Rightarrow> int \<Rightarrow> int \<Rightarrow> u32 \<Rightarrow> ('m, 'p, 'w) mav_state \<Rightarrow> (int \<times> ('m, 'p, 'w) mav_state) option" where
  "mavlink_send_motor_control lk target_id speed direction timeout =
     request lk (Motor_control target_id speed (dir_to_wire direction)) 50003 (motor_ack_verdict target_id) timeout"

definition motor_status_verdict :: "u8 \<Rightarrow> mav_msg \<Rightarrow> int" where
  "motor_status_verdict motor_id m = (case m of
     Motor_status i _ _ _ \<Rightarrow> if motor_id \<noteq> 255 \<and> i \<noteq> motor_id then - EPROTO else 0
   | _ \<Rightarrow> - EPROTO)"

definition mavlink_query_motor_status ::
  "('m, 'p, 'w) link \<Rightarrow> u8 \<Rightarrow> u32 \<Rightarrow> ('m, 'p, 'w) mav_state \<Rightarrow> (int \<times> ('m, 'p, 'w) mav_state) option" where
  "mavlink_query_motor_status lk motor_id timeout =
     request lk (Motor_status_query motor_id) 50002 (motor_status_verdict motor_id) timeout"

definition ft_ack_verdict :: "u8 \<Rightarrow> mav_msg \<Rightarrow> int" where
  "ft_ack_verdict direction m = (case m of
     File_transfer_ack d result _ \<Rightarrow>
       if d \<noteq> direction then - EPROTO
       else if result = 0 then 0 else if result = 2 then - ENOSPC else if result = 3 then - ENOENT
       else if result = 4 then - EBUSY else if result = 1 then - EACCES else - EIO
   | _ \<Rightarrow> - EPROTO)"

definition mavlink_send_ft_start ::
  "('m, 'p, 'w) link \<Rightarrow> u8 \<Rightarrow> string \<Rightarrow> u32 \<Rightarrow> u32 \<Rightarrow> ('m, 'p, 'w) mav_state \<Rightarrow> (int \<times> ('m, 'p, 'w) mav_state) option" where
  "mavlink_send_ft_start lk direction path file_size timeout =
     request lk (File_transfer_start direction file_size (take 63 path)) 50011 (ft_ack_verdict direction) timeout"

definition bl_ack_verdict :: "u8 \<Rightarrow> mav_msg \<Rightarrow> int" where
  "bl_ack_verdict command m = (case m of
     Bootloader_ack c result \<Rightarrow> if c \<noteq> command then - EPROTO
       else if result = MAV_BL_ACK_ACCEPTED then 0 else - EACCES
   | _ \<Rightarrow> - EPROTO)"

definition mavlink_send_bootloader_update ::
  "('m, 'p, 'w) link \<Rightarrow> u8 \<Rightarrow> u32 \<Rightarrow> u32 \<Rightarrow> string \<Rightarrow> u32 \<Rightarrow> ('m, 'p, 'w) mav_state \<Rightarrow> (int \<times> ('m, 'p, 'w) mav_state) option" where
  "mavlink_send_bootloader_update lk command fsize crc filename timeout =
     request lk (Bootloader_update_cmd command fsize crc (take 31 filename)) 50016 (bl_ack_verdict command) timeout"

text \<open>\<open>mavlink_wait_bootloader_ack\<close> has a deadline on the clock instead; it looks at the last raw message.\<close>

partial_function (option) wait_deadline ::
  "('m, 'p, 'w) link \<Rightarrow> u8 \<Rightarrow> u8 \<Rightarrow> u64 \<Rightarrow> ('m, 'p, 'w) mav_state \<Rightarrow> (int \<times> ('m, 'p, 'w) mav_state) option" where
  [code]: "wait_deadline lk command expected deadline s =
     (if get_ms lk (serial (fst s), snd s) < deadline
      then case data_available s of (n, s) \<Rightarrow>
        (if n > 0
         then do {
           (ret, s) \<leftarrow> mavlink_receive_and_process lk 100 s;
           (if ret < 0 then Some (ret, s)
            else if raw_id lk (rx_msg (fst s)) \<noteq> 50016 then wait_deadline lk command expected deadline s
            else Some (case decode lk 50016 (rx_msg (fst s)) of
                Bootloader_ack c result \<Rightarrow> if c \<noteq> command then - EPROTO else if result = expected then 0 else - EIO
              | _ \<Rightarrow> - EPROTO, s))
         }
         else wait_deadline lk command expected deadline (nap lk 5 s))
      else Some (- ETIMEDOUT, s))"

definition mavlink_wait_bootloader_ack ::
  "('m, 'p, 'w) link \<Rightarrow> bool \<Rightarrow> u8 \<Rightarrow> u8 \<Rightarrow> u32 \<Rightarrow> ('m, 'p, 'w) mav_state \<Rightarrow> (int \<times> ('m, 'p, 'w) mav_state) option" where
  "mavlink_wait_bootloader_ack lk has_mav command expected timeout s =
     (if \<not> has_mav then Some (- ENODEV, s)
      else wait_deadline lk command expected (get_ms lk (serial (fst s), snd s) + ucast timeout) s)"

section \<open>The device\<close>

definition zero_motor :: mavlink_motor_state where
  "zero_motor = \<lparr>target_speed = 0, current_speed = 0, mot_direction = 0, mot_status = 0\<rparr>"

definition mavlink_init :: "('m, 'p, 'w) link \<Rightarrow> bool \<Rightarrow> serial_port \<Rightarrow> u8 \<Rightarrow> u8 \<Rightarrow> ('m, 'p) mavlink_device option" where
  "mavlink_init lk alloc_ok sp sid cid =
     (if \<not> alloc_ok then None
      else Some \<lparr>serial = sp, sysid = sid, compid = cid, motors = replicate MAVLINK_MOTOR_COUNT zero_motor,
        image_cmd = \<lparr>img_pending = 0, img_action = 0, image_index = 0\<rparr>,
        ft = \<lparr>ft_active = 0, ft_direction = 0, ft_state = 0, ft_error_code = 0, ft_path = [], ft_total_bytes = 0, ft_transferred = 0\<rparr>,
        bl = \<lparr>bl_pending = 0, bl_command = 0, firmware_size = 0, firmware_crc32 = 0, bl_filename = []\<rparr>,
        sys_status = MAV_SYSTEM_STATUS_STANDBY, error_count = 0, mav_uptime_s = 0,
        ring_cmd = \<lparr>rc_pending = 0, rc_seq = 0, rc_cmd = 0, src_arm = 0, dst_arm = 0, current_arm = 0, rc_direction = 0,
          payload_len = 0, payload = replicate MAVLINK_RING_PAYLOAD_LEN 0\<rparr>,
        ring_ack = \<lparr>ra_pending = 0, ra_seq = 0, ra_node = 0, ra_result = 0\<rparr>,
        ring_error = \<lparr>re_pending = 0, re_seq = 0, re_error_code = 0, error_node = 0, error_link_from = 0, error_link_to = 0\<rparr>,
        tx_count = 0, rx_count = 0, rx_errors = 0, rx_status = idle_status lk, rx_msg = zero_msg lk\<rparr>)"

end
