(* ===== verification/Byte_Stream.thy ===== *)
theory Byte_Stream
  imports Kinetis_Prelude
begin

text \<open>
  The contract of a bounded byte queue between a writer and a reader: a write that fits is appended,
  a read returns everything that waits.  Any sequence of writes and reads then carries the bytes in
  order, none lost, none duplicated.
\<close>

datatype stream_op = Write "u8 list" | Read

text \<open>The writer waits while there is no room: a write that does not fit does nothing.  The result is
the bytes written, the bytes read and the last state.\<close>

fun stream_run ::
  "('s \<Rightarrow> nat) \<Rightarrow> (u8 list \<Rightarrow> 's \<Rightarrow> 's) \<Rightarrow> ('s \<Rightarrow> u8 list \<times> 's) \<Rightarrow> stream_op list \<Rightarrow> 's
     \<Rightarrow> u8 list \<times> u8 list \<times> 's" where
  "stream_run room put get [] s = ([], [], s)"
| "stream_run room put get (Write d # ops) s =
     (if length d \<le> room s
      then case stream_run room put get ops (put d s) of (sent, recvd, s) \<Rightarrow> (d @ sent, recvd, s)
      else stream_run room put get ops s)"
| "stream_run room put get (Read # ops) s =
     (case get s of (d, s) \<Rightarrow>
      case stream_run room put get ops s of (sent, recvd, s) \<Rightarrow> (sent, d @ recvd, s))"

locale byte_stream =
  fixes ok :: "'s \<Rightarrow> bool"
    and contents :: "'s \<Rightarrow> u8 list"
    and room :: "'s \<Rightarrow> nat"
    and put :: "u8 list \<Rightarrow> 's \<Rightarrow> 's"
    and get :: "'s \<Rightarrow> u8 list \<times> 's"
    and capacity :: nat
  assumes room_contents: "ok s \<Longrightarrow> room s + length (contents s) = capacity"
    and put_ok: "ok s \<Longrightarrow> length d \<le> room s \<Longrightarrow> ok (put d s)"
    and put_contents: "ok s \<Longrightarrow> length d \<le> room s \<Longrightarrow> contents (put d s) = contents s @ d"
    and get_ok: "ok s \<Longrightarrow> ok (snd (get s))"
    and get_all: "ok s \<Longrightarrow> fst (get s) = contents s"
    and get_contents: "ok s \<Longrightarrow> contents (snd (get s)) = []"
begin

lemma run_ok: "ok s \<Longrightarrow> ok (snd (snd (stream_run room put get ops s)))"
proof (induction ops arbitrary: s)
  case Nil
  then show ?case by simp
next
  case (Cons x ops)
  then show ?case using put_ok get_ok
    by (cases x) (auto simp: split_beta)
qed

lemma run_in_order:
  assumes "ok s" "stream_run room put get ops s = (sent, recvd, s')"
  shows "contents s @ sent = recvd @ contents s'"
  using assms
proof (induction ops arbitrary: s sent recvd)
  case Nil
  then show ?case by simp
next
  case (Cons x ops)
  show ?case
  proof (cases x)
    case (Write d)
    show ?thesis
    proof (cases "length d \<le> room s")
      case True
      obtain sn where "stream_run room put get ops (put d s) = (sn, recvd, s')" "sent = d @ sn"
        using Cons.prems(2) Write True by (auto split: prod.splits)
      then show ?thesis
        using Cons.IH [OF put_ok [OF Cons.prems(1) True], of sn recvd] put_contents [OF Cons.prems(1) True] by simp
    next
      case False
      then show ?thesis using Cons Write by simp
    qed
  next
    case Read
    obtain rc where r: "stream_run room put get ops (snd (get s)) = (sent, rc, s')" "recvd = fst (get s) @ rc"
      using Cons.prems(2) Read by (auto split: prod.splits)
    then show ?thesis
      using Cons.IH [OF get_ok [OF Cons.prems(1)], of sent rc] get_contents [OF Cons.prems(1)] get_all [OF Cons.prems(1)]
      by simp
  qed
qed

lemma run_bounded: "ok s \<Longrightarrow> length (contents (snd (snd (stream_run room put get ops s)))) \<le> capacity"
  using run_ok [of s ops] room_contents by fastforce

end

end
