(* ===== verification/Serial_Port_Correct.thy ===== *)
theory Serial_Port_Correct
  imports Serial_Port Byte_Stream
begin

text \<open>
  The receive ring of the serial port implements the byte stream of \<^verbatim>\<open>Byte_Stream\<close>, the simulated wire
  carries messages unchanged when no fault is injected and changes them as announced when one is, and
  \<open>serial_port_receive_bytes\<close> returns.
\<close>

section \<open>The ring\<close>

definition port_ok :: "serial_port \<Rightarrow> bool" where
  "port_ok s \<longleftrightarrow> length (rx_buffer s) = SERIAL_PORT_BUFFER_SIZE \<and> length (tx_buffer s) = SERIAL_PORT_BUFFER_SIZE \<and>
     unat (producer s) < SERIAL_PORT_BUFFER_SIZE \<and> unat (consumer s) < SERIAL_PORT_BUFFER_SIZE \<and>
     unat (transmitted_size s) < SERIAL_PORT_BUFFER_SIZE"

text \<open>The bytes received and not yet read, oldest first.\<close>

definition held :: "serial_port \<Rightarrow> nat" where
  "held s = (unat (producer s) + SERIAL_PORT_BUFFER_SIZE - unat (consumer s)) mod SERIAL_PORT_BUFFER_SIZE"

definition unread :: "serial_port \<Rightarrow> u8 list" where
  "unread s = map (\<lambda>i. rx_buffer s ! ((unat (consumer s) + i) mod SERIAL_PORT_BUFFER_SIZE)) [0..<held s]"

lemma ring_mod: "(a :: nat) < 2048 \<Longrightarrow> a mod 1024 = (if a < 1024 then a else a - 1024)"
  by (simp add: mod_if)

lemma unat_of_nat_u16: "n < 65536 \<Longrightarrow> unat (of_nat n :: u16) = n"
  by (simp add: unat_of_nat)

lemma unat_of_int_u16: "n < 65536 \<Longrightarrow> unat (of_int (int n) :: u16) = n"
  by (simp add: unat_of_nat)

lemma held_cases:
  "port_ok s \<Longrightarrow> held s = (if unat (consumer s) \<le> unat (producer s) then unat (producer s) - unat (consumer s)
     else unat (producer s) + 1024 - unat (consumer s))"
  by (auto simp: held_def port_ok_def ring_mod)

lemma held_less: "held s < 1024"
  by (simp add: held_def)

lemma length_unread [simp]: "length (unread s) = held s"
  by (simp add: unread_def)

lemma extract_ok [simp]: "port_ok (serial_port_extract_data s) = port_ok s"
  by (simp add: serial_port_extract_data_def port_ok_def Let_def)

lemma extract_unread [simp]: "unread (serial_port_extract_data s) = unread s"
  by (simp add: serial_port_extract_data_def unread_def held_def Let_def)

lemma extract_held [simp]: "held (serial_port_extract_data s) = held s"
  by (simp add: serial_port_extract_data_def held_def Let_def)

lemma extract_size:
  assumes "port_ok s"
  shows "received_size (serial_port_extract_data s) = of_nat (held s)"
    and "unat (received_size (serial_port_extract_data s)) = held s"
    and "rx_complete (serial_port_extract_data s) \<longleftrightarrow> held s > 0"
proof -
  have "uint (producer s) + 1024 - uint (consumer s) = int (unat (producer s) + 1024 - unat (consumer s))"
    using assms by (simp add: port_ok_def of_nat_diff flip: uint_nat)
  then have *: "cmod (uint (producer s) + 1024 - uint (consumer s)) 1024 = int (held s)"
    by (simp add: cmod_nonneg held_def zmod_int del: of_nat_add of_nat_diff)
  show 1: "received_size (serial_port_extract_data s) = of_nat (held s)"
    by (simp add: serial_port_extract_data_def Let_def *)
  then show 2: "unat (received_size (serial_port_extract_data s)) = held s"
    using held_less [of s] by (simp add: unat_of_nat)
  show "rx_complete (serial_port_extract_data s) \<longleftrightarrow> held s > 0"
    using 2 by (simp add: serial_port_extract_data_def Let_def * word_less_nat_alt)
qed

lemma extract_int: "port_ok s \<Longrightarrow> uint (received_size (serial_port_extract_data s)) = int (held s)"
  by (metis extract_size(2) uint_nat)

lemma available_space:
  assumes "port_ok s"
  shows "unat (serial_port_available_space s) = 1023 - held s"
proof -
  have "uint (consumer s) + 1024 - uint (producer s) - 1 = int (unat (consumer s) + 1023 - unat (producer s))"
    using assms by (simp add: port_ok_def of_nat_diff flip: uint_nat)
  then have "cmod (uint (consumer s) + 1024 - uint (producer s) - 1) 1024
      = int ((unat (consumer s) + 1023 - unat (producer s)) mod 1024)"
    by (simp add: cmod_nonneg zmod_int del: of_nat_add of_nat_diff)
  then have "unat (serial_port_available_space s) = (unat (consumer s) + 1023 - unat (producer s)) mod 1024"
    by (simp add: serial_port_available_space_def unat_of_nat)
  then show ?thesis using assms by (auto simp: held_cases port_ok_def ring_mod)
qed

lemma length_ring_write:
  "length ring = 1024 \<Longrightarrow> pos < 1024 \<Longrightarrow> length d \<le> 1024 \<Longrightarrow> length (ring_write pos d ring) = 1024"
  by (auto simp: ring_write_def Let_def)

lemma nth_ring_write:
  assumes "length ring = 1024" "pos < 1024" "length d \<le> 1024" "i < 1024"
  shows "ring_write pos d ring ! i =
     (if (i + 1024 - pos) mod 1024 < length d then d ! ((i + 1024 - pos) mod 1024) else ring ! i)"
proof -
  have m: "(i + 1024 - pos) mod 1024 = (if pos \<le> i then i - pos else i + 1024 - pos)"
    using assms by (auto simp: ring_mod)
  show ?thesis unfolding m using assms
    by (auto simp: ring_write_def Let_def nth_append min_def add.commute)
qed

section \<open>Adding and taking bytes\<close>

definition port_put :: "u8 list \<Rightarrow> serial_port \<Rightarrow> serial_port" where
  "port_put d s = s\<lparr>rx_buffer := ring_write (unat (producer s)) d (rx_buffer s),
     producer := of_nat ((unat (producer s) + length d) mod SERIAL_PORT_BUFFER_SIZE)\<rparr>"

lemma put_ok: "port_ok s \<Longrightarrow> held s + length d \<le> 1023 \<Longrightarrow> port_ok (port_put d s)"
  by (simp add: port_ok_def port_put_def length_ring_write unat_of_nat_u16 take_bit_nat_def)

lemma put_fields [simp]:
  "consumer (port_put d s) = consumer s" "tx_buffer (port_put d s) = tx_buffer s"
  "transmitted_size (port_put d s) = transmitted_size s" "port_fault (port_put d s) = port_fault s"
  "overflow (port_put d s) = overflow s" "received_size (port_put d s) = received_size s"
  by (simp_all add: port_put_def)

lemma put_producer: "unat (producer (port_put d s)) = (unat (producer s) + length d) mod 1024"
  by (simp add: port_put_def unat_of_nat_u16)

lemma put_held:
  assumes "port_ok s" "held s + length d \<le> 1023"
  shows "held (port_put d s) = held s + length d"
  using assms put_producer [of d s] held_cases [OF assms(1)] held_cases [OF put_ok [OF assms]]
  by (auto simp: port_ok_def ring_mod split: if_splits)

lemma put_unread:
  assumes "port_ok s" "held s + length d \<le> 1023"
  shows "unread (port_put d s) = unread s @ d"
proof (rule nth_equalityI)
  show "length (unread (port_put d s)) = length (unread s @ d)"
    by (simp add: put_held [OF assms])
next
  fix i assume "i < length (unread (port_put d s))"
  then have i: "i < held s + length d" by (simp add: put_held [OF assms])
  have b: "unat (producer s) < 1024" "unat (consumer s) < 1024" "length (rx_buffer s) = 1024"
    using assms(1) by (auto simp: port_ok_def)
  define k where "k = (unat (consumer s) + i) mod 1024"
  have k: "k < 1024" by (simp add: k_def)
  have off: "(k + 1024 - unat (producer s)) mod 1024 = (if i < held s then 1024 - held s + i else i - held s)"
    using i b assms(2) held_cases [OF assms(1)] by (auto simp: k_def ring_mod split: if_splits)
  have "unread (port_put d s) ! i = ring_write (unat (producer s)) d (rx_buffer s) ! k"
    using i by (simp add: unread_def put_held [OF assms] k_def) (simp add: port_put_def)
  also have "\<dots> = (if i < held s then rx_buffer s ! k else d ! (i - held s))"
    unfolding nth_ring_write [OF b(3) b(1) _ k, of d, unfolded off]
    using i assms(2) by (subst nth_ring_write) (auto simp: b k off)
  also have "\<dots> = (unread s @ d) ! i"
    using i by (simp add: nth_append unread_def k_def)
  finally show "unread (port_put d s) ! i = (unread s @ d) ! i" .
qed

lemma take_byte_ok: "port_ok s \<Longrightarrow> port_ok (snd (take_byte s))"
  by (simp add: port_ok_def take_byte_def Let_def unat_of_nat_u16)

lemma take_byte_consumer: "unat (consumer (snd (take_byte s))) = (unat (consumer s) + 1) mod 1024"
  by (simp add: take_byte_def Let_def unat_of_nat_u16)

lemma take_byte_fields [simp]:
  "producer (snd (take_byte s)) = producer s" "tx_buffer (snd (take_byte s)) = tx_buffer s"
  "transmitted_size (snd (take_byte s)) = transmitted_size s" "port_fault (snd (take_byte s)) = port_fault s"
  "overflow (snd (take_byte s)) = overflow s" "received_size (snd (take_byte s)) = received_size s"
  by (simp_all add: take_byte_def Let_def)

lemma take_byte_held:
  assumes "port_ok s" "held s > 0"
  shows "held (snd (take_byte s)) = held s - 1"
  using assms(2) take_byte_consumer [of s] held_cases [OF assms(1)] held_cases [OF take_byte_ok [OF assms(1)]] assms(1)
  by (auto simp: port_ok_def ring_mod split: if_splits)

lemma take_byte_unread:
  assumes "port_ok s" "held s > 0"
  shows "unread s = fst (take_byte s) # unread (snd (take_byte s))"
proof (rule nth_equalityI)
  show "length (unread s) = length (fst (take_byte s) # unread (snd (take_byte s)))"
    using assms(2) by (simp add: take_byte_held [OF assms])
next
  fix i assume "i < length (unread s)"
  then have i: "i < held s" by simp
  have c: "unat (consumer s) < 1024" using assms(1) by (simp add: port_ok_def)
  show "unread s ! i = (fst (take_byte s) # unread (snd (take_byte s))) ! i"
  proof (cases i)
    case 0
    then show ?thesis using i c by (simp add: unread_def take_byte_def Let_def)
  next
    case (Suc j)
    then have j: "j < held s - 1" using i by simp
    have "(unat (consumer s) + Suc j) mod 1024 \<noteq> unat (consumer s)"
      using j c held_less [of s] by (auto simp: ring_mod)
    moreover have "((unat (consumer s) + 1) mod 1024 + j) mod 1024 = (unat (consumer s) + Suc j) mod 1024"
      by (simp add: mod_simps)
    ultimately show ?thesis using i j Suc
      by (simp add: unread_def take_byte_held [OF assms] take_byte_consumer) (simp add: take_byte_def Let_def)
  qed
qed

lemma take_bytes_drain:
  "port_ok s \<Longrightarrow> n \<le> held s \<Longrightarrow>
   fst (take_bytes n s) = take n (unread s) \<and> unread (snd (take_bytes n s)) = drop n (unread s) \<and>
   port_ok (snd (take_bytes n s)) \<and> held (snd (take_bytes n s)) = held s - n"
proof (induction n arbitrary: s)
  case 0
  then show ?case by simp
next
  case (Suc n)
  then have h: "held s > 0" by simp
  note u = take_byte_unread [OF Suc.prems(1) h] and hd = take_byte_held [OF Suc.prems(1) h]
  have "fst (take_bytes n (snd (take_byte s))) = take n (unread (snd (take_byte s))) \<and>
      unread (snd (take_bytes n (snd (take_byte s)))) = drop n (unread (snd (take_byte s))) \<and>
      port_ok (snd (take_bytes n (snd (take_byte s)))) \<and>
      held (snd (take_bytes n (snd (take_byte s)))) = held (snd (take_byte s)) - n"
    using Suc.prems by (intro Suc.IH take_byte_ok) (auto simp: hd)
  then show ?case by (subst (1 2) u) (simp add: split_beta hd)
qed

lemma take_bytes_fields [simp]:
  "producer (snd (take_bytes n s)) = producer s" "tx_buffer (snd (take_bytes n s)) = tx_buffer s"
  "transmitted_size (snd (take_bytes n s)) = transmitted_size s" "port_fault (snd (take_bytes n s)) = port_fault s"
  "overflow (snd (take_bytes n s)) = overflow s" "received_size (snd (take_bytes n s)) = received_size s"
  by (induction n arbitrary: s) (simp_all add: split_beta)

section \<open>The ring is a byte stream\<close>

definition port_room :: "serial_port \<Rightarrow> nat" where
  "port_room s = unat (serial_port_available_space s)"

definition port_get :: "serial_port \<Rightarrow> u8 list \<times> serial_port" where
  "port_get s = (let s = serial_port_extract_data s in take_bytes (unat (received_size s)) s)"

lemma port_get_all:
  assumes "port_ok s"
  shows "fst (port_get s) = unread s" "unread (snd (port_get s)) = []" "port_ok (snd (port_get s))"
  using take_bytes_drain [of "serial_port_extract_data s" "held s"] assms
  by (simp_all add: port_get_def Let_def extract_size(2))

interpretation port: byte_stream port_ok unread port_room port_put port_get 1023
proof
  fix s d assume ok: "port_ok s"
  then show r: "port_room s + length (unread s) = 1023"
    using held_less [of s] by (simp add: port_room_def available_space)
  show "port_ok (port_put d s)" if "length d \<le> port_room s"
    using that r ok by (intro put_ok) auto
  show "unread (port_put d s) = unread s @ d" if "length d \<le> port_room s"
    using that r ok by (intro put_unread) auto
  show "port_ok (snd (port_get s))" "fst (port_get s) = unread s" "unread (snd (port_get s)) = []"
    using port_get_all [OF ok] by auto
qed

text \<open>C25: the receive ring carries bytes in order.  For every sequence of writes by the producer (each
made only when it fits in the free space the code computes) and complete reads, what was unread at the
start followed by what was written is what was read followed by what is still unread, and never more
than 1023 bytes wait.\<close>

theorem port_is_a_stream:
  assumes "port_ok s" "stream_run port_room port_put port_get ops s = (sent, recvd, s')"
  shows "unread s @ sent = recvd @ unread s' \<and> length (unread s') \<le> 1023"
  using port.run_in_order [OF assms] port.run_bounded [OF assms(1), of ops] assms(2) by simp

definition blank_port :: serial_port where
  "blank_port = \<lparr>rx_buffer = replicate SERIAL_PORT_BUFFER_SIZE 0, tx_buffer = replicate SERIAL_PORT_BUFFER_SIZE 0,
     received_size = 0, transmitted_size = 0, producer = 1022, consumer = 1022, rx_complete = False,
     overflow = False, port_fault = None, baud_rate = 0, port_parity = 0, data_bits = 0, flow_control = 0\<rparr>"

lemma blank_port_ok: "port_ok blank_port"
  by (simp add: port_ok_def blank_port_def)

lemma blank_port_fields: "port_fault blank_port = None" "transmitted_size blank_port = 0"
  by (simp_all add: blank_port_def)

lemma blank_port_unread: "unread blank_port = []" "held blank_port = 0"
  by (simp_all add: unread_def held_def blank_port_def)

theorem port_is_a_stream_witness:
  "\<exists>sent recvd s'. stream_run port_room port_put port_get [Write [1, 2, 3], Read, Write [4]] blank_port = (sent, recvd, s') \<and>
     unread blank_port @ sent = recvd @ unread s' \<and> length (unread s') \<le> 1023"
proof -
  obtain sent recvd s' where
    r: "stream_run port_room port_put port_get [Write [1, 2, 3], Read, Write [4]] blank_port = (sent, recvd, s')"
    by (cases "stream_run port_room port_put port_get [Write [1, 2, 3], Read, Write [4]] blank_port") auto
  from port_is_a_stream [OF blank_port_ok r] r show ?thesis by blast
qed

lemma rx_used_held: "port_ok s \<Longrightarrow> unat (serial_port_rx_used s) = held s"
  by (auto simp: serial_port_rx_used_def held_cases word_le_nat_alt unat_sub_no_wrap port_ok_def)

lemma rx_free_room: "port_ok s \<Longrightarrow> unat (serial_port_rx_free s) = 1023 - held s"
proof -
  assume ok: "port_ok s"
  show ?thesis
  proof (cases "unat (consumer s) \<le> unat (producer s)")
    case True
    have d: "unat (producer s - consumer s) = unat (producer s) - unat (consumer s)"
      using True by (rule unat_sub_no_wrap)
    have "unat (1024 - (producer s - consumer s)) = 1024 - unat (producer s - consumer s)"
      using d ok by (subst unat_sub_no_wrap) (auto simp: port_ok_def)
    moreover from this have "unat (1024 - (producer s - consumer s) - 1) = unat (1024 - (producer s - consumer s)) - 1"
      using d ok by (subst unat_sub_no_wrap) (auto simp: port_ok_def)
    ultimately show ?thesis using True ok d
      by (simp add: serial_port_rx_free_def held_cases word_le_nat_alt)
  next
    case False
    then have d: "unat (consumer s - producer s) = unat (consumer s) - unat (producer s)"
      by (intro unat_sub_no_wrap) simp
    then have "unat (consumer s - producer s - 1) = unat (consumer s - producer s) - 1"
      using False by (subst unat_sub_no_wrap) auto
    then show ?thesis using False ok d
      by (simp add: serial_port_rx_free_def held_cases word_le_nat_alt port_ok_def)
  qed
qed

lemma rx_empty_held: "port_ok s \<Longrightarrow> serial_port_rx_empty s \<longleftrightarrow> held s = 0"
  by (auto simp: serial_port_rx_empty_def held_cases port_ok_def word_unat_eq_iff split: if_splits)

lemma rx_full_held: "port_ok s \<Longrightarrow> serial_port_rx_full s \<longleftrightarrow> held s = 1023"
  by (auto simp: serial_port_rx_full_def held_cases port_ok_def ring_mod split: if_splits)

text \<open>C26: the four queries of the ring agree with each other and with the contents: used and free space are
the number of unread bytes and 1023 minus it, \<open>rx_empty\<close> and \<open>rx_full\<close> are the cases 0 and 1023, and the
simulated wire sees the same free space as \<open>rx_free\<close>.\<close>

theorem ring_queries:
  assumes "port_ok s"
  shows "unat (serial_port_rx_used s) = length (unread s) \<and> unat (serial_port_rx_free s) = 1023 - length (unread s) \<and>
    serial_port_available_space s = serial_port_rx_free s \<and>
    (serial_port_rx_empty s \<longleftrightarrow> unread s = []) \<and> (serial_port_rx_full s \<longleftrightarrow> length (unread s) = 1023) \<and>
    fst (serial_port_data_available s) = int (length (unread s))"
proof -
  have "serial_port_available_space s = serial_port_rx_free s"
    using rx_free_room [OF assms] available_space [OF assms] by (simp add: word_unat_eq_iff)
  moreover have "unread s = [] \<longleftrightarrow> held s = 0" by (metis length_unread length_0_conv)
  ultimately show ?thesis
    using assms by (simp add: rx_used_held rx_free_room rx_empty_held rx_full_held serial_port_data_available_def
        Let_def extract_size(3) extract_int)
qed

theorem ring_queries_witness: "serial_port_rx_empty blank_port \<and> unat (serial_port_rx_free blank_port) = 1023"
  using ring_queries [OF blank_port_ok] by (simp add: blank_port_unread)

section \<open>The wire\<close>

text \<open>A sender, the copying thread and a receiver.  A send waits until the previous message has been taken.\<close>

datatype wire_op = Send "u8 list" | Copy | Receive

record wire =
  sent :: "u8 list"
  recvd :: "u8 list"
  wire_pc :: copier
  boy :: serial_port
  girl :: serial_port

definition sim_board :: "unit board" where
  "sim_board = \<lparr>fake_sim = True, mdelay = (\<lambda>_ s. s), udelay = (\<lambda>_ s. s), ops_init = (\<lambda>s. s), ops_enable = (\<lambda>w. w),
     ops_disable = (\<lambda>w. w), ops_transmit_bytes = None, ops_receive_callback = None, ops_update_producer = (\<lambda>s. s),
     ops_config = None, ops_irq = (\<lambda>_ w. w), ops_set_tx = (\<lambda>_ w. w)\<rparr>"

lemma sim_board_simps [simp]:
  "fake_sim sim_board" "ops_transmit_bytes sim_board = None" "ops_receive_callback sim_board = None"
  by (simp_all add: sim_board_def)

fun wire_step :: "wire_op \<Rightarrow> wire \<Rightarrow> wire" where
  "wire_step (Send d) s =
     (if serial_port_tx_idle sim_board (boy s)
      then case serial_port_transmit_bytes sim_board d (boy s, ()) of
             Some (_, b, _) \<Rightarrow> s\<lparr>boy := b, sent := sent s @ take (SERIAL_PORT_BUFFER_SIZE - 1) d\<rparr>
           | None \<Rightarrow> s
      else s)"
| "wire_step Copy s =
     (case serial_port_copy_to_others (wire_pc s, boy s, girl s) of (pc, b, g) \<Rightarrow>
        s\<lparr>wire_pc := pc, boy := b, girl := g\<rparr>)"
| "wire_step Receive s =
     (if serial_port_rx_empty (girl s) then s
      else case serial_port_receive_bytes sim_board True (int SERIAL_PORT_BUFFER_SIZE) 100 (girl s, ()) of
             Some ((_, bytes), g, _) \<Rightarrow> s\<lparr>girl := g, recvd := recvd s @ bytes\<rparr>
           | None \<Rightarrow> s)"

lemma pick_no_fault: "port_fault b = None \<Longrightarrow> communication_fault_pick b = (COMMUNICATION_FAULT_NONE, b)"
  by (simp add: communication_fault_pick_def)

lemma deliver_put:
  "deliver COMMUNICATION_FAULT_NONE (b, g) =
     (b\<lparr>transmitted_size := 0\<rparr>, port_put (take (unat (transmitted_size b)) (tx_buffer b)) g)"
  if "port_ok b"
proof -
  have "length (take (unat (transmitted_size b)) (tx_buffer b)) = unat (transmitted_size b)"
    using that by (simp add: port_ok_def)
  then show ?thesis by (simp add: deliver_def port_put_def Let_def)
qed

lemma transmit_idle:
  assumes "port_ok b" "transmitted_size b = 0" "fake_sim bd" "ops_transmit_bytes bd = None"
  shows "serial_port_transmit_bytes bd d (b, w) =
    Some (0, b\<lparr>tx_buffer := take 1023 d @ drop (length (take 1023 d)) (tx_buffer b),
               transmitted_size := of_nat (length (take 1023 d))\<rparr>, w)"
  using assms by (simp add: serial_port_transmit_bytes_def wait_tx.simps send_now_def Let_def)

lemma receive_now:
  assumes "port_ok g" "held g > 0" "ops_receive_callback bd = None" "t \<noteq> 0"
  shows "\<exists>g' w'. serial_port_receive_bytes bd True 1024 t (g, w) = Some ((int (held g), unread g), g', w') \<and>
     port_ok g' \<and> unread g' = [] \<and> port_fault g' = port_fault g \<and> transmitted_size g' = transmitted_size g"
proof -
  define x where "x = serial_port_extract_data g"
  define y where "y = snd (take_bytes (held g) x)"
  have x: "rx_complete x" "unat (received_size x) = held g" "port_ok x" "unread x = unread g" "held x = held g"
    "port_fault x = port_fault g" "transmitted_size x = transmitted_size g"
    using extract_size [OF assms(1)] assms(1,2)
    by (simp_all add: x_def) (simp_all add: serial_port_extract_data_def Let_def)
  have y: "fst (take_bytes (held g) x) = unread g" "unread y = []" "port_ok y" "received_size y = received_size x"
    "port_fault y = port_fault g" "transmitted_size y = transmitted_size g"
    using take_bytes_drain [of x "held g"] x by (simp_all add: y_def)
  have w: "wait_until bd t 0 (g, w) = (0, x, w)"
    using assms(4) x(1) by (subst wait_until.simps) (simp add: x_def Let_def word_gt_0)
  have tb: "take_bytes (held g) x = (unread g, y)"
    using y(1) by (simp add: y_def prod_eq_iff)
  have keep: "port_ok (y\<lparr>rx_complete := c\<rparr>) = port_ok y" "port_ok (y\<lparr>rx_complete := c, overflow := v\<rparr>) = port_ok y"
    "unread (y\<lparr>rx_complete := c\<rparr>) = unread y" "unread (y\<lparr>rx_complete := c, overflow := v\<rparr>) = unread y" for c v
    by (simp_all add: port_ok_def unread_def held_def)
  have "uint (received_size x) = int (held g)" using x(2) by (metis uint_nat)
  then show ?thesis using assms(3,4) x y
    by (simp add: serial_port_receive_bytes_def w finish_receive_def tb Let_def keep)
qed

definition wire_inv :: "u8 list \<Rightarrow> wire \<Rightarrow> bool" where
  "wire_inv start s \<longleftrightarrow> port_ok (boy s) \<and> port_ok (girl s) \<and> port_fault (boy s) = None \<and>
     (wire_pc s = Looking \<or> wire_pc s = Waiting COMMUNICATION_FAULT_NONE) \<and>
     start @ sent s = recvd s @ unread (girl s) @ take (unat (transmitted_size (boy s))) (tx_buffer (boy s))"

lemma wire_send_inv:
  assumes "wire_inv start s"
  shows "wire_inv start (wire_step (Send d) s)"
proof (cases "transmitted_size (boy s) = 0")
  case True
  have ok: "port_ok (boy s)" using assms by (simp add: wire_inv_def)
  define e where "e = take 1023 d"
  have e: "length e \<le> 1023" by (simp add: e_def)
  have "serial_port_transmit_bytes sim_board d (boy s, ()) =
      Some (0, (boy s)\<lparr>tx_buffer := e @ drop (length e) (tx_buffer (boy s)), transmitted_size := of_nat (length e)\<rparr>, ())"
    using transmit_idle [OF ok True, of sim_board d "()"] by (simp add: e_def)
  then show ?thesis using assms True e
    by (simp add: wire_inv_def serial_port_tx_idle_def port_ok_def unat_of_nat_u16 flip: e_def)
next
  case False
  then show ?thesis using assms by (simp add: serial_port_tx_idle_def)
qed

lemma wire_copy_inv:
  assumes "wire_inv start s"
  shows "wire_inv start (wire_step Copy s)"
proof -
  have ok: "port_ok (boy s)" "port_ok (girl s)" "port_fault (boy s) = None"
    using assms by (auto simp: wire_inv_def)
  show ?thesis
  proof (cases "wire_pc s = Looking \<or> serial_port_available_space (girl s) < transmitted_size (boy s)")
    case True
    have "wire_pc s = Looking \<or> wire_pc s = Waiting COMMUNICATION_FAULT_NONE"
      using assms by (simp add: wire_inv_def)
    then have "\<exists>pc. wire_step Copy s = s\<lparr>wire_pc := pc\<rparr> \<and> (pc = Looking \<or> pc = Waiting COMMUNICATION_FAULT_NONE)"
    proof
      assume "wire_pc s = Looking"
      then show ?thesis by (auto simp: serial_port_copy_to_others_def pick_no_fault [OF ok(3)])
    next
      assume "wire_pc s = Waiting COMMUNICATION_FAULT_NONE"
      with True show ?thesis by (auto simp: serial_port_copy_to_others_def)
    qed
    then show ?thesis using assms by (auto simp: wire_inv_def simp del: wire_step.simps)
  next
    case False
    then have pc: "wire_pc s = Waiting COMMUNICATION_FAULT_NONE"
      using assms by (simp add: wire_inv_def)
    have "unat (transmitted_size (boy s)) \<le> 1023 - held (girl s)"
      using False available_space [OF ok(2)] by (simp add: not_less word_le_nat_alt)
    then have fit: "held (girl s) + length (take (unat (transmitted_size (boy s))) (tx_buffer (boy s))) \<le> 1023"
      using held_less [of "girl s"] by simp
    show ?thesis using assms False pc ok put_ok [OF ok(2) fit] put_unread [OF ok(2) fit]
      by (simp add: serial_port_copy_to_others_def deliver_put wire_inv_def) (simp add: port_ok_def)
  qed
qed

lemma wire_receive_inv:
  assumes "wire_inv start s"
  shows "wire_inv start (wire_step Receive s)"
proof (cases "serial_port_rx_empty (girl s)")
  case True
  then show ?thesis using assms by simp
next
  case False
  have ok: "port_ok (girl s)" using assms by (simp add: wire_inv_def)
  then have "held (girl s) > 0" using False rx_empty_held by blast
  then obtain g' where g: "serial_port_receive_bytes sim_board True 1024 100 (girl s, ()) =
      Some ((int (held (girl s)), unread (girl s)), g', ())" "port_ok g'" "unread g' = []"
    using receive_now [OF ok, of sim_board 100 "()"] by auto
  then show ?thesis using assms False by (simp add: wire_inv_def)
qed

interpretation wire: event_driven wire_step "wire_inv start"
proof
  fix s e assume "wire_inv start s"
  then show "wire_inv start (wire_step e s)"
    using wire_send_inv wire_copy_inv wire_receive_inv by (cases e) blast+
qed

text \<open>C27: without injected faults the simulated wire is reliable.  For every interleaving of sends, steps of the
copying thread and receives, what has been received, what waits in the receiver's ring and the message still in
the sender's buffer, in this order, are what was unread at the start followed by all that was sent (each
message cut at 1023 bytes, as the sender does).\<close>

theorem wire_reliable:
  assumes "port_ok b" "port_ok g" "port_fault b = None" "transmitted_size b = 0"
    and "fold wire_step ops \<lparr>sent = [], recvd = [], wire_pc = Looking, boy = b, girl = g\<rparr> = s"
  shows "unread g @ sent s = recvd s @ unread (girl s) @ take (unat (transmitted_size (boy s))) (tx_buffer (boy s))"
proof -
  have "wire_inv (unread g) \<lparr>sent = [], recvd = [], wire_pc = Looking, boy = b, girl = g\<rparr>"
    using assms(1-4) by (simp add: wire_inv_def)
  from wire.run_inv [OF this, of ops] show ?thesis
    unfolding assms(5) by (simp add: wire_inv_def)
qed

theorem wire_reliable_witness:
  "\<exists>s. fold wire_step [Send [1, 2], Copy, Copy, Send [3], Receive, Copy]
       \<lparr>sent = [], recvd = [], wire_pc = Looking, boy = blank_port, girl = blank_port\<rparr> = s \<and>
     unread blank_port @ sent s = recvd s @ unread (girl s) @ take (unat (transmitted_size (boy s))) (tx_buffer (boy s))"
  using wire_reliable [OF blank_port_ok blank_port_ok blank_port_fields refl] by blast

section \<open>Injected faults\<close>

lemma shift_fixed_zero: "v = push_bit 13 v \<Longrightarrow> (v :: u32) = 0"
proof -
  assume v: "v = push_bit 13 v"
  then have "v = push_bit 13 (push_bit 13 (push_bit 13 v))" by metis
  also have "\<dots> = push_bit 39 v" by (simp only: push_bit_push_bit) simp
  also have "\<dots> = 0" by (rule bit_word_eqI) (simp add: bit_push_bit_iff)
  finally show ?thesis .
qed

lemma shift5_fixed_zero: "v = push_bit 5 v \<Longrightarrow> (v :: u32) = 0"
proof -
  assume v: "v = push_bit 5 v"
  then have "v = push_bit 5 (push_bit 5 (push_bit 5 (push_bit 5 (push_bit 5 (push_bit 5 (push_bit 5 v))))))" by metis
  also have "\<dots> = push_bit 35 v" by (simp only: push_bit_push_bit) simp
  also have "\<dots> = 0" by (rule bit_word_eqI) (simp add: bit_push_bit_iff)
  finally show ?thesis .
qed

lemma drop17_fixed_zero: "v = drop_bit 17 v \<Longrightarrow> (v :: u32) = 0"
proof -
  assume v: "v = drop_bit 17 v"
  then have "v = drop_bit 17 (drop_bit 17 v)" by metis
  also have "\<dots> = drop_bit 34 v" by (simp only: drop_bit_drop_bit) simp
  also have "\<dots> = 0" by (rule bit_word_eqI) (simp add: bit_drop_bit_eq bit_imp_le_length)
  finally show ?thesis .
qed

lemma xor_zero_eq: "(a :: u32) XOR b = 0 \<longleftrightarrow> a = b"
  by (auto simp: bit_eq_iff bit_xor_iff)

text \<open>The generator never reaches the seed zero, on which it would stay.\<close>

lemma mini_random_nonzero: "fst (mini_random f) \<noteq> 0" "fault_seed (snd (mini_random f)) = fst (mini_random f)"
proof -
  define v0 :: u32 where "v0 = (if fault_seed f = 0 then 1 else fault_seed f)"
  define v1 where "v1 = v0 XOR push_bit 13 v0"
  define v2 where "v2 = v1 XOR drop_bit 17 v1"
  have "v0 \<noteq> 0" by (simp add: v0_def)
  then have "v1 \<noteq> 0" unfolding v1_def xor_zero_eq using shift_fixed_zero by blast
  then have "v2 \<noteq> 0" unfolding v2_def xor_zero_eq using drop17_fixed_zero by blast
  then have "v2 XOR push_bit 5 v2 \<noteq> 0" unfolding xor_zero_eq using shift5_fixed_zero by blast
  then show "fst (mini_random f) \<noteq> 0" by (simp add: mini_random_def Let_def v0_def v1_def v2_def)
qed (simp add: mini_random_def Let_def)

lemma mini_random_keeps:
  "fault_mode (snd (mini_random f)) = fault_mode f" "rate_per_mille (snd (mini_random f)) = rate_per_mille f"
  "fault_remaining (snd (mini_random f)) = fault_remaining f" "fault_injected (snd (mini_random f)) = fault_injected f"
  by (simp_all add: mini_random_def Let_def)

text \<open>How many faults are left to inject and have been injected.\<close>

definition faults_left :: "serial_port \<Rightarrow> nat" where
  "faults_left s = (case port_fault s of None \<Rightarrow> 0 | Some f \<Rightarrow> unat (fault_remaining f))"

lemma pick_cases:
  obtains (clean) "fst (communication_fault_pick b) = COMMUNICATION_FAULT_NONE"
      "faults_left (snd (communication_fault_pick b)) = faults_left b"
      "communication_fault_injected (snd (communication_fault_pick b)) = communication_fault_injected b"
  | (fault) "fst (communication_fault_pick b) \<in> {COMMUNICATION_FAULT_DROP, COMMUNICATION_FAULT_CORRUPT}"
      "port_fault (snd (communication_fault_pick b)) \<noteq> None"
      "faults_left b = Suc (faults_left (snd (communication_fault_pick b)))"
      "communication_fault_injected (snd (communication_fault_pick b)) = communication_fault_injected b + 1"
proof (cases "port_fault b")
  case None
  then show ?thesis using clean by (simp add: communication_fault_pick_def)
next
  case (Some f)
  define f1 where "f1 = snd (mini_random f)"
  define f2 where "f2 = snd (mini_random f1)"
  have f1: "mini_random f = (fst (mini_random f), f1)" and f2: "mini_random f1 = (fst (mini_random f1), f2)"
    by (simp_all add: f1_def f2_def)
  have k: "fault_remaining f1 = fault_remaining f" "fault_injected f1 = fault_injected f" "fault_mode f1 = fault_mode f"
    "fault_remaining f2 = fault_remaining f" "fault_injected f2 = fault_injected f"
    by (simp_all add: f1_def f2_def mini_random_keeps)
  show ?thesis
  proof (cases "fault_mode f = COMMUNICATION_FAULT_NONE \<or> fault_remaining f = 0 \<or>
      fst (mini_random f) mod 1000 \<ge> ucast (rate_per_mille f1)")
    case True
    then show ?thesis using Some k f1
      by (intro clean) (auto simp: communication_fault_pick_def faults_left_def communication_fault_injected_def
          Let_def split: prod.splits)
  next
    case False
    then have "unat (fault_remaining f) = Suc (unat (fault_remaining f - 1))"
      by (metis Suc_pred' unat_gt_0 unat_minus_one)
    then show ?thesis using Some k f1 f2 False
      by (intro fault) (cases "fault_mode f"; auto simp: communication_fault_pick_def faults_left_def
          communication_fault_injected_def Let_def split: prod.splits)+
  qed
qed

lemma unread_update:
  assumes "port_ok g" "j < held g"
  shows "unread (g\<lparr>rx_buffer := (rx_buffer g)[(unat (consumer g) + j) mod 1024 := v]\<rparr>) = (unread g)[j := v]"
proof (rule nth_equalityI)
  show "length (unread (g\<lparr>rx_buffer := (rx_buffer g)[(unat (consumer g) + j) mod 1024 := v]\<rparr>)) = length ((unread g)[j := v])"
    by (simp add: held_def)
next
  fix i assume "i < length (unread (g\<lparr>rx_buffer := (rx_buffer g)[(unat (consumer g) + j) mod 1024 := v]\<rparr>))"
  then have i: "i < held g" by (simp add: held_def)
  then have "(unat (consumer g) + i) mod 1024 = (unat (consumer g) + j) mod 1024 \<longleftrightarrow> i = j"
    using assms held_less [of g] by (auto simp: port_ok_def ring_mod split: if_splits)
  moreover have "length (rx_buffer g) = 1024" using assms(1) by (simp add: port_ok_def)
  moreover have "held (g\<lparr>rx_buffer := x\<rparr>) = held g" for x by (simp add: held_def)
  ultimately show "unread (g\<lparr>rx_buffer := (rx_buffer g)[(unat (consumer g) + j) mod 1024 := v]\<rparr>) ! i = (unread g)[j := v] ! i"
    using i assms(2) by (auto simp: unread_def nth_list_update)
qed

lemma corrupt_deliver:
  assumes "port_ok b" "port_ok g" "port_fault b = Some f" "transmitted_size b > 0"
    and fit: "held g + unat (transmitted_size b) \<le> 1023"
    and d: "d = take (unat (transmitted_size b)) (tx_buffer b)"
  shows "\<exists>k<length d. \<exists>n<8. unread (snd (deliver COMMUNICATION_FAULT_CORRUPT (b, g))) =
      unread g @ d[k := d ! k XOR push_bit n 1]"
proof -
  define p where "p = unat (producer g)"
  define f1 where "f1 = snd (mini_random f)"
  define k where "k = unat (fst (mini_random f) mod ucast (transmitted_size b))"
  define n where "n = unat (fst (mini_random f1) mod 8)"
  define i where "i = (p + k) mod 1024"
  define g' where "g' = port_put d g"
  have len: "length d = unat (transmitted_size b)" using assms(1) d by (simp add: port_ok_def)
  have fit': "held g + length d \<le> 1023" using fit len by simp
  have g': "port_ok g'" "unread g' = unread g @ d" "held g' = held g + length d" "consumer g' = consumer g"
    using put_ok [OF assms(2) fit'] put_unread [OF assms(2) fit'] put_held [OF assms(2) fit'] by (simp_all add: g'_def)
  have k: "k < length d"
  proof -
    have "0 < unat (transmitted_size b)" using assms(4) by (simp add: word_less_nat_alt)
    then show ?thesis by (simp add: k_def unat_mod len)
  qed
  have n: "n < 8" by (simp add: n_def unat_mod)
  have "snd (deliver COMMUNICATION_FAULT_CORRUPT (b, g)) =
      g'\<lparr>rx_buffer := (rx_buffer g')[i := rx_buffer g' ! i XOR push_bit n 1]\<rparr>"
    using assms(3) len by (simp add: deliver_def Let_def g'_def port_put_def split_beta i_def p_def k_def n_def f1_def d)
  moreover have i: "i = (unat (consumer g') + (held g + k)) mod 1024"
    using assms(2) k fit' held_cases [OF assms(2)] by (auto simp: i_def p_def g'(4) port_ok_def ring_mod split: if_splits)
  moreover have "rx_buffer g' ! i = d ! k"
  proof -
    have "unread g' ! (held g + k) = rx_buffer g' ! i" using k by (simp add: unread_def g'(3) i)
    then show ?thesis by (simp add: g'(2) nth_append)
  qed
  ultimately have "unread (snd (deliver COMMUNICATION_FAULT_CORRUPT (b, g))) = unread g @ d[k := d ! k XOR push_bit n 1]"
    using unread_update [OF g'(1), of "held g + k"] k by (simp add: g'(2,3) list_update_append)
  then show ?thesis using k n by blast
qed


lemma pick_port [simp]:
  "port_ok (snd (communication_fault_pick b)) = port_ok b"
  "tx_buffer (snd (communication_fault_pick b)) = tx_buffer b"
  "transmitted_size (snd (communication_fault_pick b)) = transmitted_size b"
  by (auto simp: communication_fault_pick_def port_ok_def Let_def split: option.splits prod.splits)

text \<open>C28: what the wire does with one message when faults are injected.  The message is dropped (the
receiver is untouched), delivered with exactly one bit of one byte changed, or delivered as sent; a fault is
counted, and only while faults are left; no fault is invented when none is left.\<close>

theorem wire_faults:
  assumes "port_ok b" "port_ok g" "transmitted_size b > 0" "held g + unat (transmitted_size b) \<le> 1023"
    and d: "d = take (unat (transmitted_size b)) (tx_buffer b)"
    and "serial_port_copy_to_others (Looking, b, g) = (pc1, b1, g1)"
    and "serial_port_copy_to_others (pc1, b1, g1) = (pc2, b2, g2)"
  shows "(pc1 = Looking \<and> transmitted_size b1 = 0 \<and> g1 = g \<and>
            faults_left b = Suc (faults_left b1) \<and> communication_fault_injected b1 = communication_fault_injected b + 1) \<or>
         (pc2 = Looking \<and> transmitted_size b2 = 0 \<and>
            (\<exists>k<length d. \<exists>n<8. unread g2 = unread g @ d[k := d ! k XOR push_bit n 1]) \<and>
            faults_left b = Suc (faults_left b1) \<and> communication_fault_injected b1 = communication_fault_injected b + 1) \<or>
         (pc2 = Looking \<and> transmitted_size b2 = 0 \<and> unread g2 = unread g @ d \<and>
            faults_left b1 = faults_left b \<and> communication_fault_injected b1 = communication_fault_injected b)"
proof -
  define m where "m = fst (communication_fault_pick b)"
  define bp where "bp = snd (communication_fault_pick b)"
  have pick: "communication_fault_pick b = (m, bp)" by (simp add: m_def bp_def)
  have bp: "port_ok bp" "tx_buffer bp = tx_buffer b" "transmitted_size bp = transmitted_size b"
    using assms(1) by (simp_all add: bp_def)
  have space: "\<not> serial_port_available_space g < transmitted_size b"
    using assms(4) available_space [OF assms(2)] by (simp add: word_less_nat_alt)
  have len: "length d = unat (transmitted_size b)" using assms(1) d by (simp add: port_ok_def)
  have st1: "(pc1, b1, g1) = (if m = COMMUNICATION_FAULT_DROP then (Looking, bp\<lparr>transmitted_size := 0\<rparr>, g) else (Waiting m, bp, g))"
    using assms(3,6) by (simp add: serial_port_copy_to_others_def pick split: if_splits)
  have st2: "(pc2, b2, g2) = (Looking, deliver m (bp, g))" if "m \<noteq> COMMUNICATION_FAULT_DROP"
    using assms(7) st1 that space by (simp add: serial_port_copy_to_others_def bp(3) split: if_splits)
  have done_: "transmitted_size (fst (deliver m (bp, g))) = 0"
    by (simp add: deliver_def Let_def split: option.splits prod.splits)
  show ?thesis
  proof (cases rule: pick_cases [of b])
    case clean
    then have "g2 = port_put d g" "transmitted_size b2 = 0"
      using st2 deliver_put [OF bp(1), of g] d bp by (auto simp: m_def)
    then show ?thesis
      using clean st1 st2 assms(4) len put_unread [OF assms(2), of d] by (auto simp: m_def bp_def)
  next
    case fault
    show ?thesis
    proof (cases "m = COMMUNICATION_FAULT_DROP")
      case True
      then show ?thesis using st1 fault
        by (simp add: bp_def faults_left_def communication_fault_injected_def)
    next
      case False
      then have m: "m = COMMUNICATION_FAULT_CORRUPT" using fault by (simp add: m_def)
      obtain f where f: "port_fault bp = Some f" using fault by (auto simp: bp_def)
      have "\<exists>k<length d. \<exists>n<8. unread (snd (deliver COMMUNICATION_FAULT_CORRUPT (bp, g))) =
          unread g @ d[k := d ! k XOR push_bit n 1]"
        by (rule corrupt_deliver [OF bp(1) assms(2) f]) (use assms bp in auto)
      moreover have "pc2 = Looking" "transmitted_size b2 = 0" "g2 = snd (deliver COMMUNICATION_FAULT_CORRUPT (bp, g))"
        using st2 [OF False] done_ m by (auto simp: prod_eq_iff)
      moreover have "b1 = bp" using st1 False by simp
      ultimately show ?thesis using fault by (simp add: bp_def)
    qed
  qed
qed

definition noisy_port :: serial_port where
  "noisy_port = blank_port\<lparr>transmitted_size := 1, port_fault := Some \<lparr>fault_mode = COMMUNICATION_FAULT_RANDOM,
     rate_per_mille = 1000, fault_remaining = 1, fault_injected = 0, fault_seed = 7\<rparr>\<rparr>"

theorem wire_faults_witness:
  "\<exists>pc1 b1 g1 pc2 b2 g2. serial_port_copy_to_others (Looking, noisy_port, blank_port) = (pc1, b1, g1) \<and>
     serial_port_copy_to_others (pc1, b1, g1) = (pc2, b2, g2) \<and>
     (pc1 = Looking \<and> g1 = blank_port \<or> pc2 = Looking \<and> length (unread g2) = 1)"
proof -
  obtain pc1 b1 g1 where 1: "serial_port_copy_to_others (Looking, noisy_port, blank_port) = (pc1, b1, g1)"
    by (cases "serial_port_copy_to_others (Looking, noisy_port, blank_port)") auto
  obtain pc2 b2 g2 where 2: "serial_port_copy_to_others (pc1, b1, g1) = (pc2, b2, g2)"
    by (cases "serial_port_copy_to_others (pc1, b1, g1)") auto
  define d where "d = take (unat (transmitted_size noisy_port)) (tx_buffer noisy_port)"
  have ok: "port_ok noisy_port" "transmitted_size noisy_port = 1" "length d = 1"
    using blank_port_ok by (simp_all add: port_ok_def noisy_port_def d_def)
  have "unread blank_port = []" "held blank_port = 0" by (rule blank_port_unread)+
  then have "pc1 = Looking \<and> g1 = blank_port \<or> pc2 = Looking \<and> length (unread g2) = 1"
    using wire_faults [OF ok(1) blank_port_ok _ _ d_def 1 2] ok by (auto simp del: length_unread)
  with 1 2 show ?thesis by blast
qed

section \<open>Waiting for data\<close>

text \<open>What the code relies on of the board: a delay lets the other side add bytes that fit, and the
receive callback does not touch the port.\<close>

definition board_ok :: "'w board \<Rightarrow> bool" where
  "board_ok bd \<longleftrightarrow>
     (\<forall>n s w. port_ok s \<longrightarrow> (\<exists>d w'. held s + length d \<le> 1023 \<and> mdelay bd n (s, w) = (port_put d s, w'))) \<and>
     (\<forall>f s w. ops_receive_callback bd = Some f \<longrightarrow> fst (f (s, w)) = s)"

text \<open>The state after \<open>k\<close> passes of a waiting loop that found nothing.\<close>

fun delayed :: "'w board \<Rightarrow> nat \<Rightarrow> serial_port \<times> 'w \<Rightarrow> serial_port \<times> 'w" where
  "delayed bd 0 s = s"
| "delayed bd (Suc k) s = delayed bd k (mdelay bd 1 (serial_port_extract_data (fst s), snd s))"

lemma mdelay_ok:
  assumes "board_ok bd" "port_ok s"
  shows "port_ok (fst (mdelay bd n (s, w)))" "rx_complete (fst (mdelay bd n (s, w))) = rx_complete s"
proof -
  obtain d w' where d: "held s + length d \<le> 1023" "mdelay bd n (s, w) = (port_put d s, w')"
    using assms unfolding board_ok_def by blast
  then show "port_ok (fst (mdelay bd n (s, w)))" "rx_complete (fst (mdelay bd n (s, w))) = rx_complete s"
    using put_ok [OF assms(2) d(1)] by (simp_all add: port_put_def)
qed

lemma delayed_ok: "board_ok bd \<Longrightarrow> port_ok (fst s) \<Longrightarrow> port_ok (fst (delayed bd k s))"
  by (induction k arbitrary: s) (simp_all add: mdelay_ok)

lemma delayed_quiet:
  "board_ok bd \<Longrightarrow> port_ok (fst s) \<Longrightarrow> 0 < k \<Longrightarrow> \<forall>j<k. held (fst (delayed bd j s)) = 0 \<Longrightarrow>
   \<not> rx_complete (fst (delayed bd k s))"
proof (induction k arbitrary: s)
  case 0
  then show ?case by simp
next
  case (Suc k)
  define s1 where "s1 = mdelay bd 1 (serial_port_extract_data (fst s), snd s)"
  have h: "held (fst s) = 0" using Suc.prems(4) by (metis delayed.simps(1) zero_less_Suc)
  have s1: "port_ok (fst s1)" "\<not> rx_complete (fst s1)"
    using mdelay_ok [OF Suc.prems(1), of "serial_port_extract_data (fst s)"] Suc.prems(2) h
    by (simp_all add: s1_def extract_size)
  show ?case
  proof (cases k)
    case 0
    then show ?thesis using s1 by (simp add: s1_def [symmetric])
  next
    case (Suc k')
    have "\<forall>j<k. held (fst (delayed bd j s1)) = 0"
    proof (intro allI impI)
      fix j assume "j < k"
      then have "held (fst (delayed bd (Suc j) s)) = 0" using Suc.prems(4) by (metis Suc_less_eq)
      then show "held (fst (delayed bd j s1)) = 0" by (simp add: s1_def)
    qed
    then show ?thesis using Suc.IH [OF Suc.prems(1) s1(1)] Suc by (simp add: s1_def)
  qed
qed

lemma wait_until_skip:
  "board_ok bd \<Longrightarrow> port_ok (fst s) \<Longrightarrow> unat e + k \<le> unat t \<Longrightarrow> \<forall>j<k. held (fst (delayed bd j s)) = 0 \<Longrightarrow>
   wait_until bd t e s = wait_until bd t (e + of_nat k) (delayed bd k s)"
proof (induction k arbitrary: s e)
  case 0
  then show ?case by simp
next
  case (Suc k)
  define s1 where "s1 = mdelay bd 1 (serial_port_extract_data (fst s), snd s)"
  have h: "held (fst s) = 0" using Suc.prems(4) by (metis delayed.simps(1) zero_less_Suc)
  have s1: "port_ok (fst s1)"
    using mdelay_ok [OF Suc.prems(1), of "serial_port_extract_data (fst s)"] Suc.prems(2) by (simp add: s1_def)
  have e: "unat (e + 1) = unat e + 1"
    using Suc.prems(3) unat_lt_32 [of t] by (subst unat_add_no_wrap) auto
  have q: "\<forall>j<k. held (fst (delayed bd j s1)) = 0"
  proof (intro allI impI)
    fix j assume "j < k"
    then have "held (fst (delayed bd (Suc j) s)) = 0" using Suc.prems(4) by (metis Suc_less_eq)
    then show "held (fst (delayed bd j s1)) = 0" by (simp add: s1_def)
  qed
  have "e < t" using Suc.prems(3) by (simp add: word_less_nat_alt)
  then have "wait_until bd t e s = wait_until bd t (e + 1) s1"
    using h Suc.prems(2) by (subst wait_until.simps) (simp add: Let_def extract_size s1_def)
  also have "\<dots> = wait_until bd t (e + 1 + of_nat k) (delayed bd k s1)"
    using Suc.prems(3) e by (intro Suc.IH [OF Suc.prems(1) s1 _ q]) simp
  finally show ?case by (simp add: s1_def add.assoc)
qed

lemma wait_forever_skip:
  "board_ok bd \<Longrightarrow> port_ok (fst s) \<Longrightarrow> \<forall>j<k. held (fst (delayed bd j s)) = 0 \<Longrightarrow>
   wait_forever bd s = wait_forever bd (delayed bd k s)"
proof (induction k arbitrary: s)
  case 0
  then show ?case by simp
next
  case (Suc k)
  define s1 where "s1 = mdelay bd 1 (serial_port_extract_data (fst s), snd s)"
  have h: "held (fst s) = 0" using Suc.prems(3) by (metis delayed.simps(1) zero_less_Suc)
  have s1: "port_ok (fst s1)"
    using mdelay_ok [OF Suc.prems(1), of "serial_port_extract_data (fst s)"] Suc.prems(2) by (simp add: s1_def)
  have q: "\<forall>j<k. held (fst (delayed bd j s1)) = 0"
  proof (intro allI impI)
    fix j assume "j < k"
    then have "held (fst (delayed bd (Suc j) s)) = 0" using Suc.prems(3) by (metis Suc_less_eq)
    then show "held (fst (delayed bd j s1)) = 0" by (simp add: s1_def)
  qed
  have "wait_forever bd s = wait_forever bd s1"
    using h Suc.prems(2) by (subst wait_forever.simps) (simp add: Let_def extract_size s1_def)
  then show ?case using Suc.IH [OF Suc.prems(1) s1 q] by (simp add: s1_def)
qed

lemma finish_receive_data:
  assumes "board_ok bd" "port_ok g" "held g > 0"
  shows "fst (finish_receive bd (serial_port_extract_data g, w)) = (int (held g), unread g) \<and>
    port_ok (fst (snd (finish_receive bd (serial_port_extract_data g, w)))) \<and>
    unread (fst (snd (finish_receive bd (serial_port_extract_data g, w)))) = []"
proof -
  define x where "x = serial_port_extract_data g"
  define y where "y = snd (take_bytes (held g) x)"
  have x: "rx_complete x" "unat (received_size x) = held g" "port_ok x" "unread x = unread g" "held x = held g"
    using extract_size [OF assms(2)] assms(2,3) by (simp_all add: x_def)
  have y: "fst (take_bytes (held g) x) = unread g" "unread y = []" "port_ok y" "received_size y = received_size x"
    using take_bytes_drain [of x "held g"] x by (simp_all add: y_def)
  have tb: "take_bytes (held g) x = (unread g, y)" using y(1) by (simp add: y_def prod_eq_iff)
  obtain w' where cb: "(case ops_receive_callback bd of Some cb \<Rightarrow> cb (y, w) | None \<Rightarrow> (y, w)) = (y, w')"
    using assms(1) by (cases "ops_receive_callback bd") (auto simp: board_ok_def prod_eq_iff)
  have keep: "port_ok (y\<lparr>rx_complete := c\<rparr>) = port_ok y" "port_ok (y\<lparr>rx_complete := c, overflow := v\<rparr>) = port_ok y"
    "unread (y\<lparr>rx_complete := c\<rparr>) = unread y" "unread (y\<lparr>rx_complete := c, overflow := v\<rparr>) = unread y" for c v
    by (simp_all add: port_ok_def unread_def held_def)
  have "uint (received_size x) = int (held g)" using x(2) by (metis uint_nat)
  then show ?thesis using x y
    unfolding x_def [symmetric] finish_receive_def by (simp add: tb cb Let_def keep)
qed

text \<open>C29: a receive returns.  With a time-out it always returns: the bytes that are there at the first pass of
the waiting loop that finds any, all of them and in order, leaving the ring empty, or the time-out error when
none of the \<open>timeout\<close> passes finds any.  Without one (zero) it returns as soon as a pass finds data.  Without a
buffer, or with one smaller than the ring, it returns the invalid-argument error and touches nothing.\<close>

theorem receive_results:
  assumes "board_ok bd" "port_ok (fst s)"
  shows "(\<forall>k. (timeout = 0 \<or> k < unat timeout) \<and> (\<forall>j<k. unread (fst (delayed bd j s)) = []) \<and>
            unread (fst (delayed bd k s)) \<noteq> [] \<longrightarrow>
           (\<exists>s'. serial_port_receive_bytes bd True 1024 timeout s =
              Some ((int (length (unread (fst (delayed bd k s)))), unread (fst (delayed bd k s))), s') \<and>
              port_ok (fst s') \<and> unread (fst s') = [])) \<and>
         (timeout \<noteq> 0 \<and> (\<forall>k<unat timeout. unread (fst (delayed bd k s)) = []) \<longrightarrow>
           serial_port_receive_bytes bd True 1024 timeout s = Some ((- ETIMEDOUT, [0]), delayed bd (unat timeout) s)) \<and>
         serial_port_receive_bytes bd False len timeout s = Some ((- EINVAL, []), s) \<and>
         (len < 1024 \<longrightarrow> serial_port_receive_bytes bd True len timeout s = Some ((- EINVAL, []), s))"
proof (intro conjI allI impI; (elim conjE)?)
  have ne: "unread p = [] \<longleftrightarrow> held p = 0" for p by (metis length_unread length_0_conv)
  {
    fix k
    assume t: "timeout = 0 \<or> k < unat timeout" and "\<forall>j<k. unread (fst (delayed bd j s)) = []"
      and "unread (fst (delayed bd k s)) \<noteq> []"
    then have q: "\<forall>j<k. held (fst (delayed bd j s)) = 0" and h: "held (fst (delayed bd k s)) > 0"
      by (auto simp: ne)
    define g where "g = fst (delayed bd k s)"
    define w where "w = snd (delayed bd k s)"
    have gw: "delayed bd k s = (g, w)" by (simp add: g_def w_def)
    have ok: "port_ok g" using delayed_ok [OF assms] by (simp add: g_def)
    have h: "held g > 0" using h by (simp add: g_def)
    have rc: "rx_complete (serial_port_extract_data g)" using h ok by (simp add: extract_size)
    have "serial_port_receive_bytes bd True 1024 timeout s = Some (finish_receive bd (serial_port_extract_data g, w))"
    proof (cases "timeout = 0")
      case True
      have "wait_forever bd s = Some (serial_port_extract_data g, w)"
        unfolding wait_forever_skip [OF assms q] gw using rc by (subst wait_forever.simps) (simp add: Let_def)
      then show ?thesis using True by (simp add: serial_port_receive_bytes_def)
    next
      case False
      with t have k: "k < unat timeout" by simp
      then have kt: "of_nat k < timeout" using unat_lt_32 [of timeout]
        by (simp add: word_less_nat_alt unat_of_nat take_bit_nat_eq_self_iff)
      have "wait_until bd timeout 0 s = (of_nat k, serial_port_extract_data g, w)"
        using wait_until_skip [OF assms, of 0 k timeout] q k rc kt gw
        by simp (subst wait_until.simps, simp add: Let_def)
      then show ?thesis using False rc by (simp add: serial_port_receive_bytes_def)
    qed
    then show "\<exists>s'. serial_port_receive_bytes bd True 1024 timeout s =
        Some ((int (length (unread (fst (delayed bd k s)))), unread (fst (delayed bd k s))), s') \<and>
        port_ok (fst s') \<and> unread (fst s') = []"
      using finish_receive_data [OF assms(1) ok h, of w] unfolding g_def [symmetric]
      by (intro exI [of _ "snd (finish_receive bd (serial_port_extract_data g, w))"]) (simp add: prod_eq_iff)
  }
  {
    assume t: "timeout \<noteq> 0" and "\<forall>k<unat timeout. unread (fst (delayed bd k s)) = []"
    then have q: "\<forall>k<unat timeout. held (fst (delayed bd k s)) = 0" by (auto simp: ne)
    have "wait_until bd timeout 0 s = wait_until bd timeout timeout (delayed bd (unat timeout) s)"
      using wait_until_skip [OF assms, of 0 "unat timeout" timeout] q by simp
    also have "\<dots> = (timeout, delayed bd (unat timeout) s)" by (subst wait_until.simps) simp
    finally show "serial_port_receive_bytes bd True 1024 timeout s = Some ((- ETIMEDOUT, [0]), delayed bd (unat timeout) s)"
      using t delayed_quiet [OF assms _ q] by (simp add: serial_port_receive_bytes_def unat_gt_0)
  }
qed (simp_all add: serial_port_receive_bytes_def)

lemma sim_board_ok: "board_ok sim_board"
proof -
  have "mdelay sim_board n (s, w) = (port_put [] s, w)" if "port_ok s" for n s w
  proof -
    have "ring_write (unat (producer s)) [] (rx_buffer s) = rx_buffer s"
      using that by (simp add: ring_write_def port_ok_def)
    moreover have "unat (producer s) mod 1024 = unat (producer s)" using that by (simp add: port_ok_def)
    ultimately show ?thesis by (simp add: sim_board_def port_put_def)
  qed
  then have "\<exists>d w'. held s + length d \<le> 1023 \<and> mdelay sim_board n (s, w) = (port_put d s, w')" if "port_ok s" for n s w
    using that held_less [of s] by (intro exI [of _ "[]"] exI [of _ w]) auto
  then show ?thesis by (auto simp: board_ok_def)
qed

theorem receive_results_witness:
  "serial_port_receive_bytes sim_board True 1024 3 (blank_port, ()) = Some ((- ETIMEDOUT, [0]), delayed sim_board 3 (blank_port, ()))"
proof -
  have "mdelay sim_board n s = s" for n s by (simp add: sim_board_def)
  then have "unread (fst (delayed sim_board k (p, ()))) = unread p" for k p
    by (induction k arbitrary: p) simp_all
  then show ?thesis using receive_results [OF sim_board_ok, of "(blank_port, ())" 3] blank_port_ok blank_port_unread by simp
qed

end
