(* ===== verification/Mavlink_Correct.thy ===== *)
theory Mavlink_Correct
  imports Mavlink Serial_Port_Correct
begin

text \<open>
  The message layer keeps the device well typed under every call and every sequence of received bytes, its
  requests return and report success only for the matching acknowledgement, and a motor command changes
  exactly the motors it names.
\<close>

section \<open>What the code relies on\<close>

text \<open>The generated decoders fill in the message they are for, with fields of the widths of the dialect.\<close>

fun fields_ok :: "mav_msg \<Rightarrow> bool" where
  "fields_ok (Motor_control _ speed _) = (- 2147483648 \<le> speed \<and> speed \<le> 2147483647)"
| "fields_ok (Motor_status _ speed _ _) = (- 2147483648 \<le> speed \<and> speed \<le> 2147483647)"
| "fields_ok (Ring_cmd _ _ _ _ _ _ _ pl) = (length pl = MAVLINK_RING_PAYLOAD_LEN)"
| "fields_ok _ = True"

text \<open>The board, besides \<open>board_ok\<close>: the transmit operation, short delays and sleeping leave the port well formed.\<close>

definition link_ok :: "('m, 'p, 'w) link \<Rightarrow> bool" where
  "link_ok lk \<longleftrightarrow> board_ok (port_board lk) \<and>
     (\<forall>i m. msgid (decode lk i m) = i \<and> fields_ok (decode lk i m)) \<and>
     (\<forall>f d s w. ops_transmit_bytes (port_board lk) = Some f \<longrightarrow> port_ok s \<longrightarrow> port_ok (fst (snd (f d (s, w))))) \<and>
     (\<forall>n s w. port_ok s \<longrightarrow> port_ok (fst (udelay (port_board lk) n (s, w)))) \<and>
     (\<forall>n s w. port_ok s \<longrightarrow> port_ok (fst (msleep lk n (s, w))))"

lemma link_okD:
  assumes "link_ok lk"
  shows "board_ok (port_board lk)" "msgid (decode lk i m) = i" "fields_ok (decode lk i m)"
    "ops_transmit_bytes (port_board lk) = Some f \<Longrightarrow> port_ok s \<Longrightarrow> port_ok (fst (snd (f d (s, w))))"
    "port_ok s \<Longrightarrow> port_ok (fst (udelay (port_board lk) n (s, w)))"
    "port_ok s \<Longrightarrow> port_ok (fst (msleep lk n (s, w)))"
  using assms by (simp_all add: link_ok_def)

section \<open>The type of the device\<close>

definition motor_typed :: "mavlink_motor_state \<Rightarrow> bool" where
  "motor_typed m \<longleftrightarrow> - 2147483648 \<le> target_speed m \<and> target_speed m \<le> 2147483647 \<and>
     - 2147483648 \<le> current_speed m \<and> current_speed m \<le> 2147483647 \<and> - 128 \<le> mot_direction m \<and> mot_direction m \<le> 127"

definition dev_ok :: "('m, 'p) mavlink_device \<Rightarrow> bool" where
  "dev_ok dev \<longleftrightarrow> port_ok (serial dev) \<and> length (motors dev) = MAVLINK_MOTOR_COUNT \<and> list_all motor_typed (motors dev) \<and>
     unat (payload_len (ring_cmd dev)) \<le> MAVLINK_RING_PAYLOAD_LEN \<and> length (payload (ring_cmd dev)) = MAVLINK_RING_PAYLOAD_LEN \<and>
     length (ft_path (ft dev)) < 64 \<and> length (bl_filename (bl dev)) < 32"

lemma list_all_update: "list_all P xs \<Longrightarrow> P x \<Longrightarrow> list_all P (xs[i := x])"
  using set_update_subset_insert [of xs i x] by (auto simp: list_all_iff)

lemma motors_update: "dev_ok dev \<Longrightarrow> motor_typed m \<Longrightarrow> dev_ok (dev\<lparr>motors := (motors dev)[i := m]\<rparr>)"
  by (simp add: dev_ok_def list_all_update)

lemma motors_nth: "dev_ok dev \<Longrightarrow> i < 4 \<Longrightarrow> motor_typed (motors dev ! i)"
  by (simp add: dev_ok_def list_all_length)

lemma serial_update: "dev_ok dev \<Longrightarrow> port_ok p \<Longrightarrow> dev_ok (dev\<lparr>serial := p\<rparr>)"
  by (simp add: dev_ok_def)

lemma s32_bounds: "- 2147483648 \<le> s32 x" "s32 x \<le> 2147483647"
  using s32_range by auto

lemma simulate_motor_ok: "motor_typed m \<Longrightarrow> motor_typed (simulate_motor m)"
  unfolding simulate_motor_def Let_def by (simp add: motor_typed_def s32_bounds)

lemma simulate_ok: "dev_ok dev \<Longrightarrow> i < MAVLINK_MOTOR_COUNT \<Longrightarrow> dev_ok (mavlink_motor_simulate i dev)"
  by (simp add: mavlink_motor_simulate_def motors_update motors_nth simulate_motor_ok)

lemma set_targets_fold:
  "list_all motor_typed ms \<Longrightarrow> - 2147483648 \<le> v \<Longrightarrow> v \<le> 2147483647 \<Longrightarrow> \<forall>i\<in>set is. i < length ms \<Longrightarrow>
   list_all motor_typed (fold (\<lambda>i ms. ms[i := (ms ! i)\<lparr>target_speed := v, mot_direction := dir_from_wire d\<rparr>]) is ms) \<and>
   length (fold (\<lambda>i ms. ms[i := (ms ! i)\<lparr>target_speed := v, mot_direction := dir_from_wire d\<rparr>]) is ms) = length ms"
proof (induction "is" arbitrary: ms)
  case Nil
  then show ?case by simp
next
  case (Cons i "is")
  have "motor_typed (ms ! i)" using Cons.prems by (simp add: list_all_length)
  then have "motor_typed ((ms ! i)\<lparr>target_speed := v, mot_direction := dir_from_wire d\<rparr>)"
    using Cons.prems by (auto simp: motor_typed_def dir_from_wire_def)
  then have "list_all motor_typed (ms[i := (ms ! i)\<lparr>target_speed := v, mot_direction := dir_from_wire d\<rparr>])"
    using Cons.prems(1) by (simp add: list_all_update)
  with Cons show ?case by simp
qed

lemma control_range:
  assumes "motor_control_ok t d" "i \<in> set [if t = 255 then 0 else unat t..<if t = 255 then 4 else unat (t + 1)]"
  shows "i < 4"
proof (cases "t = 255")
  case True
  then show ?thesis using assms by simp
next
  case False
  then have "unat t < 4" using assms(1) by (auto simp: motor_control_ok_def)
  then have "unat (t + 1) = unat t + 1" by (subst unat_add_no_wrap) auto
  then show ?thesis using assms False \<open>unat t < 4\<close> by simp
qed

lemma set_targets_ok:
  assumes "dev_ok dev" "motor_control_ok t d" "fields_ok (Motor_control t v d)"
  shows "dev_ok (set_targets t v d dev)"
  using set_targets_fold [of "motors dev" v "[if t = 255 then 0 else unat t..<if t = 255 then 4 else unat (t + 1)]" d]
    assms control_range [OF assms(2)]
  by (auto simp: dev_ok_def set_targets_def Let_def simp del: fold_simps upt_conv_Cons)

section \<open>The port under the device\<close>

lemma wait_tx_ok:
  "wait_tx bd s = Some s' \<Longrightarrow> (\<forall>s w. port_ok s \<longrightarrow> port_ok (fst (udelay bd 1 (s, w)))) \<longrightarrow> port_ok (fst s) \<longrightarrow> port_ok (fst s')"
proof (induction rule: wait_tx.raw_induct [rotated 1, consumes 1])
  case (1 f bd s s')
  show ?case
  proof (intro impI)
    assume d: "\<forall>s w. port_ok s \<longrightarrow> port_ok (fst (udelay bd 1 (s, w)))" and ok: "port_ok (fst s)"
    show "port_ok (fst s')"
    proof (cases "transmitted_size (fst s) > 0")
      case True
      have "port_ok (fst (udelay bd 1 s))" using d ok by (metis prod.collapse)
      then show ?thesis using 1 True d by auto
    next
      case False
      then show ?thesis using 1 ok by auto
    qed
  qed
qed

lemma transmit_ok:
  assumes "link_ok lk" "serial_port_transmit_bytes (port_board lk) d (p, w) = Some (r, p', w')" "port_ok p"
  shows "port_ok p'"
proof -
  define e where "e = (if 1024 \<le> length d then take 1023 d else d)"
  have e: "length e < 1024" by (auto simp: e_def)
  obtain q v where q: "(if fake_sim (port_board lk) then wait_tx (port_board lk) (p, w) else Some (p, w)) = Some (q, v)"
    and s: "send_now (port_board lk) e (q, v) = (r, p', w')"
    using assms(2) by (auto simp: serial_port_transmit_bytes_def Let_def e_def split: if_splits)
  have "port_ok q"
    using q assms(3) wait_tx_ok [of "port_board lk" "(p, w)" "(q, v)"] link_okD(5) [OF assms(1)]
    by (cases "fake_sim (port_board lk)") simp_all
  then have "port_ok (q\<lparr>tx_buffer := e @ drop (length e) (tx_buffer q), transmitted_size := of_nat (length e)\<rparr>)"
    using e by (auto simp: port_ok_def unat_of_nat_u16)
  note ok = this
  show ?thesis
  proof (cases "ops_transmit_bytes (port_board lk)")
    case None
    then show ?thesis using s ok by (auto simp: send_now_def Let_def)
  next
    case (Some f)
    from link_okD(4) [OF assms(1) Some ok, of e v] show ?thesis
      using s Some by (simp add: send_now_def Let_def)
  qed
qed

lemma sendE:
  assumes "mavlink_send_encoded_data lk msg (dev, w) = Some (r, dev', w')"
  obtains bytes v p where "serial_port_transmit_bytes (port_board lk) bytes (serial dev, v) = Some (r, p, w')"
    "dev' = (if r \<ge> 0 then dev\<lparr>serial := p, tx_count := tx_count dev + 1\<rparr> else dev\<lparr>serial := p\<rparr>)"
proof -
  obtain bytes v where e: "encode lk (sysid dev) (compid dev) msg w = (bytes, v)" by fastforce
  obtain p where p: "serial_port_transmit_bytes (port_board lk) bytes (serial dev, v) = Some (r, p, w')"
    and d: "dev' = (if r \<ge> 0 then dev\<lparr>serial := p, tx_count := tx_count dev + 1\<rparr> else dev\<lparr>serial := p\<rparr>)"
    using assms e by (auto simp: mavlink_send_encoded_data_def Let_def bind_eq_Some_conv)
  show thesis by (rule that [OF p d])
qed

lemma send_ok:
  assumes "link_ok lk" "mavlink_send_encoded_data lk msg (dev, w) = Some (r, dev', w')" "dev_ok dev"
  shows "dev_ok dev'"
proof -
  obtain bytes v p where p: "serial_port_transmit_bytes (port_board lk) bytes (serial dev, v) = Some (r, p, w')"
    and d: "dev' = (if r \<ge> 0 then dev\<lparr>serial := p, tx_count := tx_count dev + 1\<rparr> else dev\<lparr>serial := p\<rparr>)"
    by (rule sendE [OF assms(2)])
  have "port_ok p" using transmit_ok [OF assms(1) p] assms(3) by (simp add: dev_ok_def)
  then show ?thesis using assms(3) d by (simp add: dev_ok_def)
qed

lemma take_bytes_ok: "port_ok s \<Longrightarrow> port_ok (snd (take_bytes n s))"
  by (induction n arbitrary: s) (simp_all add: split_beta take_byte_ok)

lemma finish_receive_ok:
  assumes "board_ok bd" "port_ok p"
  shows "port_ok (fst (snd (finish_receive bd (p, w))))"
proof (cases "rx_complete p")
  case True
  define y where "y = snd (take_bytes (unat (received_size p)) p)"
  have y: "port_ok y" using assms(2) by (simp add: y_def take_bytes_ok)
  obtain w' where cb: "(case ops_receive_callback bd of Some cb \<Rightarrow> cb (y, w) | None \<Rightarrow> (y, w)) = (y, w')"
    using assms(1) by (cases "ops_receive_callback bd") (auto simp: board_ok_def prod_eq_iff)
  have keep: "port_ok (y\<lparr>rx_complete := c\<rparr>) = port_ok y" "port_ok (y\<lparr>rx_complete := c, overflow := v\<rparr>) = port_ok y" for c v
    by (simp_all add: port_ok_def)
  obtain bs where tb: "take_bytes (unat (received_size p)) p = (bs, y)"
    by (metis y_def prod.collapse)
  show ?thesis using True y by (simp add: finish_receive_def tb cb Let_def keep)
next
  case False
  then show ?thesis using assms by (simp add: finish_receive_def)
qed

lemma wait_until_ok: "board_ok bd \<Longrightarrow> port_ok (fst s) \<Longrightarrow> port_ok (fst (snd (wait_until bd t e s)))"
proof (induction bd t e s rule: wait_until.induct)
  case (1 bd t e s)
  show ?case using 1 mdelay_ok [OF 1(2), of "serial_port_extract_data (fst s)"]
    by (subst wait_until.simps) (simp add: Let_def)
qed

lemma wait_forever_ok: "wait_forever bd s = Some s' \<Longrightarrow> board_ok bd \<longrightarrow> port_ok (fst s) \<longrightarrow> port_ok (fst s')"
proof (induction rule: wait_forever.raw_induct [rotated 1, consumes 1])
  case (1 f bd s s')
  show ?case
  proof (intro impI)
    assume b: "board_ok bd" and ok: "port_ok (fst s)"
    show "port_ok (fst s')"
    proof (cases "rx_complete (serial_port_extract_data (fst s))")
      case True
      then show ?thesis using 1 ok by (auto simp: Let_def)
    next
      case False
      have "port_ok (fst (mdelay bd 1 (serial_port_extract_data (fst s), snd s)))"
        using mdelay_ok [OF b, of "serial_port_extract_data (fst s)"] ok by simp
      then show ?thesis using 1 False b by (auto simp: Let_def)
    qed
  qed
qed

lemma receive_ok:
  assumes "board_ok bd" "port_ok p" "serial_port_receive_bytes bd hb n t (p, w) = Some (r, p', w')"
  shows "port_ok p'"
proof (cases "\<not> hb \<or> n < 1024")
  case True
  then show ?thesis using assms by (auto simp: serial_port_receive_bytes_def split: if_splits)
next
  case False
  show ?thesis
  proof (cases "t = 0")
    case True
    then obtain q v where q: "wait_forever bd (p, w) = Some (q, v)" "finish_receive bd (q, v) = (r, p', w')"
      using assms(3) False by (auto simp: serial_port_receive_bytes_def)
    have "port_ok q" using wait_forever_ok [OF q(1)] assms by simp
    from finish_receive_ok [OF assms(1) this, of v] q(2) show ?thesis by simp
  next
    case t: False
    obtain e q v where q: "wait_until bd t 0 (p, w) = (e, q, v)" by (cases "wait_until bd t 0 (p, w)") auto
    have "port_ok q" using wait_until_ok [OF assms(1), of "(p, w)" t 0] assms(2) q by simp
    then show ?thesis
      using assms(3) False t q finish_receive_ok [OF assms(1), of q v]
      by (auto simp: serial_port_receive_bytes_def split: if_splits)
  qed
qed

lemma receive_total: "t \<noteq> 0 \<Longrightarrow> serial_port_receive_bytes bd hb n t (p, w) \<noteq> None"
  by (simp add: serial_port_receive_bytes_def split_beta del: not_None_eq)

section \<open>Incoming messages\<close>

lemma dispatch_ok:
  assumes "link_ok lk" "fields_ok m" "dev_ok dev" "dispatch lk m (dev, w) = Some (dev', w')"
  shows "dev_ok dev'"
proof (cases m)
  case (Motor_control t v d)
  then show ?thesis using assms set_targets_ok [OF assms(3), of t d v] by (auto split: if_splits)
next
  case (Motor_status i v d st)
  have "- 128 \<le> sint d" "sint d \<le> 127" using sint_range_size [of d] by (auto simp: word_size)
  then have "motor_typed ((motors dev ! unat i)\<lparr>current_speed := v, mot_direction := sint d, mot_status := st\<rparr>)"
    if "unat i < 4" using motors_nth [OF assms(3) that] assms(2) Motor_status by (simp add: motor_typed_def)
  then show ?thesis using assms Motor_status by (auto split: if_splits intro: motors_update)
next
  case (Bootloader_update_cmd c n crc name)
  define d1 where "d1 = dev\<lparr>bl := (bl dev)\<lparr>bl_pending := 1, bl_command := c, firmware_size := n,
          firmware_crc32 := crc, bl_filename := take 31 name\<rparr>\<rparr>"
  obtain r where "mavlink_send_bootloader_ack lk c MAV_BL_ACK_ACCEPTED (d1, w) = Some (r, dev', w')"
    using assms(4) Bootloader_update_cmd by (auto simp: d1_def)
  moreover have "dev_ok d1" using assms(3) by (simp add: dev_ok_def d1_def)
  ultimately show ?thesis using send_ok [OF assms(1)] by (simp add: mavlink_send_bootloader_ack_def)
next
  case (Ring_cmd a b c d e f len pl)
  then show ?thesis using assms by (auto simp: dev_ok_def not_less split: if_splits)
qed (use assms in \<open>auto simp: dev_ok_def Let_def\<close>)

lemma process_bytes_ok:
  "link_ok lk \<Longrightarrow> dev_ok dev \<Longrightarrow> process_bytes lk bs l (dev, w) = Some (r, dev', w') \<Longrightarrow> dev_ok dev'"
proof (induction bs arbitrary: l dev w)
  case Nil
  then show ?case by simp
next
  case (Cons b bs)
  obtain fr m p where f: "frame_char lk b (rx_msg dev, rx_status dev) = (fr, m, p)"
    by (cases "frame_char lk b (rx_msg dev, rx_status dev)") auto
  have ok: "dev_ok (dev\<lparr>rx_msg := m, rx_status := p\<rparr>)"
    "dev_ok (dev\<lparr>rx_msg := m, rx_status := p, rx_count := rx_count dev + 1\<rparr>)"
    using Cons.prems(2) by (simp_all add: dev_ok_def)
  show ?case
  proof (cases fr)
    case False
    then show ?thesis using Cons.prems f Cons.IH [OF Cons.prems(1) ok(1)] by (simp add: Let_def)
  next
    case True
    then obtain d2 w2 where
      d: "dispatch lk (decode lk (raw_id lk m) m) (dev\<lparr>rx_msg := m, rx_status := p, rx_count := rx_count dev + 1\<rparr>, w) = Some (d2, w2)"
      and r: "process_bytes lk bs (raw_id lk m) (d2, w2) = Some (r, dev', w')"
      using Cons.prems(3) f by (auto simp: Let_def bind_eq_Some_conv)
    show ?thesis using Cons.IH [OF Cons.prems(1) _ r] dispatch_ok [OF Cons.prems(1) link_okD(3) [OF Cons.prems(1)] ok(2) d] by simp
  qed
qed

lemma process_ok:
  assumes "link_ok lk" "dev_ok dev" "mavlink_receive_and_process lk t (dev, w) = Some (r, dev', w')"
  shows "dev_ok dev'"
proof -
  obtain n bs p v where rb: "serial_port_receive_bytes (port_board lk) True 1024 t (serial dev, w) = Some ((n, bs), p, v)"
    and d: "(if n < 0 then Some (n, dev\<lparr>serial := p\<rparr>, v)
             else process_bytes lk (take (nat n) bs) 0 (dev\<lparr>serial := p\<rparr>, v)) = Some (r, dev', w')"
    using assms(3) by (auto simp: mavlink_receive_and_process_def bind_eq_Some_conv Let_def)
  have "dev_ok (dev\<lparr>serial := p\<rparr>)"
    using receive_ok [OF link_okD(1) [OF assms(1)] _ rb] assms(2) by (simp add: dev_ok_def)
  then show ?thesis using d process_bytes_ok [OF assms(1)] by (auto split: if_splits)
qed

lemma data_available_ok: "dev_ok dev \<Longrightarrow> dev_ok (fst (snd (data_available (dev, w))))"
  by (simp add: data_available_def serial_port_data_available_def Let_def dev_ok_def)

lemma nap_ok: "link_ok lk \<Longrightarrow> dev_ok dev \<Longrightarrow> dev_ok (fst (nap lk n (dev, w)))"
  using link_okD(6) [of lk "serial dev" n w] by (simp add: nap_def split_beta dev_ok_def)

section \<open>Requests\<close>

lemma wait_reply_ok:
  "wait_reply lk reply t e s = Some z \<Longrightarrow> link_ok lk \<longrightarrow> dev_ok (fst s) \<longrightarrow> dev_ok (fst (snd z))"
proof (induction rule: wait_reply.raw_induct [rotated 1, consumes 1])
  case (1 f lk reply t e s z)
  show ?case
  proof (intro impI)
    assume lk: "link_ok lk" and ok: "dev_ok (fst s)"
    obtain n d w where da: "data_available s = (n, d, w)" by (cases "data_available s") auto
    have d: "dev_ok d" using data_available_ok [OF ok, of "snd s"] da by simp
    note IH = 1(1) [rule_format, OF _ lk]
    show "dev_ok (fst (snd z))"
    proof (cases "e < t \<and> n > 0")
      case True
      then obtain ret d2 w2 where p: "mavlink_receive_and_process lk 100 (d, w) = Some (ret, d2, w2)"
        and rest: "(if ret < 0 then Some (Inl ret, d2, w2) else if ret = reply then Some (Inr (), d2, w2)
            else f lk reply t (e + 10) (nap lk 10 (d2, w2))) = Some z"
        using 1(2) da by (auto simp: bind_eq_Some_conv)
      have d2: "dev_ok d2" using process_ok [OF lk d p] .
      show ?thesis using rest d2 IH [of reply t "e + 10" "nap lk 10 (d2, w2)" z] nap_ok [OF lk d2, of 10 w2]
        by (auto split: if_splits)
    next
      case False
      then show ?thesis
        using 1(2) da d IH [of reply t "e + 10" "nap lk 10 (d, w)" z] nap_ok [OF lk d, of 10 w] ok
        by (auto simp: mavlink_reset_rx_parser_def dev_ok_def split: if_splits)
    qed
  qed
qed

lemma request_ok:
  assumes "link_ok lk" "dev_ok dev" "request lk msg reply v t (dev, w) = Some (r, dev', w')"
  shows "dev_ok dev'"
proof -
  obtain ret d1 w1 where s: "mavlink_send_encoded_data lk msg (dev, w) = Some (ret, d1, w1)"
    using assms(3) by (auto simp: request_def bind_eq_Some_conv)
  have d1: "dev_ok d1" using send_ok [OF assms(1) s assms(2)] .
  show ?thesis
  proof (cases "ret < 0")
    case True
    then show ?thesis using assms(3) s d1 by (simp add: request_def)
  next
    case False
    then obtain q where "wait_reply lk reply t 0 (d1, w1) = Some (q, dev', w')"
      using assms(3) s by (auto simp: request_def bind_eq_Some_conv)
    from wait_reply_ok [OF this] assms(1) d1 show ?thesis by simp
  qed
qed

lemma wait_deadline_ok:
  "wait_deadline lk c x dl s = Some z \<Longrightarrow> link_ok lk \<longrightarrow> dev_ok (fst s) \<longrightarrow> dev_ok (fst (snd z))"
proof (induction rule: wait_deadline.raw_induct [rotated 1, consumes 1])
  case (1 f lk c x dl s z)
  show ?case
  proof (intro impI)
    assume lk: "link_ok lk" and ok: "dev_ok (fst s)"
    obtain n d w where da: "data_available s = (n, d, w)" by (cases "data_available s") auto
    have d: "dev_ok d" using data_available_ok [OF ok, of "snd s"] da by simp
    note IH = 1(1) [rule_format, OF _ lk]
    define early where "early = (get_ms lk (serial (fst s), snd s) < dl)"
    show "dev_ok (fst (snd z))"
    proof (cases "early \<and> n > 0")
      case True
      then obtain ret d2 w2 where p: "mavlink_receive_and_process lk 100 (d, w) = Some (ret, d2, w2)"
        and rest: "fst (snd z) = d2 \<or> f lk c x dl (d2, w2) = Some z"
        using 1(2) da by (auto simp: bind_eq_Some_conv early_def split: if_splits)
      have d2: "dev_ok d2" using process_ok [OF lk d p] .
      show ?thesis using rest d2 IH [of c x dl "(d2, w2)" z] by auto
    next
      case False
      then show ?thesis
        using 1(2) da d IH [of c x dl "nap lk 5 (d, w)" z] nap_ok [OF lk d, of 5 w] ok
        by (auto simp: early_def split: if_splits)
    qed
  qed
qed

section \<open>Every call keeps the type\<close>

datatype mav_call =
    Simulate nat
  | Process u32
  | Motor_control_call u8 int int u32
  | Motor_status_call u16 int int u8
  | Motor_ack_call u8 u8
  | Image_ack_call u8 u8
  | Query_motor_call u8 u32
  | Ft_start_call u8 string u32 u32
  | Ft_progress_call u8 u32 u32 u8
  | Ft_cancel_call u8
  | Ft_list_call u8 u8 u32 "string option"
  | Ft_ack_call u8 u8 u32
  | Enter_passthrough
  | Exit_passthrough
  | Image_control_call u8 u16
  | Heartbeat_call u8 u32 u16
  | Bootloader_update_call u8 u32 u32 string u32
  | Bootloader_ack_call u8 u8
  | Wait_bootloader_call u8 u8 u32
  | Ring_cmd_call u16 u16 u8 u8 u8 u8 "u8 list option" u8
  | Ring_ack_call u16 u8 u8
  | Ring_error_call u16 u8 u8 u8 u16

fun mav_exec :: "('m, 'p, 'w) link \<Rightarrow> mav_call \<Rightarrow> ('m, 'p, 'w) mav_state \<Rightarrow> (int \<times> ('m, 'p, 'w) mav_state) option" where
  "mav_exec lk (Simulate i) (dev, w) = Some (0, mavlink_motor_simulate i dev, w)"
| "mav_exec lk (Process t) s = mavlink_receive_and_process lk t s"
| "mav_exec lk (Motor_control_call i v d t) s = mavlink_send_motor_control lk i v d t s"
| "mav_exec lk (Motor_status_call i v d st) s = mavlink_send_motor_status lk i v d st s"
| "mav_exec lk (Motor_ack_call i r) s = mavlink_send_motor_ack lk i r s"
| "mav_exec lk (Image_ack_call a r) s = mavlink_send_image_ack lk a r s"
| "mav_exec lk (Query_motor_call i t) s = mavlink_query_motor_status lk i t s"
| "mav_exec lk (Ft_start_call d p n t) s = mavlink_send_ft_start lk d p n t s"
| "mav_exec lk (Ft_progress_call st x n e) s = mavlink_send_ft_progress lk st x n e s"
| "mav_exec lk (Ft_cancel_call d) s = mavlink_send_ft_cancel lk d s"
| "mav_exec lk (Ft_list_call c i n f) s = mavlink_send_ft_list lk c i n f s"
| "mav_exec lk (Ft_ack_call d r n) s = mavlink_send_ft_ack lk d r n s"
| "mav_exec lk Enter_passthrough (dev, w) = (case mavlink_ft_enter_passthrough dev of (r, dev) \<Rightarrow> Some (r, dev, w))"
| "mav_exec lk Exit_passthrough (dev, w) = Some (0, mavlink_ft_exit_passthrough dev, w)"
| "mav_exec lk (Image_control_call a i) s = mavlink_send_image_control lk a i s"
| "mav_exec lk (Heartbeat_call st u e) s = mavlink_send_heartbeat lk st u e s"
| "mav_exec lk (Bootloader_update_call c n crc f t) s = mavlink_send_bootloader_update lk c n crc f t s"
| "mav_exec lk (Bootloader_ack_call c r) s = mavlink_send_bootloader_ack lk c r s"
| "mav_exec lk (Wait_bootloader_call c x t) s = mavlink_wait_bootloader_ack lk True c x t s"
| "mav_exec lk (Ring_cmd_call q c a b e d p n) s = mavlink_send_ring_cmd lk q c a b e d p n s"
| "mav_exec lk (Ring_ack_call q n r) s = mavlink_send_ring_ack lk q n r s"
| "mav_exec lk (Ring_error_call q n a b c) s = mavlink_send_ring_error lk q n a b c s"

fun mav_calls :: "('m, 'p, 'w) link \<Rightarrow> mav_call list \<Rightarrow> ('m, 'p, 'w) mav_state \<Rightarrow> ('m, 'p, 'w) mav_state option" where
  "mav_calls lk [] s = Some s"
| "mav_calls lk (c # cs) s = Option.bind (mav_exec lk c s) (\<lambda>r. mav_calls lk cs (snd r))"

lemmas send_defs = mavlink_send_motor_status_def mavlink_send_motor_ack_def mavlink_send_image_ack_def
  mavlink_send_ft_progress_def mavlink_send_ft_cancel_def mavlink_send_ft_list_def mavlink_send_ft_ack_def
  mavlink_send_image_control_def mavlink_send_heartbeat_def mavlink_send_bootloader_ack_def
  mavlink_send_ring_cmd_def mavlink_send_ring_ack_def mavlink_send_ring_error_def

lemmas request_defs = mavlink_send_motor_control_def mavlink_query_motor_status_def mavlink_send_ft_start_def
  mavlink_send_bootloader_update_def

lemma exec_ok:
  assumes "link_ok lk" "dev_ok dev" "mav_exec lk c (dev, w) = Some (r, dev', w')" "\<forall>i. c = Simulate i \<longrightarrow> i < MAVLINK_MOTOR_COUNT"
  shows "dev_ok dev'"
proof (cases c)
  case (Simulate i)
  then show ?thesis using assms simulate_ok [OF assms(2)] by auto
next
  case (Process t)
  then show ?thesis using assms process_ok by auto
next
  case (Wait_bootloader_call cm x t)
  then have "wait_deadline lk cm x (get_ms lk (serial dev, w) + ucast t) (dev, w) = Some (r, dev', w')"
    using assms(3) by (simp add: mavlink_wait_bootloader_ack_def)
  from wait_deadline_ok [OF this] assms(1,2) show ?thesis by simp
next
  case Enter_passthrough
  then show ?thesis using assms by (auto simp: mavlink_ft_enter_passthrough_def dev_ok_def split: if_splits)
next
  case Exit_passthrough
  then show ?thesis using assms by (auto simp: mavlink_ft_exit_passthrough_def dev_ok_def)
qed (use assms request_ok [OF assms(1,2)] send_ok [OF assms(1) _ assms(2)] in \<open>auto simp: send_defs request_defs Let_def\<close>)

lemma calls_ok:
  "link_ok lk \<Longrightarrow> dev_ok (fst s) \<Longrightarrow> mav_calls lk cs s = Some s' \<Longrightarrow> \<forall>i. Simulate i \<in> set cs \<longrightarrow> i < MAVLINK_MOTOR_COUNT \<Longrightarrow>
   dev_ok (fst s')"
proof (induction cs arbitrary: s)
  case Nil
  then show ?case by simp
next
  case (Cons c cs)
  then obtain r d w where e: "mav_exec lk c (fst s, snd s) = Some (r, d, w)" and m: "mav_calls lk cs (d, w) = Some s'"
    by (auto simp: bind_eq_Some_conv)
  have "dev_ok d" using exec_ok [OF Cons.prems(1,2) e] Cons.prems(4) by auto
  then show ?case using Cons.IH [OF Cons.prems(1) _ m] Cons.prems(4) by simp
qed

lemma init_ok: "mavlink_init lk a sp sid cid = Some dev \<Longrightarrow> port_ok sp \<Longrightarrow> dev_ok dev"
  by (auto simp: mavlink_init_def dev_ok_def zero_motor_def motor_typed_def list_all_iff split: if_splits)


text \<open>A link with one-byte messages: every byte is a positive acknowledgement of the motor it names.\<close>

definition ack_link :: "(mav_msg, unit, unit) link" where
  "ack_link = \<lparr>port_board = sim_board\<lparr>fake_sim := False\<rparr>, encode = (\<lambda>_ _ _ w. ([1], w)),
     frame_char = (\<lambda>b (m, p). (True, Motor_ack b 0, p)), raw_id = msgid,
     decode = (\<lambda>i m. if msgid m = i \<and> fields_ok m then m else Unknown_msg i), zero_msg = Unknown_msg 0,
     idle_status = (), msleep = (\<lambda>_ s. s), get_ms = (\<lambda>_. 0)\<rparr>"

lemma ack_link_ok: "link_ok ack_link"
proof -
  have "board_ok (sim_board\<lparr>fake_sim := False\<rparr>)"
    using sim_board_ok by (simp add: board_ok_def)
  then show ?thesis by (simp add: link_ok_def ack_link_def) (simp add: sim_board_def)
qed


section \<open>Requests return\<close>

lemma send_total: "\<not> fake_sim (port_board lk) \<Longrightarrow> mavlink_send_encoded_data lk msg s \<noteq> None"
  by (simp add: mavlink_send_encoded_data_def serial_port_transmit_bytes_def split_beta Let_def del: not_None_eq)

lemma dispatch_total: "\<not> fake_sim (port_board lk) \<Longrightarrow> dispatch lk m s \<noteq> None"
  by (cases s; cases m)
     (use send_total [of lk] in \<open>simp_all add: mavlink_send_bootloader_ack_def del: not_None_eq\<close>)

lemma process_bytes_total: "\<not> fake_sim (port_board lk) \<Longrightarrow> process_bytes lk bs l s \<noteq> None"
proof (induction bs arbitrary: l s)
  case Nil
  then show ?case by simp
next
  case (Cons b bs)
  obtain dev w where s: "s = (dev, w)" by (cases s)
  obtain fr m p where f: "frame_char lk b (rx_msg dev, rx_status dev) = (fr, m, p)"
    by (cases "frame_char lk b (rx_msg dev, rx_status dev)") auto
  obtain s2 where "dispatch lk (decode lk (raw_id lk m) m) (dev\<lparr>rx_msg := m, rx_status := p, rx_count := rx_count dev + 1\<rparr>, w) = Some s2"
    using dispatch_total [OF Cons.prems] by blast
  then show ?case using Cons f s by (simp add: Let_def del: not_None_eq)
qed

lemma process_total:
  assumes "\<not> fake_sim (port_board lk)" "t \<noteq> 0"
  shows "\<exists>r d w. mavlink_receive_and_process lk t s = Some (r, d, w)"
proof -
  obtain n bs p v where "serial_port_receive_bytes (port_board lk) True 1024 t (serial (fst s), snd s) = Some ((n, bs), p, v)"
    using receive_total [OF assms(2)] by fastforce
  then have "mavlink_receive_and_process lk t s \<noteq> None"
    using process_bytes_total [OF assms(1)] by (cases s) (simp add: mavlink_receive_and_process_def Let_def del: not_None_eq)
  then show ?thesis by auto
qed

lemma wait_reply_total:
  assumes "\<not> fake_sim (port_board lk)" "unat t \<le> 4294967290"
  shows "10 dvd unat e \<Longrightarrow> unat e \<le> 4294967290 \<Longrightarrow>
    \<exists>r d w. wait_reply lk reply t e s = Some (r, d, w) \<and> (\<forall>x. r = Inl x \<longrightarrow> x < 0)"
proof (induction "unat t - unat e" arbitrary: e s rule: less_induct)
  case less
  show ?case
  proof (cases "e < t")
    case False
    then show ?thesis by (subst wait_reply.simps) simp
  next
    case True
    then have et: "unat e < unat t" by (simp add: word_less_nat_alt)
    then have "unat e + 10 \<le> 4294967290" using assms(2) less.prems(1) by presburger
    then have e: "unat (e + 10) = unat e + 10" by (subst unat_add_no_wrap) auto
    have IH: "\<exists>r d w. wait_reply lk reply t (e + 10) s' = Some (r, d, w) \<and> (\<forall>x. r = Inl x \<longrightarrow> x < 0)" for s'
      using less.hyps [of "e + 10" s'] less.prems e et \<open>unat e + 10 \<le> 4294967290\<close> by simp
    obtain n d w where da: "data_available s = (n, d, w)" by (cases "data_available s") auto
    obtain ret d2 w2 where p: "mavlink_receive_and_process lk 100 (d, w) = Some (ret, d2, w2)"
      using process_total [OF assms(1), of 100 "(d, w)"] by auto
    show ?thesis using True da p IH [of "nap lk 10 (d2, w2)"] IH [of "nap lk 10 (d, w)"]
      by (subst wait_reply.simps) simp
  qed
qed

lemma request_returns:
  assumes "\<not> fake_sim (port_board lk)" "unat t \<le> 4294967290" "\<And>m. v m \<le> 0"
  shows "\<exists>r d w. request lk msg reply v t s = Some (r, d, w) \<and> r \<le> 0 \<and> (r = 0 \<longrightarrow> v (decode lk reply (rx_msg d)) = 0)"
proof -
  obtain ret d1 w1 where s: "mavlink_send_encoded_data lk msg s = Some (ret, d1, w1)"
    using send_total [OF assms(1), of msg s] by auto
  obtain q d2 w2 where q: "wait_reply lk reply t 0 (d1, w1) = Some (q, d2, w2)" "\<forall>x. q = Inl x \<longrightarrow> x < 0"
    using wait_reply_total [OF assms(1,2), of 0 reply "(d1, w1)"] by auto
  show ?thesis using s q assms(3) by (cases q) (auto simp: request_def)
qed

lemma verdicts:
  "motor_ack_verdict i m \<le> 0" "motor_status_verdict i m \<le> 0" "ft_ack_verdict d m \<le> 0" "bl_ack_verdict c m \<le> 0"
  by (simp_all add: motor_ack_verdict_def motor_status_verdict_def ft_ack_verdict_def bl_ack_verdict_def split: mav_msg.splits)

lemma verdicts_ok:
  "motor_ack_verdict i m = 0 \<Longrightarrow> \<exists>j. m = Motor_ack j MAV_ACK_RESULT_OK \<and> (i = 255 \<or> j = i)"
  "motor_status_verdict i m = 0 \<Longrightarrow> \<exists>j v d st. m = Motor_status j v d st \<and> (i = 255 \<or> j = i)"
  "ft_ack_verdict d m = 0 \<Longrightarrow> \<exists>n. m = File_transfer_ack d MAV_FT_RESULT_READY n"
  "bl_ack_verdict c m = 0 \<Longrightarrow> m = Bootloader_ack c MAV_BL_ACK_ACCEPTED"
  by (auto simp: motor_ack_verdict_def motor_status_verdict_def ft_ack_verdict_def bl_ack_verdict_def
      split: mav_msg.splits if_splits)



section \<open>Motor commands\<close>

lemma fold_set_nth:
  "i < length ms \<Longrightarrow> distinct is \<Longrightarrow>
   fold (\<lambda>i ms. ms[i := f (ms ! i)]) is ms ! i = (if i \<in> set is then f (ms ! i) else ms ! i)"
proof (induction "is" arbitrary: ms)
  case Nil
  then show ?case by simp
next
  case (Cons j "is")
  then show ?case by (cases "i = j") auto
qed

lemma control_start: "motor_control_ok t d \<Longrightarrow> t \<noteq> 255 \<Longrightarrow> unat (t + 1) = unat t + 1"
  by (subst unat_add_no_wrap) (auto simp: motor_control_ok_def)

text \<open>C32: what a motor command does at the receiver.  The command the sender builds for a target and a signed
direction is accepted exactly when the target is 0 to 3 or 255; it sets the target speed and the sign of the
direction of that motor, or of all four for 255, and changes nothing else; otherwise it changes nothing.  A command
with a wire direction above 2 is refused.\<close>

theorem motor_command_effect:
  assumes "length (motors dev) = MAVLINK_MOTOR_COUNT"
    and "dispatch lk (Motor_control target speed (dir_to_wire direction)) (dev, w) = Some (dev', w')"
  shows "w' = w \<and> dev' = dev\<lparr>motors := motors dev'\<rparr> \<and>
    (target = 255 \<or> unat target < 4 \<longrightarrow> length (motors dev') = 4 \<and>
       (\<forall>i<4. motors dev' ! i = (if target = 255 \<or> unat target = i
          then (motors dev ! i)\<lparr>target_speed := speed, mot_direction := sgn direction\<rparr> else motors dev ! i))) \<and>
    (target \<noteq> 255 \<and> \<not> unat target < 4 \<longrightarrow> dev' = dev) \<and>
    (wire > 2 \<longrightarrow> dispatch lk (Motor_control target speed wire) (dev, w) = Some (dev, w))"
proof -
  have dw: "dir_from_wire (dir_to_wire direction) = sgn direction" "\<not> 2 < dir_to_wire direction"
    by (simp_all add: dir_to_wire_def dir_from_wire_def)
  have mc: "motor_control_ok target (dir_to_wire direction) \<longleftrightarrow> target = 255 \<or> unat target < 4"
    using dw(2) by (auto simp: motor_control_ok_def)
  define rng where "rng = [if target = 255 then 0 else unat target..<if target = 255 then 4 else unat (target + 1)]"
  have st: "set_targets target speed (dir_to_wire direction) dev = dev\<lparr>motors :=
      fold (\<lambda>i ms. ms[i := (ms ! i)\<lparr>target_speed := speed, mot_direction := sgn direction\<rparr>]) rng (motors dev)\<rparr>"
    by (simp add: set_targets_def rng_def dw)
  have len: "length (fold (\<lambda>i ms. ms[i := f (ms ! i)]) js ms) = length ms" for f :: "mavlink_motor_state \<Rightarrow> _" and js ms
    by (induction js arbitrary: ms) simp_all
  have mem: "i \<in> set rng \<longleftrightarrow> target = 255 \<or> unat target = i" if "i < 4" "motor_control_ok target (dir_to_wire direction)" for i
    using that control_start [OF that(2)] by (auto simp: rng_def)
  have dist: "distinct rng" by (simp add: rng_def)
  have ref: "dispatch lk (Motor_control target speed wire) (dev, w) = Some (dev, w)" if "wire > 2"
    using that by (simp add: motor_control_ok_def)
  show ?thesis
  proof (cases "motor_control_ok target (dir_to_wire direction)")
    case True
    then have d': "w' = w" "dev' = set_targets target speed (dir_to_wire direction) dev"
      using assms(2) by simp_all
    have "\<forall>i<4. motors dev' ! i = (if target = 255 \<or> unat target = i
        then (motors dev ! i)\<lparr>target_speed := speed, mot_direction := sgn direction\<rparr> else motors dev ! i)"
      using assms(1) dist mem [OF _ True]
      by (simp add: d' st fold_set_nth [where f = "\<lambda>m. m\<lparr>target_speed := speed, mot_direction := sgn direction\<rparr>"])
    moreover have "length (motors dev') = 4"
      using assms(1) len [of "\<lambda>m. m\<lparr>target_speed := speed, mot_direction := sgn direction\<rparr>" rng "motors dev"] by (simp add: d' st)
    moreover have "dev' = dev\<lparr>motors := motors dev'\<rparr>" by (simp add: d' st)
    ultimately show ?thesis using d'(1) True mc ref by blast
  next
    case False
    then show ?thesis using assms(2) mc ref by auto
  qed
qed

theorem motor_command_effect_witness:
  "\<exists>dev dev'. mavlink_init ack_link True blank_port 1 2 = Some dev \<and>
     dispatch ack_link (Motor_control 2 300 (dir_to_wire (- 5))) (dev, ()) = Some (dev', ()) \<and>
     target_speed (motors dev' ! 2) = 300 \<and> mot_direction (motors dev' ! 2) = - 1 \<and> motors dev' ! 1 = motors dev ! 1"
proof -
  obtain dev where d: "mavlink_init ack_link True blank_port 1 2 = Some dev" by (simp add: mavlink_init_def)
  then have l: "length (motors dev) = 4" by (auto simp: mavlink_init_def)
  obtain dev' w' where r: "dispatch ack_link (Motor_control 2 300 (dir_to_wire (- 5))) (dev, ()) = Some (dev', w')"
    by (cases "motor_control_ok 2 (dir_to_wire (- 5))") auto
  from motor_command_effect [OF l r] have "\<forall>i<4. motors dev' ! i = (if unat (2 :: u8) = i
      then (motors dev ! i)\<lparr>target_speed := 300, mot_direction := sgn (- 5)\<rparr> else motors dev ! i)" by simp
  then have "motors dev' ! 2 = (motors dev ! 2)\<lparr>target_speed := 300, mot_direction := - 1\<rparr>" "motors dev' ! 1 = motors dev ! 1"
    by auto
  with d r show ?thesis by auto
qed

text \<open>A motor that must change direction at a speed between 20 and 180 swings between two speeds and never turns.\<close>

lemma reverse_never_completes:
  assumes "target_speed m < 0" "mot_direction m = 1" "20 \<le> current_speed m" "current_speed m \<le> 180"
  shows "(simulate_motor ^^ (2 * n)) m = m"
proof -
  have "simulate_motor m = m\<lparr>current_speed := current_speed m - 200\<rparr>"
    using assms by (simp add: simulate_motor_def Let_def s32_id)
  then have "simulate_motor (simulate_motor m) = m"
    using assms by (simp add: simulate_motor_def Let_def s32_id)
  then have two: "(simulate_motor ^^ 2) m = m" by (simp add: numeral_2_eq_2)
  show ?thesis
  proof (induction n)
    case (Suc n)
    have "(simulate_motor ^^ (2 * Suc n)) m = (simulate_motor ^^ 2) ((simulate_motor ^^ (2 * n)) m)"
      by (metis funpow_add comp_apply mult_Suc_right)
    then show ?case using Suc two by simp
  qed simp
qed

end
