(* ===== verification/Motor.thy ===== *)
theory Motor
  imports Kinetis_Prelude
begin

text \<open>
  The motor of \<^verbatim>\<open>projects/persistence-of-vision/motor.c\<close>, a simulated one that follows the duty cycle
  through a low-pass filter in Q8.8, and the hall sensor of \<^verbatim>\<open>hall.c\<close> that turns the time since the
  last pulse into a column of the picture.  The Kalman filter behind the sensor is a library that
  computes in floating point: the functions of \<open>kalman\<close> over a state \<open>'k\<close>.
\<close>

section \<open>The motor\<close>

record motor_controller =
  max_rpm :: int
  measured_rpm :: int
  period_us :: u32
  motor_direction :: u8
  pwm_duty :: u16
  motor_status :: u8
  sim_rpm_fixed :: int

abbreviation MOTOR_SIM_ALPHA_FIXED :: int where "MOTOR_SIM_ALPHA_FIXED \<equiv> 5"
abbreviation MOTOR_SIM_SCALE_BITS :: nat where "MOTOR_SIM_SCALE_BITS \<equiv> 8"
abbreviation SLAVE_MOTOR_DIR_FORWARD :: u8 where "SLAVE_MOTOR_DIR_FORWARD \<equiv> 1"
abbreviation SLAVE_MOTOR_DIR_REVERSE :: u8 where "SLAVE_MOTOR_DIR_REVERSE \<equiv> 0"
abbreviation POV_STATUS_STOPPED :: u8 where "POV_STATUS_STOPPED \<equiv> 0"
abbreviation POV_STATUS_RUNNING :: u8 where "POV_STATUS_RUNNING \<equiv> 1"

definition motor_set_pwm :: "u16 \<Rightarrow> motor_controller \<Rightarrow> motor_controller" where
  "motor_set_pwm duty motor = motor\<lparr>pwm_duty := (if duty > 10000 then 10000 else duty)\<rparr>"

definition motor_set_direction :: "u8 \<Rightarrow> motor_controller \<Rightarrow> motor_controller" where
  "motor_set_direction forward motor = motor\<lparr>motor_direction := (if forward \<noteq> 0 then 1 else 0)\<rparr>"

definition motor_stop :: "motor_controller \<Rightarrow> motor_controller" where
  "motor_stop motor =
     (motor_set_direction 0 (motor_set_pwm 0 motor))\<lparr>sim_rpm_fixed := 0, measured_rpm := 0, period_us := 0\<rparr>"

definition motor_target :: "motor_controller \<Rightarrow> int" where
  "motor_target motor =
     (let target_rpm = cdiv (s32 (uint (pwm_duty motor) * max_rpm motor)) 10000
      in if motor_direction motor = SLAVE_MOTOR_DIR_REVERSE then s32 (- target_rpm) else target_rpm)"

definition motor_filter :: "int \<Rightarrow> int \<Rightarrow> int" where
  "motor_filter target_rpm v =
     (let v = s32 (v + asr (s32 (s32 (s32 (target_rpm * 2 ^ MOTOR_SIM_SCALE_BITS) - v) * MOTOR_SIM_ALPHA_FIXED))
                       MOTOR_SIM_SCALE_BITS)
      in if v > - (2 ^ (MOTOR_SIM_SCALE_BITS - 1)) \<and> v < 2 ^ (MOTOR_SIM_SCALE_BITS - 1) then 0 else v)"

definition motor_simulation_step :: "motor_controller \<Rightarrow> motor_controller" where
  "motor_simulation_step motor =
     (let v = motor_filter (motor_target motor) (sim_rpm_fixed motor);
          rpm = asr v MOTOR_SIM_SCALE_BITS
      in motor\<lparr>sim_rpm_fixed := v, measured_rpm := rpm,
           period_us := (if rpm \<noteq> 0 then 60000000 div of_int (if rpm > 0 then rpm else s32 (- rpm)) else 0),
           motor_status := (if rpm \<noteq> 0 then POV_STATUS_RUNNING else POV_STATUS_STOPPED)\<rparr>)"

section \<open>The hall sensor\<close>

record 'k kalman =
  kf_init :: 'k
  kf_estimate :: "'k \<Rightarrow> int"
  kf_step :: "bool \<Rightarrow> u32 \<Rightarrow> 'k \<Rightarrow> 'k"
  kf_rounded :: "'k \<Rightarrow> u32"

record 'k hall_device =
  angular_resolution :: u32
  period_ticks :: u32
  kf :: 'k

abbreviation HALL_DELTA_THRESHOLD :: int where "HALL_DELTA_THRESHOLD \<equiv> 2000"

definition hall_get_angle :: "u32 \<Rightarrow> 'k hall_device \<Rightarrow> u32" where
  "hall_get_angle rotated_time dev =
     (if period_ticks dev = 0 then 0
      else
        let column = (rotated_time * angular_resolution dev) div period_ticks dev
        in if column \<ge> angular_resolution dev then angular_resolution dev - 1 else column)"

definition hall_get_rpm :: "'k hall_device \<Rightarrow> int" where
  "hall_get_rpm dev = (if period_ticks dev = 0 then 0 else sint (60000000 div period_ticks dev))"

text \<open>The noise of the filter is raised when the pulse is far from the estimate.\<close>

definition hall_hall_isr :: "'k kalman \<Rightarrow> u32 \<Rightarrow> 'k hall_device \<Rightarrow> 'k hall_device" where
  "hall_hall_isr kal capture_value dev =
     (let delta = s32 (sint capture_value - kf_estimate kal (kf dev));
          x = kf_step kal (s32 \<bar>delta\<bar> > HALL_DELTA_THRESHOLD) capture_value (kf dev)
      in dev\<lparr>kf := x, period_ticks := kf_rounded kal x\<rparr>)"

definition hall_alloc_dev :: "'k kalman \<Rightarrow> bool \<Rightarrow> u32 \<Rightarrow> 'k hall_device option" where
  "hall_alloc_dev kal alloc_ok resolution =
     (if \<not> alloc_ok then None
      else Some \<lparr>angular_resolution = resolution, period_ticks = 0, kf = kf_init kal\<rparr>)"

definition hall_read_rotated_time :: "u64 \<Rightarrow> 'k hall_device \<Rightarrow> u32" where
  "hall_read_rotated_time now_us dev =
     (if period_ticks dev = 0 then 0 else ucast (now_us mod ucast (period_ticks dev)))"

end
