(* ===== verification/Motor_Correct.thy ===== *)
theory Motor_Correct
  imports Motor
begin

text \<open>
  The simulated motor stays within its speed range without overflow and settles at the speed of its duty
  cycle; the hall sensor always gives a column of the picture, the right one while the product fits.
\<close>

section \<open>The motor\<close>

definition sim_ok :: "int \<Rightarrow> bool" where
  "sim_ok v \<longleftrightarrow> \<bar>v\<bar> \<le> 768000 \<and> (v = 0 \<or> 128 \<le> \<bar>v\<bar>)"

definition motor_ok :: "motor_controller \<Rightarrow> bool" where
  "motor_ok m \<longleftrightarrow> max_rpm m = 3000 \<and> pwm_duty m \<le> 10000 \<and> sim_ok (sim_rpm_fixed m) \<and>
     measured_rpm m = asr (sim_rpm_fixed m) 8"

text \<open>The filter on unbounded integers.\<close>

definition ideal_filter :: "int \<Rightarrow> int \<Rightarrow> int" where
  "ideal_filter t v = (let v = v + (5 * (256 * t - v)) div 256 in if \<bar>v\<bar> < 128 then 0 else v)"

lemma filter_exact:
  assumes "\<bar>t\<bar> \<le> 3000" "\<bar>v\<bar> \<le> 768000"
  shows "motor_filter t v = ideal_filter t v"
proof -
  define d where "d = 256 * t - v"
  define q where "q = (5 * d) div 256"
  have d: "\<bar>d\<bar> \<le> 1536000" using assms by (simp add: d_def)
  have q: "- 30000 \<le> q" "q \<le> 30000" using d by (simp_all add: q_def)
  have a: "s32 (t * 2 ^ 8) = 256 * t" using assms by (subst s32_id) auto
  have b: "s32 (256 * t - v) = d" unfolding d_def [symmetric] using d by (intro s32_id) auto
  have c: "s32 (d * 5) = 5 * d" using d by (subst s32_id) auto
  have e: "asr (5 * d) 8 = q" by (simp add: asr_def q_def)
  have f: "s32 (v + q) = v + q" using q assms by (intro s32_id) auto
  have "motor_filter t v = (if v + q > - 128 \<and> v + q < 128 then 0 else v + q)"
    by (simp only: motor_filter_def Let_def a b c e f) simp
  then show ?thesis by (auto simp: ideal_filter_def Let_def simp flip: d_def q_def)
qed

lemma filter_move:
  assumes "52 \<le> d"
  shows "1 \<le> (5 * d) div (256 :: int)" "(5 * d) div 256 \<le> d"
  using assms by linarith+

lemma filter_move_neg:
  assumes "d < (0 :: int)"
  shows "(5 * d) div 256 \<le> - 1" "d \<le> (5 * d) div 256"
  using assms by linarith+

lemma ideal_filter_ok:
  assumes "\<bar>t\<bar> \<le> 3000" "\<bar>v\<bar> \<le> 768000"
  shows "sim_ok (ideal_filter t v)"
proof -
  define d where "d = 256 * t - v"
  have "\<bar>v + (5 * d) div 256\<bar> \<le> 768000"
  proof (cases "d < 0")
    case True
    then show ?thesis using filter_move_neg [OF True] assms by (simp add: d_def)
  next
    case False
    then have "0 \<le> (5 * d) div 256" "(5 * d) div 256 \<le> d" by linarith+
    then show ?thesis using False assms by (simp add: d_def)
  qed
  then show ?thesis by (auto simp: sim_ok_def ideal_filter_def Let_def d_def)
qed

lemma motor_target_exact:
  assumes "max_rpm m = 3000" "pwm_duty m \<le> 10000"
  shows "motor_target m = (if motor_direction m = 0 then - 1 else 1) * ((3 * uint (pwm_duty m)) div 10)"
    and "\<bar>motor_target m\<bar> \<le> 3000"
proof -
  have p: "0 \<le> uint (pwm_duty m)" "uint (pwm_duty m) \<le> 10000"
    using assms(2) by (simp_all add: word_le_def)
  then have "s32 (uint (pwm_duty m) * 3000) = uint (pwm_duty m) * 3000" by (intro s32_id) linarith+
  moreover have "cdiv (uint (pwm_duty m) * 3000) 10000 = (3 * uint (pwm_duty m)) div 10"
    using p by (subst cdiv_nonneg) auto
  moreover have r: "0 \<le> (3 * uint (pwm_duty m)) div 10" "(3 * uint (pwm_duty m)) div 10 \<le> 3000" using p by linarith+
  moreover from r have "s32 (- ((3 * uint (pwm_duty m)) div 10)) = - ((3 * uint (pwm_duty m)) div 10)" by (intro s32_id) auto
  ultimately show "motor_target m = (if motor_direction m = 0 then - 1 else 1) * ((3 * uint (pwm_duty m)) div 10)"
    "\<bar>motor_target m\<bar> \<le> 3000"
    by (simp_all add: motor_target_def assms(1) Let_def)
qed

lemma step_exact:
  assumes "motor_ok m"
  shows "sim_rpm_fixed (motor_simulation_step m) = ideal_filter (motor_target m) (sim_rpm_fixed m)"
  using assms filter_exact motor_target_exact(2) by (simp add: motor_ok_def sim_ok_def motor_simulation_step_def Let_def)

lemma step_fields [simp]:
  "max_rpm (motor_simulation_step m) = max_rpm m" "pwm_duty (motor_simulation_step m) = pwm_duty m"
  "motor_direction (motor_simulation_step m) = motor_direction m"
  "motor_target (motor_simulation_step m) = motor_target m"
  by (simp_all add: motor_simulation_step_def Let_def motor_target_def)

lemma step_ok: "motor_ok m \<Longrightarrow> motor_ok (motor_simulation_step m)"
  using step_exact [of m] ideal_filter_ok motor_target_exact(2) [of m]
  by (simp add: motor_ok_def sim_ok_def) (simp add: motor_simulation_step_def Let_def)

lemma measured_range: "motor_ok m \<Longrightarrow> \<bar>measured_rpm m\<bar> \<le> 3000"
  by (simp add: motor_ok_def sim_ok_def asr_def) linarith

text \<open>How far the filter is from rest: it rests when it is at most 51 below the target.\<close>

lemma filter_settled:
  assumes "26 \<le> \<bar>t\<bar>" "0 \<le> 256 * t - v" "256 * t - v \<le> 51"
  shows "ideal_filter t v = v" "v div 256 \<in> {t - 1, t}"
proof -
  have "(5 * (256 * t - v)) div 256 = 0" using assms by (intro div_pos_pos_trivial) auto
  then show "ideal_filter t v = v" using assms by (auto simp: ideal_filter_def)
  show "v div 256 \<in> {t - 1, t}" using assms by (cases "v = 256 * t") auto
qed

lemma filter_approaches:
  assumes "26 \<le> \<bar>t\<bar>" "sim_ok v" "\<not> (0 \<le> 256 * t - v \<and> 256 * t - v \<le> 51)"
  shows "\<bar>256 * t - ideal_filter t v\<bar> < \<bar>256 * t - v\<bar>"
proof -
  define d where "d = 256 * t - v"
  define q where "q = (5 * d) div 256"
  have f: "ideal_filter t v = (if \<bar>v + q\<bar> < 128 then 0 else v + q)" by (simp add: ideal_filter_def d_def q_def Let_def)
  have v: "v = 256 * t - d" by (simp add: d_def)
  consider "52 \<le> d" | "d < 0" using assms(3) by (auto simp: d_def)
  then show ?thesis
  proof cases
    case 1
    have q: "1 \<le> q" "q \<le> d" using filter_move [OF 1] by (simp_all add: q_def)
    have "q = 5 * t" if "v = 0" using that by (simp add: q_def d_def)
    then show ?thesis using f q 1 assms(1,2) v by (auto simp: sim_ok_def split: if_splits)
  next
    case 2
    have q: "q \<le> - 1" "d \<le> q" using filter_move_neg [OF 2] by (simp_all add: q_def)
    have "q = 5 * t" if "v = 0" using that by (simp add: q_def d_def)
    then show ?thesis using f q 2 assms(1,2) v by (auto simp: sim_ok_def split: if_splits)
  qed
qed

text \<open>The filter with its target as the state: it settles, after at most 1536000 ticks.\<close>

definition track :: "int \<times> int \<Rightarrow> int \<times> int" where
  "track s = (fst s, ideal_filter (fst s) (snd s))"

definition track_ok :: "int \<times> int \<Rightarrow> bool" where
  "track_ok s \<longleftrightarrow> 26 \<le> \<bar>fst s\<bar> \<and> \<bar>fst s\<bar> \<le> 3000 \<and> sim_ok (snd s)"

definition track_rest :: "int \<times> int \<Rightarrow> bool" where
  "track_rest s \<longleftrightarrow> 0 \<le> 256 * fst s - snd s \<and> 256 * fst s - snd s \<le> 51"

definition track_distance :: "int \<times> int \<Rightarrow> nat" where
  "track_distance s = nat \<bar>256 * fst s - snd s\<bar>"

interpretation filter: settling track track_ok track_rest track_distance
proof
  fix s assume ok: "track_ok s"
  show "track_ok (track s)"
    using ok ideal_filter_ok [of "fst s" "snd s"] by (simp add: track_ok_def track_def sim_ok_def)
  show "track s = s" if "track_rest s"
    using ok that filter_settled(1) [of "fst s" "snd s"] by (simp add: track_ok_def track_def track_rest_def)
  show "track_distance (track s) < track_distance s" if "\<not> track_rest s"
    using ok that filter_approaches [of "fst s" "snd s"]
    by (simp add: track_ok_def track_def track_rest_def track_distance_def)
qed

lemma track_run: "(track ^^ n) (t, v) = (t, (ideal_filter t ^^ n) v)"
  by (induction n) (simp_all add: track_def)

lemma filter_converges:
  assumes "26 \<le> \<bar>t\<bar>" "\<bar>t\<bar> \<le> 3000" "sim_ok v" "1536000 \<le> n"
  shows "((ideal_filter t ^^ n) v) div 256 \<in> {t - 1, t}"
proof -
  have ok: "track_ok (t, v)" using assms by (simp add: track_ok_def)
  have "\<bar>256 * t - v\<bar> \<le> 1536000" using assms(2,3) unfolding sim_ok_def by linarith
  then have "track_distance (t, v) \<le> n" using assms(4) by (simp add: track_distance_def nat_le_iff)
  from filter.rests_for_ever [OF ok this] show ?thesis
    using filter_settled(2) [OF assms(1)] by (simp add: track_run track_rest_def)
qed

lemma steps_filter:
  "motor_ok m \<Longrightarrow> motor_ok ((motor_simulation_step ^^ n) m) \<and>
   sim_rpm_fixed ((motor_simulation_step ^^ n) m) = (ideal_filter (motor_target m) ^^ n) (sim_rpm_fixed m) \<and>
   motor_target ((motor_simulation_step ^^ n) m) = motor_target m"
  by (induction n) (simp_all add: step_ok step_exact)

text \<open>C33: the simulated motor follows its duty cycle.  Its speed never leaves the range of 3000 rpm in either
direction and nothing overflows; for a duty cycle that asks for at least 26 rpm, after at most 1536000 ticks and from
then on for ever the measured speed is the speed asked for, or one below it (the filter works in steps of 1/256 rpm
and rounds down).\<close>

theorem motor_follows:
  assumes "motor_ok m"
  shows "(\<forall>n. \<bar>measured_rpm ((motor_simulation_step ^^ n) m)\<bar> \<le> 3000) \<and>
    (26 \<le> \<bar>motor_target m\<bar> \<longrightarrow>
      (\<forall>n\<ge>1536000. measured_rpm ((motor_simulation_step ^^ n) m) \<in> {motor_target m - 1, motor_target m})) \<and>
    motor_target m = (if motor_direction m = SLAVE_MOTOR_DIR_REVERSE then - 1 else 1) * ((3 * uint (pwm_duty m)) div 10)"
proof -
  have ms: "measured_rpm ((motor_simulation_step ^^ n) m) = ((ideal_filter (motor_target m) ^^ n) (sim_rpm_fixed m)) div 256" for n
    using steps_filter [OF assms, of n] by (simp add: motor_ok_def asr_def)
  have "\<bar>measured_rpm ((motor_simulation_step ^^ n) m)\<bar> \<le> 3000" for n
    using steps_filter [OF assms, of n] measured_range by blast
  moreover have "measured_rpm ((motor_simulation_step ^^ n) m) \<in> {motor_target m - 1, motor_target m}"
    if "26 \<le> \<bar>motor_target m\<bar>" "1536000 \<le> n" for n
    unfolding ms using that assms by (intro filter_converges motor_target_exact(2)) (auto simp: motor_ok_def)
  ultimately show ?thesis using motor_target_exact(1) assms by (simp add: motor_ok_def)
qed

definition demo_motor :: motor_controller where
  "demo_motor = \<lparr>max_rpm = 3000, measured_rpm = 0, period_us = 0, motor_direction = 1, pwm_duty = 3000,
     motor_status = 0, sim_rpm_fixed = 0\<rparr>"

theorem motor_follows_witness:
  "measured_rpm ((motor_simulation_step ^^ 2000000) demo_motor) \<in> {899, 900}"
proof -
  have ok: "motor_ok demo_motor" by (simp add: motor_ok_def demo_motor_def sim_ok_def asr_def)
  have t: "motor_target demo_motor = 900" using motor_target_exact(1) [of demo_motor] by (simp add: demo_motor_def)
  have "\<forall>n\<ge>1536000. measured_rpm ((motor_simulation_step ^^ n) demo_motor) \<in> {899, 900}"
    using motor_follows [OF ok] by (simp add: t)
  moreover have "1536000 \<le> (2000000 :: nat)" by simp
  ultimately show ?thesis by blast
qed

section \<open>The hall sensor\<close>

text \<open>C34: the hall sensor always gives a column of the picture.  The column is below the resolution, and while the
product of the time since the last pulse and the resolution fits in 32 bits, it is the exact share of the revolution,
cut at the last column.  With the simulated clock the time is always below one period.\<close>

theorem hall_angle_in_range:
  assumes "angular_resolution dev > 0"
  shows "hall_get_angle t dev < angular_resolution dev \<and>
    (period_ticks dev > 0 \<and> unat t * unat (angular_resolution dev) < 2 ^ 32 \<longrightarrow>
       unat (hall_get_angle t dev) = min (unat t * unat (angular_resolution dev) div unat (period_ticks dev))
         (unat (angular_resolution dev) - 1)) \<and>
    (period_ticks dev > 0 \<longrightarrow> hall_read_rotated_time now dev < period_ticks dev)"
proof (intro conjI impI)
  define r where "r = angular_resolution dev"
  have r: "0 < unat r" using assms by (simp add: r_def word_less_nat_alt)
  have r1: "unat (r - 1) = unat r - 1" using r by (simp add: unat_minus_one unat_gt_0)
  show "hall_get_angle t dev < angular_resolution dev"
    using r r1 by (auto simp: hall_get_angle_def Let_def word_less_nat_alt word_le_nat_alt not_le simp flip: r_def)
  {
    assume a: "period_ticks dev > 0 \<and> unat t * unat (angular_resolution dev) < 2 ^ 32"
    have "unat ((t * r) div period_ticks dev) = unat t * unat r div unat (period_ticks dev)"
      using a by (simp add: unat_div unat_word_ariths r_def)
    then show "unat (hall_get_angle t dev) = min (unat t * unat (angular_resolution dev) div unat (period_ticks dev))
         (unat (angular_resolution dev) - 1)"
      using a r r1 by (auto simp: hall_get_angle_def Let_def word_le_nat_alt min_def simp flip: r_def)
  }
  {
    assume a: "period_ticks dev > 0"
    then have p: "0 < unat (period_ticks dev)" by (simp add: word_less_nat_alt)
    have "unat (now mod ucast (period_ticks dev)) = unat now mod unat (period_ticks dev)" by (simp add: unat_mod)
    then have "unat (ucast (now mod ucast (period_ticks dev)) :: u32) = unat now mod unat (period_ticks dev)"
      using p unat_lt_32 [of "period_ticks dev"] mod_less_divisor [OF p, of "unat now"]
      by (simp add: unsigned_ucast_eq take_bit_nat_eq_self_iff)
    then show "hall_read_rotated_time now dev < period_ticks dev"
      using a p by (auto simp: hall_read_rotated_time_def word_less_nat_alt)
  }
qed

theorem hall_angle_in_range_witness:
  "hall_get_angle 33333 \<lparr>angular_resolution = 720, period_ticks = 66667, kf = ()\<rparr> < 720"
  using hall_angle_in_range [of "\<lparr>angular_resolution = 720, period_ticks = 66667, kf = ()\<rparr>" 33333] by simp

end
