(* ===== verification/Stator.thy ===== *)
theory Stator
  imports Mavlink Tim_Task Pid Motor
begin

text \<open>
  The fixed end of the display, \<^verbatim>\<open>projects/persistence-of-vision/stator.c\<close>: the state machine that tunes
  the motor, waits for the rotor, runs and stops safely, and the timer callbacks that control the motor,
  handle the messages of the rotor and send heartbeats.  The state is the environment of the timers of
  \<^verbatim>\<open>tim-task.c\<close>, so a callback can change both.  The timer objects inside the structs are the addresses
  1 to 5, and so are the names of their callbacks.  A callback whose computation divides by zero or
  never returns is \<open>None\<close>.  This is the firmware for the target, with \<^verbatim>\<open>KINETIS_FAKE_SIM\<close> not set.
  What belongs to the system is in \<open>site\<close>: the link with its clock, the Kalman filter, the file
  system under the update flag, the pins that the pulses go to, and the reset.  The clock of the timers
  is read off the world whenever a callback returns.  \<open>print_delay\<close> is the time that a message on the
  console takes; it is written out where the code reads the clock before and after one.
\<close>

section \<open>State\<close>

datatype pov_stator_state =
    STATOR_INIT
  | STATOR_TUNING_MOTOR
  | STATOR_WAIT_ROTOR
  | STATOR_ACTIVE
  | STATOR_SAFE_STOP
  | STATOR_ENTER_BOOTLOADER

record ('m, 'p, 'k, 'w) pov_stator =
  mavlink :: "('m, 'p) mavlink_device"
  hall :: "'k hall_device"
  motor :: motor_controller
  stator_pid :: pid_positional
  relay_tuner :: pid_relay_tuner
  stator_uptime :: u32
  stator_state :: pov_stator_state
  last_rotor_heartbeat_ms :: u64
  rotor_heartbeat_paused :: bool
  tuning_stable_ticks :: u32
  world :: 'w

type_synonym ('m, 'p, 'k, 'w) machine = "('m, 'p, 'k, 'w) pov_stator timers"

record bootloader_update_flag =
  flag_magic :: u32
  flag_size :: u32
  flag_crc32 :: u32
  flag_reserved :: u32
  flag_filename :: string
  flag_path :: string

record ('m, 'p, 'k, 'w) site =
  site_link :: "('m, 'p, 'w) link"
  site_kalman :: "'k kalman"
  f_create :: "string \<Rightarrow> 'w \<Rightarrow> bool \<times> 'w"
  f_write :: "bootloader_update_flag \<Rightarrow> 'w \<Rightarrow> (bool \<times> nat) \<times> 'w"
  f_close :: "'w \<Rightarrow> 'w"
  system_reset :: "('w \<Rightarrow> 'w) option"
  pulse_pins :: "'w \<Rightarrow> 'w"
  sync_pin :: "'w \<Rightarrow> 'w"
  print_delay :: "serial_port \<times> 'w \<Rightarrow> serial_port \<times> 'w"
  ktime_get :: "serial_port \<times> 'w \<Rightarrow> int"

abbreviation fake_pulse_task :: task_ptr where "fake_pulse_task \<equiv> 1"
abbreviation sim_task :: task_ptr where "sim_task \<equiv> 2"
abbreviation pid_task :: task_ptr where "pid_task \<equiv> 3"
abbreviation heartbeat_task :: task_ptr where "heartbeat_task \<equiv> 4"
abbreviation process_cmd_task :: task_ptr where "process_cmd_task \<equiv> 5"

abbreviation UPDATE_FLAG_SIZE :: nat where "UPDATE_FLAG_SIZE \<equiv> 160"
abbreviation POV_TARGET_RPM :: int where "POV_TARGET_RPM \<equiv> 900"
abbreviation POV_DISPLAY_COLS :: u32 where "POV_DISPLAY_COLS \<equiv> 720"
abbreviation POV_HEARTBEAT_INTERVAL_MS :: u64 where "POV_HEARTBEAT_INTERVAL_MS \<equiv> 5000"
abbreviation SLAVE_TUNING_STABLE_THRESH :: int where "SLAVE_TUNING_STABLE_THRESH \<equiv> 10"
abbreviation SLAVE_TUNING_STABLE_TICKS :: u32 where "SLAVE_TUNING_STABLE_TICKS \<equiv> 50"

definition upd_env :: "('u \<Rightarrow> 'u) \<Rightarrow> 'u timers \<Rightarrow> 'u timers" where
  "upd_env f s = s\<lparr>env := f (env s)\<rparr>"

definition basic_timer_get_ms :: "('m, 'p, 'k, 'w) site \<Rightarrow> ('m, 'p, 'k, 'w) pov_stator \<Rightarrow> u64" where
  "basic_timer_get_ms st x = get_ms (site_link st) (serial (mavlink x), world x)"

definition set_target_speed :: "int \<Rightarrow> ('m, 'p) mavlink_device \<Rightarrow> ('m, 'p) mavlink_device" where
  "set_target_speed v dev = dev\<lparr>motors := (motors dev)[0 := (motors dev ! 0)\<lparr>target_speed := v\<rparr>]\<rparr>"

section \<open>Timer callbacks\<close>

definition set_stator_state :: "pov_stator_state \<Rightarrow> ('m, 'p, 'k, 'w) pov_stator \<Rightarrow> ('m, 'p, 'k, 'w) pov_stator" where
  "set_stator_state new_state x = x\<lparr>stator_state := new_state\<rparr>"

definition stator_heartbeat_task ::
  "('m, 'p, 'k, 'w) site \<Rightarrow> ('m, 'p, 'k, 'w) pov_stator \<Rightarrow> ('m, 'p, 'k, 'w) pov_stator option" where
  "stator_heartbeat_task st x =
     (let x = x\<lparr>stator_uptime := stator_uptime x + 1\<rparr>
      in do {
        (_, dev, w) \<leftarrow> mavlink_send_heartbeat (site_link st) MAV_SYSTEM_STATUS_ACTIVE (stator_uptime x)
          (error_count (mavlink x)) (mavlink x, world x);
        Some (x\<lparr>mavlink := dev, world := w\<rparr>)
      })"

definition apply_output :: "int \<Rightarrow> motor_controller \<Rightarrow> motor_controller" where
  "apply_output output mt =
     (if output \<ge> 0 then motor_set_direction SLAVE_MOTOR_DIR_FORWARD (motor_set_pwm (of_int output) mt)
      else motor_set_direction SLAVE_MOTOR_DIR_REVERSE (motor_set_pwm (of_int (s32 (- output))) mt))"

definition control_motor :: "('m, 'p, 'k, 'w) pov_stator \<Rightarrow> ('m, 'p, 'k, 'w) pov_stator option" where
  "control_motor x =
     (if stator_state x \<noteq> STATOR_TUNING_MOTOR \<and> stator_state x \<noteq> STATOR_ACTIVE then Some x
      else
        let set_point = target_speed (motors (mavlink x) ! 0);
            meas = measured_rpm (motor x)
        in do {
          (output, x) \<leftarrow>
            (if stator_state x = STATOR_TUNING_MOTOR \<and> rt_state (relay_tuner x) = RELAY_RUNNING
             then map_option (\<lambda>(u, t, c). (u, x\<lparr>relay_tuner := t, stator_pid := c\<rparr>))
                    (pid_relay_update (relay_tuner x) (stator_pid x) meas)
             else case pid_positional_update (stator_pid x) set_point meas (of_int SLAVE_PID_PERIOD_MS) of
                    (u, c) \<Rightarrow> Some (u, x\<lparr>stator_pid := c\<rparr>));
          Some (x\<lparr>motor := apply_output output (motor x)\<rparr>)
        })"

definition bootloader_write_update_flag ::
  "('m, 'p, 'k, 'w) site \<Rightarrow> u32 \<Rightarrow> u32 \<Rightarrow> string \<Rightarrow> string option \<Rightarrow> 'w \<Rightarrow> int \<times> 'w" where
  "bootloader_write_update_flag st fsize crc filename firmware_path w =
     (let flag = \<lparr>flag_magic = 0x55474655, flag_size = fsize, flag_crc32 = crc, flag_reserved = 0,
            flag_filename = take 47 filename,
            flag_path = (case firmware_path of None \<Rightarrow> [] | Some p \<Rightarrow> take 95 p)\<rparr>
      in case f_create st ''0:/update.flag'' w of (opened, w) \<Rightarrow>
        if \<not> opened then (- EIO, w)
        else case f_write st flag w of ((written, bw), w) \<Rightarrow>
          if \<not> written \<or> bw \<noteq> UPDATE_FLAG_SIZE then (- EIO, f_close st w) else (0, f_close st w))"

text \<open>What a message of the rotor says about the link, and what is done with the last message.\<close>

definition printing :: "('m, 'p, 'k, 'w) site \<Rightarrow> ('m, 'p, 'k, 'w) pov_stator \<Rightarrow> ('m, 'p, 'k, 'w) pov_stator" where
  "printing st x = (case print_delay st (serial (mavlink x), world x) of (sp, w) \<Rightarrow>
     x\<lparr>mavlink := (mavlink x)\<lparr>serial := sp\<rparr>, world := w\<rparr>)"

definition note_rotor :: "('m, 'p, 'k, 'w) site \<Rightarrow> ('m, 'p, 'k, 'w) pov_stator \<Rightarrow> ('m, 'p, 'k, 'w) pov_stator" where
  "note_rotor st x =
     (let x = x\<lparr>last_rotor_heartbeat_ms := basic_timer_get_ms st x\<rparr>;
          x = (if stator_state x = STATOR_SAFE_STOP \<or> stator_state x = STATOR_WAIT_ROTOR
               then set_stator_state STATOR_WAIT_ROTOR (printing st x) else x)
      in if stator_state x = STATOR_WAIT_ROTOR \<and>
            basic_timer_get_ms st x - last_rotor_heartbeat_ms x < POV_HEARTBEAT_INTERVAL_MS
         then set_stator_state STATOR_ACTIVE x else x)"

definition reply :: "(int \<times> ('m, 'p) mavlink_device \<times> 'w) option \<Rightarrow> ('m, 'p, 'k, 'w) pov_stator \<Rightarrow> ('m, 'p, 'k, 'w) pov_stator option" where
  "reply r x = map_option (\<lambda>(_, dev, w). x\<lparr>mavlink := dev, world := w\<rparr>) r"

definition handle_message :: "('m, 'p, 'k, 'w) site \<Rightarrow> ('m, 'p, 'k, 'w) pov_stator \<Rightarrow> ('m, 'p, 'k, 'w) pov_stator option" where
  "handle_message st x =
     (let lk = site_link st; raw = rx_msg (mavlink x); s = (mavlink x, world x)
      in case decode lk (raw_id lk raw) raw of
        System_heartbeat _ _ _ \<Rightarrow>
          Some (x\<lparr>rotor_heartbeat_paused := (sys_status (mavlink x) = MAV_SYSTEM_STATUS_STANDBY)\<rparr>)
      | Motor_control target _ direction \<Rightarrow>
          if (unat target \<ge> MAVLINK_MOTOR_COUNT \<and> target \<noteq> 255) \<or> direction > MAV_MOTOR_DIRECTION_REVERSE
          then reply (mavlink_send_motor_ack lk target MAV_ACK_RESULT_INVALID_PARAM s) x
          else reply (mavlink_send_motor_ack lk (if target = 255 then 0 else target) MAV_ACK_RESULT_OK s) x
      | Motor_status_query motor_id \<Rightarrow>
          if unat motor_id \<ge> MAVLINK_MOTOR_COUNT \<and> motor_id \<noteq> 255 then Some x
          else reply (mavlink_send_motor_status lk (ucast motor_id) (hall_get_rpm (hall x))
                 (sint (motor_direction (motor x))) (motor_status (motor x)) s) x
      | Bootloader_update_cmd _ _ _ _ \<Rightarrow>
          (case bootloader_write_update_flag st (firmware_size (bl (mavlink x))) (firmware_crc32 (bl (mavlink x)))
                  (bl_filename (bl (mavlink x))) None (world x) of (ret, w) \<Rightarrow>
             let x = x\<lparr>world := w\<rparr> in Some (if ret < 0 then x else set_stator_state STATOR_ENTER_BOOTLOADER x))
      | _ \<Rightarrow> Some x)"

definition process_motor_commands ::
  "('m, 'p, 'k, 'w) site \<Rightarrow> ('m, 'p, 'k, 'w) pov_stator \<Rightarrow> ('m, 'p, 'k, 'w) pov_stator option" where
  "process_motor_commands st x =
     (let old_rx = rx_count (mavlink x)
      in case data_available (mavlink x, world x) of (n, dev, w) \<Rightarrow>
        do {
          (dev, w) \<leftarrow> (if n > 0 then map_option snd (mavlink_receive_and_process (site_link st) 10 (dev, w)) else Some (dev, w));
          let x = x\<lparr>mavlink := dev, world := w\<rparr>;
          if rx_count dev > old_rx then handle_message st (note_rotor st x)
          else if rx_count dev = old_rx then Some x
          else handle_message st x
        })"

definition motor_simulation :: "('m, 'p, 'k, 'w) machine \<Rightarrow> ('m, 'p, 'k, 'w) machine" where
  "motor_simulation s =
     (let s = upd_env (\<lambda>x. x\<lparr>motor := motor_simulation_step (motor x)\<rparr>) s;
          period = period_us (motor (env s))
      in if period > 0 then tim_task_resume fake_pulse_task (snd (tim_task_set_interval fake_pulse_task period s))
         else tim_task_suspend fake_pulse_task s)"

definition hall_fake_pulse :: "('m, 'p, 'k, 'w) site \<Rightarrow> ('m, 'p, 'k, 'w) pov_stator \<Rightarrow> ('m, 'p, 'k, 'w) pov_stator" where
  "hall_fake_pulse st x = x\<lparr>world := pulse_pins st (world x)\<rparr>"

definition on_env :: "('u \<Rightarrow> 'u option) \<Rightarrow> 'u timers \<Rightarrow> 'u timers" where
  "on_env f s = (case f (env s) of Some x \<Rightarrow> s\<lparr>env := x\<rparr> | None \<Rightarrow> s\<lparr>fault := True\<rparr>)"

definition sync_clock :: "('m, 'p, 'k, 'w) site \<Rightarrow> ('m, 'p, 'k, 'w) machine \<Rightarrow> ('m, 'p, 'k, 'w) machine" where
  "sync_clock st s = s\<lparr>ktime := ktime_get st (serial (mavlink (env s)), world (env s))\<rparr>"

definition stator_callbacks :: "('m, 'p, 'k, 'w) site \<Rightarrow> ('m, 'p, 'k, 'w) pov_stator callbacks" where
  "stator_callbacks st f task s = sync_clock st
     (if f = fake_pulse_task then upd_env (hall_fake_pulse st) s
      else if f = sim_task then motor_simulation s
      else if f = pid_task then on_env control_motor s
      else if f = heartbeat_task then on_env (stator_heartbeat_task st) s
      else if f = process_cmd_task then on_env (process_motor_commands st) s
      else s)"

text \<open>The capture interrupt of the hall sensor.\<close>

definition capture_callback :: "('m, 'p, 'k, 'w) site \<Rightarrow> u32 \<Rightarrow> ('m, 'p, 'k, 'w) pov_stator \<Rightarrow> ('m, 'p, 'k, 'w) pov_stator" where
  "capture_callback st v x = x\<lparr>hall := hall_hall_isr (site_kalman st) v (hall x), world := sync_pin st (world x)\<rparr>"

section \<open>The state machine\<close>

definition finish_tuning :: "('m, 'p, 'k, 'w) site \<Rightarrow> ('m, 'p, 'k, 'w) machine \<Rightarrow> ('m, 'p, 'k, 'w) machine" where
  "finish_tuning st s =
     (let s = upd_env (\<lambda>x. x\<lparr>motor := motor_set_pwm 0 (motor x), stator_pid := pid_positional_reset (stator_pid x),
                mavlink := set_target_speed 0 (mavlink x), world := ops_enable (port_board (site_link st)) (world x)\<rparr>) s;
          s = snd (tim_task_add heartbeat_task (Some ''stator heartbeat'') 5000000 True False heartbeat_task s);
          s = snd (tim_task_add process_cmd_task (Some ''process_cmd_task'') 100000 True False process_cmd_task s)
      in upd_env (set_stator_state STATOR_WAIT_ROTOR) s)"

definition tuning_idle :: "('m, 'p, 'k, 'w) pov_stator \<Rightarrow> ('m, 'p, 'k, 'w) pov_stator" where
  "tuning_idle x =
     (let err = s32 (POV_TARGET_RPM - measured_rpm (motor x))
      in if err \<ge> - SLAVE_TUNING_STABLE_THRESH \<and> err \<le> SLAVE_TUNING_STABLE_THRESH
         then let x = x\<lparr>tuning_stable_ticks := tuning_stable_ticks x + 1\<rparr>
              in if tuning_stable_ticks x \<ge> SLAVE_TUNING_STABLE_TICKS
                 then x\<lparr>relay_tuner := pid_relay_start (relay_tuner x) (stator_pid x)\<rparr> else x
         else x\<lparr>tuning_stable_ticks := 0\<rparr>)"

definition pov_stator_fsm :: "('m, 'p, 'k, 'w) site \<Rightarrow> ('m, 'p, 'k, 'w) machine \<Rightarrow> ('m, 'p, 'k, 'w) machine" where
  "pov_stator_fsm st s =
     (case stator_state (env s) of
        STATOR_INIT \<Rightarrow>
          upd_env (\<lambda>x. set_stator_state STATOR_TUNING_MOTOR
            (x\<lparr>motor := motor_set_direction SLAVE_MOTOR_DIR_FORWARD (motor_set_pwm 0 (motor x)),
               mavlink := set_target_speed POV_TARGET_RPM (mavlink x)\<rparr>)) s
      | STATOR_TUNING_MOTOR \<Rightarrow>
          let s = upd_env (\<lambda>x. x\<lparr>mavlink := set_target_speed POV_TARGET_RPM (mavlink x)\<rparr>) s
          in if rt_state (relay_tuner (env s)) = RELAY_IDLE then upd_env tuning_idle s
             else if rt_state (relay_tuner (env s)) = RELAY_RUNNING then s
             else finish_tuning st s
      | STATOR_ACTIVE \<Rightarrow>
          let now = basic_timer_get_ms st (env s)
          in if \<not> rotor_heartbeat_paused (env s) \<and>
                now - last_rotor_heartbeat_ms (env s) > POV_HEARTBEAT_INTERVAL_MS * 2
             then upd_env (\<lambda>x. set_stator_state STATOR_SAFE_STOP
                    (x\<lparr>motor := motor_set_pwm 0 (motor x), stator_pid := pid_positional_reset (stator_pid x),
                       mavlink := set_target_speed 0 (mavlink x)\<rparr>)) s
             else s
      | STATOR_SAFE_STOP \<Rightarrow> s
      | STATOR_WAIT_ROTOR \<Rightarrow> s
      | STATOR_ENTER_BOOTLOADER \<Rightarrow>
          upd_env (\<lambda>x. x\<lparr>motor := motor_set_pwm 0 (motor x),
            world := (case system_reset st of Some f \<Rightarrow> f (world x) | None \<Rightarrow> world x)\<rparr>) s)"

section \<open>The main loop and set-up\<close>

text \<open>One round of the main loop of \<^verbatim>\<open>project.c\<close>.  Between rounds the capture interrupt can come, and the
hardware fills the receive buffer while time goes by.\<close>

definition stator_round :: "('m, 'p, 'k, 'w) site \<Rightarrow> ('m, 'p, 'k, 'w) machine \<Rightarrow> ('m, 'p, 'k, 'w) machine option" where
  "stator_round st s = tim_task_loop (stator_callbacks st) (sync_clock st (pov_stator_fsm st s))"

datatype 'w stator_event = Round | Capture u32 | Hardware "serial_port \<times> 'w \<Rightarrow> serial_port \<times> 'w"

definition hardware :: "(serial_port \<times> 'w \<Rightarrow> serial_port \<times> 'w) \<Rightarrow> ('m, 'p, 'k, 'w) pov_stator \<Rightarrow> ('m, 'p, 'k, 'w) pov_stator" where
  "hardware h x = (case h (serial (mavlink x), world x) of (sp, w) \<Rightarrow>
     x\<lparr>mavlink := (mavlink x)\<lparr>serial := sp\<rparr>, world := w\<rparr>)"

fun stator_step :: "('m, 'p, 'k, 'w) site \<Rightarrow> 'w stator_event \<Rightarrow> ('m, 'p, 'k, 'w) machine \<Rightarrow> ('m, 'p, 'k, 'w) machine option" where
  "stator_step st Round s = stator_round st s"
| "stator_step st (Capture v) s = Some (upd_env (capture_callback st v) s)"
| "stator_step st (Hardware h) s = Some (sync_clock st (upd_env (hardware h) s))"

fun stator_run :: "('m, 'p, 'k, 'w) site \<Rightarrow> 'w stator_event list \<Rightarrow> ('m, 'p, 'k, 'w) machine \<Rightarrow> ('m, 'p, 'k, 'w) machine option" where
  "stator_run st [] s = Some s"
| "stator_run st (e # es) s = Option.bind (stator_step st e s) (stator_run st es)"

text \<open>The five flags say whether the allocations succeed and whether the operations of the port are complete.
The port is tested against \<open>NULL\<close> only, so the error pointer of a failed \<open>serial_port_alloc\<close> goes on as
the port and is dereferenced later; the model stops at it, \<open>Inl\<close>.  \<open>Inr None\<close> is \<open>NULL\<close>.\<close>

definition new_stator :: "('m, 'p, 'k, 'w) site \<Rightarrow> ('m, 'p) mavlink_device \<Rightarrow> 'k hall_device \<Rightarrow> 'w \<Rightarrow> ('m, 'p, 'k, 'w) pov_stator" where
  "new_stator st dev h w =
     \<lparr>mavlink = dev, hall = h,
      motor = \<lparr>max_rpm = 3000, measured_rpm = 0, period_us = 0, motor_direction = 0, pwm_duty = 0,
               motor_status = 0, sim_rpm_fixed = 0\<rparr>,
      stator_pid = pid_positional_init 768 38 26,
      relay_tuner = pid_relay_init True 2000 0 POV_TARGET_RPM 5,
      stator_uptime = 0, stator_state = STATOR_INIT,
      last_rotor_heartbeat_ms = get_ms (site_link st) (serial dev, w),
      rotor_heartbeat_paused = False, tuning_stable_ticks = 0, world = w\<rparr>"

definition add_tasks :: "'u timers \<Rightarrow> 'u timers" where
  "add_tasks s =
     (let s = snd (tim_task_add fake_pulse_task (Some ''fake_pulse_task'') 66667 True False fake_pulse_task s);
          s = snd (tim_task_add sim_task (Some ''motor_sim_task'') 10000 True False sim_task s)
      in snd (tim_task_add pid_task (Some ''pid_task'') 10000 True False pid_task s))"

text \<open>The timers of the system, once the stator is what their callbacks work on.\<close>

definition timers_for :: "'v \<Rightarrow> unit timers \<Rightarrow> 'v timers" where
  "timers_for x s = \<lparr>tasks = tasks s, priority_heads = priority_heads s, tim_task_suspend_head = tim_task_suspend_head s,
     tim_task_head = tim_task_head s, tim_task_init = tim_task_init s, task_id_counter = task_id_counter s,
     ktime = ktime s, fault = fault s, env = x\<rparr>"

definition pov_stator_alloc ::
  "('m, 'p, 'k, 'w) site \<Rightarrow> bool \<Rightarrow> bool \<Rightarrow> bool \<Rightarrow> bool \<Rightarrow> bool \<Rightarrow> 'w
     \<Rightarrow> unit timers \<Rightarrow> (int + ('m, 'p, 'k, 'w) machine option) \<times> 'w" where
  "pov_stator_alloc st stator_mem port_mem has_ops mav_mem hall_mem w s =
     (if \<not> stator_mem then (Inr None, w)
      else case serial_port_alloc port_mem has_ops (port_board (site_link st)) w of
        (Inl e, w) \<Rightarrow> (Inl e, w)
      | (Inr port, w) \<Rightarrow>
          (case mavlink_init (site_link st) mav_mem port 2 1 of
             None \<Rightarrow> (Inr None, w)
           | Some dev \<Rightarrow>
               (case hall_alloc_dev (site_kalman st) hall_mem POV_DISPLAY_COLS of
                  None \<Rightarrow> (Inr None, w)
                | Some h \<Rightarrow> (Inr (Some (add_tasks (timers_for (new_stator st dev h w) s))), w))))"

end
