(* ===== verification/Stator_Correct.thy ===== *)
theory Stator_Correct
  imports Stator Mavlink_Correct Motor_Correct Pid_Correct Tim_Task_Correct
begin

text \<open>
  The properties of the stator.  \<open>stator_ok\<close> is the invariant of its data, which every callback and the state
  machine keep; \<open>machine_ok\<close> adds the task lists, which the motor callback changes while the scheduler walks
  through them.  What is assumed of the rest of the system is \<open>site_ok\<close>.
\<close>

section \<open>The stator\<close>

definition relay_ok :: "pid_relay_tuner \<Rightarrow> bool" where
  "relay_ok t \<longleftrightarrow> rt_pid t \<and> rt_min_cycles t \<noteq> 0 \<and> (rt_state t = RELAY_RUNNING \<longrightarrow> relay_inv t)"

definition stator_ok :: "('m, 'p, 'k, 'w) pov_stator \<Rightarrow> bool" where
  "stator_ok x \<longleftrightarrow> dev_ok (mavlink x) \<and> Motor_Correct.motor_ok (motor x) \<and> pid_ready (stator_pid x) \<and> relay_ok (relay_tuner x)
     \<and> (stator_state x \<in> {STATOR_INIT, STATOR_WAIT_ROTOR, STATOR_SAFE_STOP} \<longrightarrow> pwm_duty (motor x) = 0)"

text \<open>What the model relies on of the rest of the system: the link, and that initialising the port and printing leave
the ring of the port well formed.\<close>

definition site_ok :: "('m, 'p, 'k, 'w) site \<Rightarrow> bool" where
  "site_ok st \<longleftrightarrow> link_ok (site_link st) \<and> \<not> fake_sim (port_board (site_link st)) \<and>
     (\<forall>s w. port_ok s \<longrightarrow> port_ok (fst (ops_init (port_board (site_link st)) (s, w)))) \<and>
     (\<forall>s w. port_ok s \<longrightarrow> port_ok (fst (print_delay st (s, w))))"

lemma site_okD:
  assumes "site_ok st"
  shows "link_ok (site_link st)" "\<not> fake_sim (port_board (site_link st))"
    "port_ok s \<Longrightarrow> port_ok (fst (ops_init (port_board (site_link st)) (s, w)))"
    "port_ok s \<Longrightarrow> port_ok (fst (print_delay st (s, w)))"
  using assms by (simp_all add: site_ok_def)

lemma set_pwm_ok [simp]:
  "Motor_Correct.motor_ok m \<Longrightarrow> Motor_Correct.motor_ok (motor_set_pwm d m)"
  "Motor_Correct.motor_ok m \<Longrightarrow> Motor_Correct.motor_ok (motor_set_direction f m)"
  "pwm_duty (motor_set_pwm d m) = (if d > 10000 then 10000 else d)"
  "pwm_duty (motor_set_direction f m) = pwm_duty m"
  by (auto simp: Motor_Correct.motor_ok_def motor_set_pwm_def motor_set_direction_def not_less)

lemma apply_output_ok [simp]: "Motor_Correct.motor_ok m \<Longrightarrow> Motor_Correct.motor_ok (apply_output u m)"
  by (simp add: apply_output_def)

lemma ready_reset [simp]: "pid_ready c \<Longrightarrow> pid_ready (pid_positional_reset c)"
  using pid_ready_step [of c Reset_pid] by simp

lemma ready_update: "pid_ready c \<Longrightarrow> pid_ready (snd (pid_positional_update c sp m dt))"
  using pid_ready_step [of c "Sample sp m dt"] by simp

lemma target_speed_ok [simp]:
  "dev_ok dev \<Longrightarrow> - 2147483648 \<le> v \<Longrightarrow> v \<le> 2147483647 \<Longrightarrow> dev_ok (set_target_speed v dev)"
  using motors_nth [of dev 0] by (simp add: set_target_speed_def motors_update motor_typed_def)

lemma relay_start_ok: "relay_ok t \<Longrightarrow> relay_ok (pid_relay_start t c)"
  by (simp add: relay_ok_def pid_relay_start_def relay_inv_def)

lemma finish_ready:
  assumes "relay_finish_tuning t c = Some (t', c')" "pid_ready c"
  shows "pid_ready c'"
proof -
  have g: "pid_ready (pid_positional_reset (c\<lparr>p_kp := a, p_ki := b, p_kd := d\<rparr>))" for a b d
    by (rule ready_reset) (use assms(2) in \<open>simp add: pid_ready_def pid_ok_def\<close>)
  show ?thesis using assms g by (auto simp: relay_finish_tuning_def Let_def split: if_splits)
qed

lemma relay_update_ready:
  assumes "pid_relay_update t c m = Some (u, t', c')" "pid_ready c"
  shows "pid_ready c'"
  using assms finish_ready
  by (auto simp: pid_relay_update_def Let_def split: if_splits)

lemma control_motor_ok:
  assumes "stator_ok x"
  shows "\<exists>y. control_motor x = Some y \<and> stator_ok y \<and> stator_state y = stator_state x"
proof (cases "stator_state x = STATOR_TUNING_MOTOR \<and> rt_state (relay_tuner x) = RELAY_RUNNING")
  case True
  then have "tuning (relay_tuner x)" using assms by (simp add: tuning_def stator_ok_def relay_ok_def)
  from relay_update_step [OF this] obtain u t c where
    r: "pid_relay_update (relay_tuner x) (stator_pid x) (measured_rpm (motor x)) = Some (u, t, c)" and t: "tuning t" by blast
  have "pid_ready c" using relay_update_ready [OF r] assms by (simp add: stator_ok_def)
  then show ?thesis using True r t assms
    by (auto simp: control_motor_def Let_def stator_ok_def relay_ok_def tuning_def)
next
  case False
  show ?thesis
    using assms False ready_update [of "stator_pid x"]
    by (auto simp: control_motor_def Let_def stator_ok_def split_beta)
qed

lemma heartbeat_ok:
  assumes "site_ok st" "stator_ok x"
  shows "\<exists>y. stator_heartbeat_task st x = Some y \<and> stator_ok y \<and> stator_state y = stator_state x"
proof -
  obtain r dev w where s: "mavlink_send_encoded_data (site_link st)
      (System_heartbeat MAV_SYSTEM_STATUS_ACTIVE (stator_uptime x + 1) (error_count (mavlink x))) (mavlink x, world x) = Some (r, dev, w)"
    using send_total [OF site_okD(2) [OF assms(1)]] by (metis not_None_eq prod_cases3)
  have "dev_ok dev" using send_ok [OF site_okD(1) [OF assms(1)] s] assms(2) by (simp add: stator_ok_def)
  then show ?thesis using s assms(2)
    by (simp add: stator_heartbeat_task_def mavlink_send_heartbeat_def Let_def stator_ok_def)
qed

section \<open>Messages\<close>

definition started :: "pov_stator_state \<Rightarrow> bool" where
  "started q \<longleftrightarrow> q \<noteq> STATOR_INIT \<and> q \<noteq> STATOR_TUNING_MOTOR"

lemma stator_ok_link: "stator_ok x \<Longrightarrow> dev_ok dev \<Longrightarrow> stator_ok (x\<lparr>mavlink := dev, world := w\<rparr>)"
  by (simp add: stator_ok_def)

lemma printing_ok: "site_ok st \<Longrightarrow> stator_ok x \<Longrightarrow> stator_ok (printing st x)"
  using site_okD(4) [of st "serial (mavlink x)" "world x"]
  by (auto simp: printing_def stator_ok_def dev_ok_def split: prod.splits)

lemma printing_fields [simp]:
  "stator_state (printing st x) = stator_state x" "motor (printing st x) = motor x"
  by (simp_all add: printing_def split_beta)

lemma note_rotor_ok:
  assumes "site_ok st" "stator_ok x"
  shows "stator_ok (note_rotor st x)" "started (stator_state (note_rotor st x)) = started (stator_state x)"
proof -
  have p: "stator_ok (printing st (x\<lparr>last_rotor_heartbeat_ms := v\<rparr>))" for v
    by (rule printing_ok [OF assms(1)]) (use assms(2) in \<open>simp add: stator_ok_def\<close>)
  show "stator_ok (note_rotor st x)"
    using assms(2) p [of "basic_timer_get_ms st x"]
    by (auto simp: note_rotor_def Let_def set_stator_state_def stator_ok_def)
  show "started (stator_state (note_rotor st x)) = started (stator_state x)"
    by (auto simp: note_rotor_def Let_def set_stator_state_def started_def)
qed

lemma reply_ok:
  assumes "site_ok st" "stator_ok x"
  shows "\<exists>y. reply (mavlink_send_encoded_data (site_link st) m (mavlink x, world x)) x = Some y \<and> stator_ok y
    \<and> stator_state y = stator_state x"
proof -
  obtain r dev w where s: "mavlink_send_encoded_data (site_link st) m (mavlink x, world x) = Some (r, dev, w)"
    using send_total [OF site_okD(2) [OF assms(1)]] by (metis not_None_eq prod_cases3)
  have "dev_ok dev" using send_ok [OF site_okD(1) [OF assms(1)] s] assms(2) by (simp add: stator_ok_def)
  then show ?thesis using s assms(2) by (simp add: reply_def stator_ok_link)
qed

lemma handle_message_ok:
  assumes "site_ok st" "stator_ok x" "started (stator_state x)"
  shows "\<exists>y. handle_message st x = Some y \<and> stator_ok y \<and> started (stator_state y)"
proof -
  note r = reply_ok [OF assms(1,2)]
  show ?thesis
  proof (cases "decode (site_link st) (raw_id (site_link st) (rx_msg (mavlink x))) (rx_msg (mavlink x))")
    case (Motor_control t v d)
    then show ?thesis using r assms(3) by (fastforce simp: handle_message_def Let_def mavlink_send_motor_ack_def)
  next
    case (Motor_status_query i)
    then show ?thesis using r assms(2,3) by (fastforce simp: handle_message_def Let_def mavlink_send_motor_status_def)
  next
    case (Bootloader_update_cmd c n k f)
    then show ?thesis using assms(2,3)
      by (auto simp: handle_message_def Let_def set_stator_state_def stator_ok_def started_def split: prod.splits)
  next
    case (System_heartbeat a b c)
    then show ?thesis using assms(2,3) by (simp add: handle_message_def Let_def stator_ok_def)
  qed (use assms(2,3) in \<open>simp_all add: handle_message_def Let_def\<close>)
qed

lemma process_commands_ok:
  assumes "site_ok st" "stator_ok x" "started (stator_state x)"
  shows "\<exists>y. process_motor_commands st x = Some y \<and> stator_ok y \<and> started (stator_state y)"
proof -
  obtain n dev w where a: "data_available (mavlink x, world x) = (n, dev, w)" by (metis prod_cases3)
  have dev: "dev_ok dev" using data_available_ok [of "mavlink x" "world x"] a assms(2) by (simp add: stator_ok_def)
  obtain dev' w' where p: "(if n > 0 then map_option snd (mavlink_receive_and_process (site_link st) 10 (dev, w))
      else Some (dev, w)) = Some (dev', w')" and dev': "dev_ok dev'"
  proof (cases "n > 0")
    case True
    obtain r d v where "mavlink_receive_and_process (site_link st) 10 (dev, w) = Some (r, d, v)"
      using process_total [OF site_okD(2) [OF assms(1)], of 10 "(dev, w)"] by auto
    with process_ok [OF site_okD(1) [OF assms(1)] dev this] True that show thesis by simp
  qed (use dev that in simp)
  define y where "y = x\<lparr>mavlink := dev', world := w'\<rparr>"
  have y: "stator_ok y" "started (stator_state y)" "mavlink y = dev'"
    using stator_ok_link [OF assms(2) dev'] assms(3) by (simp_all add: y_def)
  have z: "stator_ok (note_rotor st y)" "started (stator_state (note_rotor st y))"
    using note_rotor_ok [OF assms(1) y(1)] y(2) by simp_all
  have "process_motor_commands st x = (if rx_count dev' > rx_count (mavlink x) then handle_message st (note_rotor st y)
      else if rx_count dev' = rx_count (mavlink x) then Some y else handle_message st y)"
    using p by (simp add: process_motor_commands_def a Let_def y_def)
  then show ?thesis using handle_message_ok [OF assms(1) z] handle_message_ok [OF assms(1) y(1,2)] y by auto
qed

section \<open>The task lists\<close>

text \<open>The motor callback takes the pulse task out of its list and puts it back at the end while the scheduler walks
through the list.  The lists that occur, before and after the heartbeat and command tasks are added:\<close>

fun queues :: "bool \<Rightarrow> task_ptr list set" where
  "queues False = {[1, 2, 3], [2, 3], [2, 3, 1]}"
| "queues True = {[1, 2, 3, 4, 5], [2, 3, 4, 5], [2, 3, 1, 4, 5], [2, 3, 4, 5, 1]}"

fun rest :: "bool \<Rightarrow> task_ptr list" where
  "rest False = [2, 3]"
| "rest True = [2, 3, 4, 5]"

lemma queues_remove: "Q \<in> queues b \<Longrightarrow> removeAll 1 Q = rest b"
  by (cases b) auto

lemma rest_queues: "rest b \<in> queues b" "rest b @ [1] \<in> queues b"
  by (cases b; simp)+

definition stator_task :: "task_ptr \<Rightarrow> tim_task \<Rightarrow> bool" where
  "stator_task t k \<longleftrightarrow> t_auto_load k \<and> t_callback k = t \<and> t_priority k = 1"

definition machine_ok :: "('m, 'p, 'k, 'w) machine \<Rightarrow> bool" where
  "machine_ok s \<longleftrightarrow> timers_wf s \<and> \<not> fault s \<and> tim_task_init s \<and> stator_ok (env s) \<and>
     (\<exists>Q \<in> queues (started (stator_state (env s))). priority_heads s = [[], Q, []]) \<and>
     tim_task_head s = 1 # rest (started (stator_state (env s))) \<and>
     (\<forall>t \<in> set (tim_task_head s). stator_task t (tasks s t))"

lemma timers_wf_fields [simp]:
  "timers_wf (s\<lparr>env := e\<rparr>) = timers_wf s" "timers_wf (s\<lparr>ktime := k\<rparr>) = timers_wf s"
  by (simp_all add: timers_wf_def linked_def)

lemma sync_ok [simp]: "machine_ok (sync_clock st s) = machine_ok s" "priority_heads (sync_clock st s) = priority_heads s"
  "env (sync_clock st s) = env s" "tasks (sync_clock st s) = tasks s"
  by (simp_all add: machine_ok_def sync_clock_def)

lemma env_ok:
  assumes "machine_ok s" "stator_ok x" "started (stator_state x) = started (stator_state (env s))"
  shows "machine_ok (s\<lparr>env := x\<rparr>)"
  using assms by (simp add: machine_ok_def)

lemma upd_env_ok:
  "machine_ok s \<Longrightarrow> stator_ok (f (env s)) \<Longrightarrow> started (stator_state (f (env s))) = started (stator_state (env s)) \<Longrightarrow>
   machine_ok (upd_env f s)"
  by (simp add: upd_env_def env_ok)

lemma upd_task_ok:
  assumes "machine_ok s" "\<And>k. task_ok (f k) = task_ok k" "\<And>k. t_priority (f k) = t_priority k"
    "\<And>k. t_auto_load (f k) = t_auto_load k" "\<And>k. t_callback (f k) = t_callback k"
  shows "machine_ok (upd_task t f s)"
  using assms timers_wf_upd [OF assms(2,3), of t s] by (auto simp: machine_ok_def stator_task_def)

section \<open>The callbacks\<close>

lemma pulse_task:
  assumes "machine_ok s"
  shows "1 \<in> set (tim_task_head s)" "tim_task_resume 1 s = list_add_tail 1 1 (unlink 1 s)"
    "tim_task_suspend 1 s = (unlink 1 s)\<lparr>tim_task_suspend_head := tim_task_suspend_head (unlink 1 s) @ [1]\<rparr>"
    "map (removeAll 1) (priority_heads s) = [[], rest (started (stator_state (env s))), []]"
proof -
  show h: "1 \<in> set (tim_task_head s)" using assms by (simp add: machine_ok_def)
  have "t_list_ok (tasks s 1)" "t_priority (tasks s 1) = 1"
    using assms wf_task(2) [OF _ h] by (auto simp: machine_ok_def stator_task_def)
  moreover have "\<not> (3 :: u32) \<le> 1" by (simp add: word_le_nat_alt)
  ultimately show "tim_task_resume 1 s = list_add_tail 1 1 (unlink 1 s)"
    "tim_task_suspend 1 s = (unlink 1 s)\<lparr>tim_task_suspend_head := tim_task_suspend_head (unlink 1 s) @ [1]\<rparr>"
    by (simp_all add: tim_task_resume_def list_move_tail_def tim_task_suspend_def Let_def)
  show "map (removeAll 1) (priority_heads s) = [[], rest (started (stator_state (env s))), []]"
    using assms queues_remove by (auto simp: machine_ok_def)
qed

lemma requeued_ok:
  assumes "machine_ok s" "timers_wf z" "fault z = fault s" "env z = env s" "tim_task_init z = tim_task_init s"
    "tim_task_head z = tim_task_head s" "\<And>t. stator_task t (tasks s t) \<Longrightarrow> stator_task t (tasks z t)"
    "priority_heads z = [[], Q, []]" "Q \<in> {rest (started (stator_state (env s))), rest (started (stator_state (env s))) @ [1]}"
  shows "machine_ok z"
  using assms rest_queues by (auto simp: machine_ok_def)

lemma resume_ok:
  assumes "machine_ok s"
  shows "machine_ok (tim_task_resume 1 s)"
proof (rule requeued_ok [OF assms])
  have wf: "timers_wf s" using assms by (simp add: machine_ok_def)
  note p = pulse_task [OF assms] and r = wf_resume [OF wf pulse_task(1) [OF assms]]
  show "timers_wf (tim_task_resume 1 s)" "fault (tim_task_resume 1 s) = fault s"
    "tim_task_head (tim_task_resume 1 s) = tim_task_head s" by (fact r)+
  show "priority_heads (tim_task_resume 1 s) = [[], rest (started (stator_state (env s))) @ [1], []]"
    unfolding p(2) by (simp add: p(4) del: One_nat_def) simp
qed (auto simp: pulse_task(2) [OF assms] stator_task_def simp del: One_nat_def)

lemma suspend_ok:
  assumes "machine_ok s"
  shows "machine_ok (tim_task_suspend 1 s)"
proof (rule requeued_ok [OF assms])
  have wf: "timers_wf s" using assms by (simp add: machine_ok_def)
  note p = pulse_task [OF assms] and r = wf_suspend [OF wf pulse_task(1) [OF assms]]
  show "timers_wf (tim_task_suspend 1 s)" "fault (tim_task_suspend 1 s) = fault s"
    "tim_task_head (tim_task_suspend 1 s) = tim_task_head s" by (fact r)+
  show "priority_heads (tim_task_suspend 1 s) = [[], rest (started (stator_state (env s))), []]"
    unfolding p(3) by (simp add: p(4) del: One_nat_def)
qed (simp_all add: pulse_task(3) [OF assms] del: One_nat_def)

lemma motor_simulation_ok:
  assumes "machine_ok s"
  shows "machine_ok (motor_simulation s)"
proof -
  define u where "u = upd_env (\<lambda>x. x\<lparr>motor := motor_simulation_step (motor x)\<rparr>) s"
  define v where "v = snd (tim_task_set_interval 1 (period_us (motor (env u))) u)"
  have u: "machine_ok u" unfolding u_def
    by (rule upd_env_ok [OF assms]) (use assms step_ok in \<open>simp_all add: machine_ok_def stator_ok_def\<close>)
  have v: "machine_ok v"
    using u wf_set_interval [of u 1 "period_us (motor (env u))"]
    by (auto simp: v_def tim_task_set_interval_def machine_ok_def stator_task_def)
  have "motor_simulation s = (if period_us (motor (env u)) > 0 then tim_task_resume 1 v else tim_task_suspend 1 u)"
    by (simp add: motor_simulation_def Let_def u_def v_def)
  then show ?thesis using resume_ok [OF v] suspend_ok [OF u] by simp
qed

lemma on_env_ok:
  assumes "machine_ok s" "\<exists>y. f (env s) = Some y \<and> stator_ok y \<and> started (stator_state y) = started (stator_state (env s))"
  shows "machine_ok (on_env f s)" "priority_heads (on_env f s) = priority_heads s"
  using assms env_ok [OF assms(1)] by (auto simp: on_env_def)

lemma callbacks_ok:
  assumes "site_ok st" "machine_ok s" "t \<in> set (tim_task_head s)"
  shows "machine_ok (stator_callbacks st t t s)"
    "t \<noteq> 2 \<Longrightarrow> priority_heads (stator_callbacks st t t s) = priority_heads s"
proof -
  have ok: "stator_ok (env s)" using assms(2) by (simp add: machine_ok_def)
  have t: "t \<in> {1, 2, 3, 4, 5}" "t \<in> {4, 5} \<Longrightarrow> started (stator_state (env s))"
    using assms(2,3) by (cases "started (stator_state (env s))"; auto simp: machine_ok_def)+
  have 1: "machine_ok (upd_env (hall_fake_pulse st) s)"
    by (rule upd_env_ok [OF assms(2)]) (use ok in \<open>simp_all add: hall_fake_pulse_def stator_ok_def\<close>)
  have 3: "machine_ok (on_env control_motor s)" "priority_heads (on_env control_motor s) = priority_heads s"
    by (rule on_env_ok [OF assms(2)], use control_motor_ok [OF ok] in auto)+
  have 4: "machine_ok (on_env (stator_heartbeat_task st) s)" "priority_heads (on_env (stator_heartbeat_task st) s) = priority_heads s"
    by (rule on_env_ok [OF assms(2)], use heartbeat_ok [OF assms(1) ok] in auto)+
  have 5: "machine_ok (on_env (process_motor_commands st) s)" "priority_heads (on_env (process_motor_commands st) s) = priority_heads s"
    if "t = 5"
    by (rule on_env_ok [OF assms(2)], use process_commands_ok [OF assms(1) ok] t that in auto)+
  show "machine_ok (stator_callbacks st t t s)"
    using t 1 motor_simulation_ok [OF assms(2)] 3 4 5 by (auto simp: stator_callbacks_def)
  show "t \<noteq> 2 \<Longrightarrow> priority_heads (stator_callbacks st t t s) = priority_heads s"
    using t 3 4 5 by (auto simp: stator_callbacks_def upd_env_def)
qed

section \<open>A pass of the scheduler\<close>

lemma visit_ok:
  assumes "site_ok st" "machine_ok s" "t \<in> set (priority_heads s ! 1)"
  shows "machine_ok (visit (stator_callbacks st) now t s)"
    "t \<noteq> 2 \<Longrightarrow> priority_heads (visit (stator_callbacks st) now t s) = priority_heads s"
proof -
  define c where "c = stator_callbacks st t t s"
  define d where "d = upd_task t (\<lambda>k. k\<lparr>t_execution_count := t_execution_count k + 1\<rparr>) c"
  have h: "t \<in> set (tim_task_head s)"
    using assms(2,3) wf_queue(2) [of s 1] by (auto simp: machine_ok_def)
  note cb = callbacks_ok [OF assms(1,2) h, folded c_def]
  have d: "machine_ok d" unfolding d_def by (rule upd_task_ok [OF cb(1)]) (simp_all add: task_ok_def)
  have e: "machine_ok (upd_task t (\<lambda>k. k\<lparr>t_timeout := s64 (clock_us d + uint (t_interval_us k))\<rparr>) d)"
    by (rule upd_task_ok [OF d]) (simp_all add: task_ok_def)
  have hd: "t \<in> set (tim_task_head c)"
  proof (cases "t \<in> {4, 5}")
    case True
    then have "priority_heads c = priority_heads s" using cb(2) by auto
    then show ?thesis using assms(3) cb(1) wf_queue(2) [of c 1] by (auto simp: machine_ok_def)
  next
    case False
    then have "t \<in> {1, 2, 3}" using h assms(2) by (cases "started (stator_state (env s))") (auto simp: machine_ok_def)
    then show ?thesis using cb(1) by (cases "started (stator_state (env c))") (auto simp: machine_ok_def)
  qed
  then have al: "t_auto_load (tasks c t)" using cb(1) by (auto simp: machine_ok_def stator_task_def)
  have "t_callback (tasks s t) = t" using assms(2) h by (auto simp: machine_ok_def stator_task_def)
  then have v: "visit (stator_callbacks st) now t s = (if t_timeout (tasks s t) \<le> now
      then upd_task t (\<lambda>k. k\<lparr>t_timeout := s64 (clock_us d + uint (t_interval_us k))\<rparr>) d else s)"
    using al by (simp add: visit_def c_def [symmetric] d_def Let_def)
  show "machine_ok (visit (stator_callbacks st) now t s)" using e assms(2) by (simp add: v)
  show "t \<noteq> 2 \<Longrightarrow> priority_heads (visit (stator_callbacks st) now t s) = priority_heads s"
    using cb(2) by (simp add: v d_def)
qed

text \<open>The part of the list behind the motor task is fixed while it is walked.\<close>

lemma loop_tail:
  assumes "site_ok st" "machine_ok s" "priority_heads s ! 1 = pre @ suf" "2 \<notin> set suf"
  shows "\<exists>s'. loop_queue (stator_callbacks st) now 1 (first_of suf) s = Some s' \<and> machine_ok s'"
  using assms(2-)
proof (induction suf arbitrary: s pre)
  case Nil
  then show ?case by (subst loop_queue.simps) (simp add: first_of_def)
next
  case (Cons t suf)
  have t: "t \<in> set (priority_heads s ! 1)" "t \<noteq> 2" using Cons.prems by auto
  have "distinct (priority_heads s ! 1)" using Cons.prems(1) wf_queue(1) [of s 1] by (auto simp: machine_ok_def)
  then have n: "next_in t (priority_heads s ! 1) = first_of suf"
    using Cons.prems(2) next_in_append [of t pre suf] by simp
  note v = visit_ok [OF assms(1) Cons.prems(1) t(1), of now]
  have "\<exists>s'. loop_queue (stator_callbacks st) now 1 (first_of suf) (visit (stator_callbacks st) now t s) = Some s' \<and> machine_ok s'"
    by (rule Cons.IH [where pre = "pre @ [t]"]) (use v t(2) Cons.prems in simp_all)
  moreover have "loop_queue (stator_callbacks st) now 1 (first_of (t # suf)) s
      = loop_queue (stator_callbacks st) now 1 (first_of suf) (visit (stator_callbacks st) now t s)"
    by (subst loop_queue.simps) (use t n in \<open>simp add: first_of_def [of "t # suf"]\<close>)
  ultimately show ?case by simp
qed

lemma queues_split: "Q \<in> queues b \<Longrightarrow> \<exists>us. (Q = 2 # 3 # us \<or> Q = 1 # 2 # 3 # us) \<and> 2 \<notin> set us"
  by (cases b) auto

lemma loop_from_motor:
  assumes "site_ok st" "machine_ok s" "2 \<in> set (priority_heads s ! 1)"
  shows "\<exists>s'. loop_queue (stator_callbacks st) now 1 (Some 2) s = Some s' \<and> machine_ok s'"
proof -
  let ?v = "visit (stator_callbacks st) now 2 s"
  have q: "priority_heads z ! 1 \<in> queues (started (stator_state (env z)))" if "machine_ok z" for z :: "('a, 'b, 'c, 'd) machine"
    using that by (auto simp: machine_ok_def)
  have n: "next_in 2 (priority_heads s ! 1) = Some 3"
    using queues_split [OF q [OF assms(2)]] by (auto simp: next_in_def)
  note v = visit_ok [OF assms, of now]
  obtain pre us where "priority_heads ?v ! 1 = pre @ 3 # us" "2 \<notin> set us"
    using queues_split [OF q [OF v(1)]] by (metis append_Cons append_Nil)
  with loop_tail [OF assms(1) v(1), of pre "3 # us" now]
  have "\<exists>s'. loop_queue (stator_callbacks st) now 1 (Some 3) ?v = Some s' \<and> machine_ok s'"
    by (simp add: first_of_def)
  then show ?thesis by (subst loop_queue.simps) (use assms(3) n in simp)
qed

lemma loop_middle:
  assumes "site_ok st" "machine_ok s"
  shows "\<exists>s'. loop_priority (stator_callbacks st) now 1 s = Some s' \<and> machine_ok s'"
proof -
  have Q: "priority_heads s ! 1 \<in> queues (started (stator_state (env s)))" using assms(2) by (auto simp: machine_ok_def)
  obtain us where us: "priority_heads s ! 1 = 2 # 3 # us \<or> priority_heads s ! 1 = 1 # 2 # 3 # us"
    using queues_split [OF Q] by blast
  show ?thesis
  proof (cases "priority_heads s ! 1 = 2 # 3 # us")
    case True
    then show ?thesis using loop_from_motor [OF assms, of now] by (simp add: loop_priority_def first_of_def)
  next
    case False
    then have e: "priority_heads s ! 1 = 1 # 2 # 3 # us" using us by simp
    have v: "machine_ok (visit (stator_callbacks st) now 1 s)"
      "priority_heads (visit (stator_callbacks st) now 1 s) = priority_heads s"
      using visit_ok [OF assms, of 1 now] e by (simp_all del: One_nat_def)
    have "loop_queue (stator_callbacks st) now 1 (Some 1) s
        = loop_queue (stator_callbacks st) now 1 (Some 2) (visit (stator_callbacks st) now 1 s)"
      by (subst loop_queue.simps) (simp add: e next_in_def del: One_nat_def)
    then show ?thesis using loop_from_motor [OF assms(1) v(1), of now] e v(2)
      by (simp add: loop_priority_def first_of_def del: One_nat_def)
  qed
qed

lemma loop_empty: "priority_heads s ! p = [] \<Longrightarrow> loop_priority cb now p s = Some s"
  by (simp add: loop_priority_def first_of_def loop_queue.simps)

lemma loop_ok:
  assumes "site_ok st" "machine_ok s"
  shows "\<exists>s'. tim_task_loop (stator_callbacks st) s = Some s' \<and> machine_ok s'"
proof -
  have e: "priority_heads z ! 0 = []" "priority_heads z ! 2 = []" if "machine_ok z" for z :: "('a, 'b, 'c, 'd) machine"
    using that by (auto simp: machine_ok_def numeral_2_eq_2)
  obtain s' where s': "loop_priority (stator_callbacks st) (clock_us s) 1 s = Some s'" "machine_ok s'"
    using loop_middle [OF assms] by blast
  have u: "[0..<MAX_PRIORITY_LEVELS] = [0, 1, 2]" by (simp add: upt_rec)
  have "tim_task_loop (stator_callbacks st) s = Some s'"
    using assms(2) s' loop_empty [OF e(1) [OF assms(2)]] loop_empty [OF e(2) [OF s'(2)]]
    by (simp add: tim_task_loop_def u machine_ok_def del: One_nat_def upt_Suc)
  then show ?thesis using s'(2) by simp
qed

section \<open>The state machine\<close>

lemma tuning_idle_ok:
  assumes "stator_ok x" "stator_state x = STATOR_TUNING_MOTOR"
  shows "stator_ok (tuning_idle x)" "stator_state (tuning_idle x) = STATOR_TUNING_MOTOR"
  using assms relay_start_ok [of "relay_tuner x"] by (auto simp: tuning_idle_def Let_def stator_ok_def)

lemma added_ok:
  fixes s :: "'u timers" and name :: "string option"
  assumes "timers_wf s" "tim_task_init s" "priority_heads s = [[], Q, []]" "t \<notin> set (tim_task_head s)" "t \<noteq> 0" "i \<noteq> 0" "i \<le> 3600000000"
  defines "z \<equiv> snd (tim_task_add t name i True False t s)"
  shows "timers_wf z" "tim_task_init z" "priority_heads z = [[], Q @ [t], []]" "tim_task_head z = tim_task_head s @ [t]"
    "fault z = fault s" "tasks z = (tasks s)(t := added_task name i True False t s)" "env z = env s"
proof -
  note f = add_fields [OF assms(5,5,6,7), of name True False s, folded z_def]
  show "timers_wf z" unfolding z_def by (rule wf_add(1) [OF assms(1,4)])
  show "tim_task_init z" "tim_task_head z = tim_task_head s @ [t]" "fault z = fault s"
    "tasks z = (tasks s)(t := added_task name i True False t s)" using f by simp_all
  show "priority_heads z = [[], Q @ [t], []]" using f(3) assms(2,3) by (simp add: timers_ready_def)
  show "env z = env s" by (simp add: z_def tim_task_add_def Let_def)
qed

lemma added_stator_task [simp]: "stator_task t (added_task name i True False t s)"
  by (simp add: stator_task_def added_task_def)

lemma finish_tuning_ok:
  assumes "machine_ok s" "stator_state (env s) = STATOR_TUNING_MOTOR"
  shows "machine_ok (finish_tuning st s)" "stator_state (env (finish_tuning st s)) = STATOR_WAIT_ROTOR"
proof -
  define u where "u = upd_env (\<lambda>x. x\<lparr>motor := motor_set_pwm 0 (motor x), stator_pid := pid_positional_reset (stator_pid x),
     mavlink := set_target_speed 0 (mavlink x), world := ops_enable (port_board (site_link st)) (world x)\<rparr>) s"
  define v where "v = snd (tim_task_add 4 (Some ''stator heartbeat'') 5000000 True False 4 u)"
  define w where "w = snd (tim_task_add 5 (Some ''process_cmd_task'') 100000 True False 5 v)"
  have b: "\<not> started (stator_state (env s))" using assms(2) by (simp add: started_def)
  obtain Q where Q: "Q \<in> queues False" "priority_heads s = [[], Q, []]" using assms(1) b by (auto simp: machine_ok_def)
  have u: "timers_wf u" "tim_task_init u" "priority_heads u = [[], Q, []]" "tim_task_head u = [1, 2, 3]" "\<not> fault u" "tasks u = tasks s"
    using assms(1) b Q by (simp_all add: u_def upd_env_def machine_ok_def)
  have sok: "stator_ok (env u)" using assms by (simp add: u_def upd_env_def machine_ok_def stator_ok_def)
  note v = added_ok [OF u(1,2,3), of 4 5000000 "Some ''stator heartbeat''", folded v_def]
  note w = added_ok [of v "Q @ [4]" 5 100000 "Some ''process_cmd_task''", folded w_def]
  have i: "(5000000 :: u32) \<le> 3600000000" "(100000 :: u32) \<le> 3600000000" by (simp_all add: word_le_nat_alt)
  have w': "timers_wf w" "tim_task_init w" "priority_heads w = [[], Q @ [4, 5], []]" "tim_task_head w = [1, 2, 3, 4, 5]" "\<not> fault w"
    "env w = env u" "tasks w = (tasks s)(4 := added_task (Some ''stator heartbeat'') 5000000 True False 4 u,
       5 := added_task (Some ''process_cmd_task'') 100000 True False 5 v)"
    using v w u i by simp_all
  have tk: "\<forall>t\<in>{1, 2, 3}. stator_task t (tasks s t)" using assms(1) b by (simp add: machine_ok_def)
  have f: "finish_tuning st s = upd_env (set_stator_state STATOR_WAIT_ROTOR) w"
    by (simp add: finish_tuning_def u_def v_def w_def Let_def)
  have p: "pwm_duty (motor (env u)) = 0" by (simp add: u_def upd_env_def)
  show "stator_state (env (finish_tuning st s)) = STATOR_WAIT_ROTOR" by (simp add: f upd_env_def set_stator_state_def)
  have "stator_ok (set_stator_state STATOR_WAIT_ROTOR (env u))" using sok p by (simp add: stator_ok_def set_stator_state_def)
  moreover have "Q @ [4, 5] \<in> queues True" using Q(1) by auto
  ultimately show "machine_ok (finish_tuning st s)"
    using w' tk
    by (simp add: f machine_ok_def upd_env_def set_stator_state_def started_def del: queues.simps)
qed

lemma fsm_ok:
  assumes "machine_ok s"
  shows "machine_ok (pov_stator_fsm st s)"
proof -
  have ok: "stator_ok (env s)" using assms by (simp add: machine_ok_def)
  show ?thesis
  proof (cases "stator_state (env s)")
    case STATOR_INIT
    show ?thesis unfolding pov_stator_fsm_def STATOR_INIT pov_stator_state.case
      by (rule upd_env_ok [OF assms]) (use ok STATOR_INIT in \<open>simp_all add: stator_ok_def set_stator_state_def started_def\<close>)
  next
    case STATOR_TUNING_MOTOR
    define u where "u = upd_env (\<lambda>x. x\<lparr>mavlink := set_target_speed POV_TARGET_RPM (mavlink x)\<rparr>) s"
    have u: "machine_ok u" unfolding u_def by (rule upd_env_ok [OF assms]) (use ok in \<open>simp_all add: stator_ok_def\<close>)
    have q: "stator_state (env u) = STATOR_TUNING_MOTOR" using STATOR_TUNING_MOTOR by (simp add: u_def upd_env_def)
    have uok: "stator_ok (env u)" using u by (simp add: machine_ok_def)
    have i: "machine_ok (upd_env tuning_idle u)"
      by (rule upd_env_ok [OF u]) (use tuning_idle_ok [OF uok q] q in simp_all)
    show ?thesis using u i finish_tuning_ok(1) [OF u q]
      by (simp add: pov_stator_fsm_def STATOR_TUNING_MOTOR u_def Let_def)
  next
    case STATOR_ACTIVE
    have "machine_ok (upd_env (\<lambda>x. set_stator_state STATOR_SAFE_STOP
        (x\<lparr>motor := motor_set_pwm 0 (motor x), stator_pid := pid_positional_reset (stator_pid x),
           mavlink := set_target_speed 0 (mavlink x)\<rparr>)) s)"
      by (rule upd_env_ok [OF assms]) (use ok STATOR_ACTIVE in \<open>simp_all add: stator_ok_def set_stator_state_def started_def\<close>)
    then show ?thesis using assms by (simp add: pov_stator_fsm_def STATOR_ACTIVE Let_def)
  next
    case STATOR_ENTER_BOOTLOADER
    show ?thesis unfolding pov_stator_fsm_def STATOR_ENTER_BOOTLOADER pov_stator_state.case
      by (rule upd_env_ok [OF assms]) (use ok in \<open>simp_all add: stator_ok_def\<close>)
  qed (use assms in \<open>simp_all add: pov_stator_fsm_def\<close>)
qed

section \<open>Runs\<close>

definition port_preserving :: "'w stator_event \<Rightarrow> bool" where
  "port_preserving e \<longleftrightarrow> (\<forall>h. e = Hardware h \<longrightarrow> (\<forall>s w. port_ok s \<longrightarrow> port_ok (fst (h (s, w)))))"

lemma stator_step_ok:
  assumes "site_ok st" "machine_ok s" "port_preserving e"
  shows "\<exists>s'. stator_step st e s = Some s' \<and> machine_ok s'"
proof (cases e)
  case Round
  then show ?thesis using loop_ok [OF assms(1), of "sync_clock st (pov_stator_fsm st s)"] fsm_ok [OF assms(2), of st]
    by (simp add: stator_round_def)
next
  case (Capture v)
  have "machine_ok (upd_env (capture_callback st v) s)"
    by (rule upd_env_ok [OF assms(2)]) (use assms(2) in \<open>simp_all add: capture_callback_def machine_ok_def stator_ok_def\<close>)
  then show ?thesis by (simp add: Capture)
next
  case (Hardware h)
  have p: "port_ok s \<Longrightarrow> port_ok (fst (h (s, w)))" for s w using assms(3) Hardware by (simp add: port_preserving_def)
  have "machine_ok (upd_env (hardware h) s)"
    by (rule upd_env_ok [OF assms(2)])
       (use assms(2) p in \<open>auto simp: hardware_def machine_ok_def stator_ok_def dev_ok_def split_beta\<close>)
  then show ?thesis by (simp add: Hardware)
qed

lemma stator_run_ok:
  "site_ok st \<Longrightarrow> machine_ok s \<Longrightarrow> list_all port_preserving es \<Longrightarrow> \<exists>s'. stator_run st es s = Some s' \<and> machine_ok s'"
proof (induction es arbitrary: s)
  case Nil
  then show ?case by simp
next
  case (Cons e es)
  then obtain s' where "stator_step st e s = Some s'" "machine_ok s'" using stator_step_ok [of st s e] by auto
  then show ?case using Cons by simp
qed

lemma new_stator_state: "stator_state (new_stator st dev h w) = STATOR_INIT"
  by (simp add: new_stator_def)

lemma new_stator_ok: "dev_ok dev \<Longrightarrow> stator_ok (new_stator st dev h w)"
  using pid_init_ready [of 768 38 26]
  by (simp add: new_stator_def stator_ok_def Motor_Correct.motor_ok_def sim_ok_def asr_def relay_ok_def pid_relay_init_def)

lemma add_tasks_ok:
  assumes "timers_wf s" "tim_task_head s = []" "\<not> fault s" "\<not> tim_task_init s" "stator_ok (env s)" "stator_state (env s) = STATOR_INIT"
  shows "machine_ok (add_tasks s)"
proof -
  define a where "a = snd (tim_task_add 1 (Some ''fake_pulse_task'') 66667 True False 1 s)"
  define b where "b = snd (tim_task_add 2 (Some ''motor_sim_task'') 10000 True False 2 a)"
  define c where "c = snd (tim_task_add 3 (Some ''pid_task'') 10000 True False 3 b)"
  have i: "(66667 :: u32) \<le> 3600000000" "(10000 :: u32) \<le> 3600000000" by (simp_all add: word_le_nat_alt)
  have a: "timers_wf a" "tim_task_init a" "priority_heads a = [[], [1], []]" "tim_task_head a = [1]" "\<not> fault a" "env a = env s"
    "tasks a = (tasks s)(1 := added_task (Some ''fake_pulse_task'') 66667 True False 1 s)"
    using add_fields [of 1 1 66667 "Some ''fake_pulse_task''" True False s, folded a_def] i assms
      wf_add(1) [OF assms(1), of 1 "Some ''fake_pulse_task''" 66667 True False 1, folded a_def]
    by (simp_all add: timers_ready_def numeral_3_eq_3 del: One_nat_def) (simp add: a_def tim_task_add_def Let_def)
  note b = added_ok [OF a(1,2,3), of 2 10000 "Some ''motor_sim_task''", folded b_def]
  note c = added_ok [of b "[1, 2]" 3 10000 "Some ''pid_task''", folded c_def]
  have "machine_ok c"
    using a b c i assms
    by (simp add: machine_ok_def started_def del: One_nat_def)
  then show ?thesis by (simp add: add_tasks_def a_def b_def c_def Let_def)
qed

lemma alloc_machine_ok:
  assumes st: "site_ok st"
    and alloc: "pov_stator_alloc st stator_mem port_mem has_ops mav_mem hall_mem w (timers_boot ()) = (Inr (Some s), w')"
  shows "machine_ok s"
proof -
  obtain port w1 dev h where p: "serial_port_alloc port_mem has_ops (port_board (site_link st)) w = (Inr port, w1)"
    and d: "mavlink_init (site_link st) mav_mem port 2 1 = Some dev"
    and s: "s = add_tasks (timers_for (new_stator st dev h w1) (timers_boot ()))"
    using alloc by (auto simp: pov_stator_alloc_def split: if_splits prod.splits sum.splits option.splits)
  have z: "port_ok (blank_port\<lparr>producer := 0, consumer := 0\<rparr>)" using blank_port_ok by (simp add: port_ok_def)
  have "port_ok port"
    using p site_okD(3) [OF st z, of w]
    by (simp add: serial_port_alloc_def blank_port_def split_beta split: if_splits)
  then have "dev_ok dev" using init_ok [OF d] by simp
  moreover have "timers_wf (timers_for x (timers_boot ()))" for x :: "('a, 'b, 'c, 'd) pov_stator"
    by (simp add: timers_for_def timers_boot_def timers_wf_def linked_def)
  ultimately show ?thesis unfolding s
    by (intro add_tasks_ok) (simp_all add: timers_for_def timers_boot_def new_stator_ok new_stator_state)
qed

section \<open>Properties\<close>

text \<open>C35: the main loop of the stator never gets stuck.  From the allocation, in whatever order rounds of the loop,
capture interrupts and hardware activity on the port come, every round returns; no callback divides by zero or waits
forever, and no list node is followed after it was unlinked, although the motor callback moves the pulse task
between the lists while the scheduler walks through them.\<close>

theorem stator_never_stuck:
  assumes "site_ok st"
    and "pov_stator_alloc st stator_mem port_mem has_ops mav_mem hall_mem w (timers_boot ()) = (Inr (Some s), w')"
    and "list_all port_preserving es"
  shows "\<exists>s'. stator_run st es s = Some s' \<and> \<not> fault s' \<and> timers_wf s' \<and>
    tim_task_head s' = (if stator_state (env s') \<in> {STATOR_INIT, STATOR_TUNING_MOTOR}
      then [fake_pulse_task, sim_task, pid_task]
      else [fake_pulse_task, sim_task, pid_task, heartbeat_task, process_cmd_task])"
  using stator_run_ok [OF assms(1) alloc_machine_ok [OF assms(1,2)] assms(3)] by (auto simp: machine_ok_def started_def)

definition demo_site :: "(mav_msg, unit, unit, unit) site" where
  "demo_site = \<lparr>site_link = ack_link, site_kalman = \<lparr>kf_init = (), kf_estimate = (\<lambda>_. 66667), kf_step = (\<lambda>_ _ _. ()), kf_rounded = (\<lambda>_. 66667)\<rparr>,
     f_create = (\<lambda>_ w. (True, w)), f_write = (\<lambda>_ w. ((True, 160), w)), f_close = (\<lambda>w. w), system_reset = None,
     pulse_pins = (\<lambda>w. w), sync_pin = (\<lambda>w. w), print_delay = (\<lambda>s. s), ktime_get = (\<lambda>_. 10000000)\<rparr>"

lemma demo_site_ok: "site_ok demo_site"
  using ack_link_ok by (simp add: site_ok_def demo_site_def) (simp add: ack_link_def sim_board_def)

lemma demo_alloc:
  "\<exists>s. pov_stator_alloc demo_site True True True True True () (timers_boot ()) = (Inr (Some s), ())"
  by (simp add: pov_stator_alloc_def serial_port_alloc_def mavlink_init_def hall_alloc_dev_def split_beta)

theorem stator_never_stuck_witness:
  "\<exists>s s'. pov_stator_alloc demo_site True True True True True () (timers_boot ()) = (Inr (Some s), ()) \<and>
     stator_run demo_site [Round, Capture 66667, Hardware (\<lambda>x. x), Round] s = Some s' \<and> \<not> fault s'"
proof -
  obtain s where s: "pov_stator_alloc demo_site True True True True True () (timers_boot ()) = (Inr (Some s), ())"
    using demo_alloc by blast
  have "list_all port_preserving [Round, Capture 66667, Hardware (\<lambda>x. x), Round :: unit stator_event]"
    by (simp add: port_preserving_def)
  from stator_never_stuck [OF demo_site_ok s this] s show ?thesis by blast
qed

text \<open>C36: the motor is safe.  In every state that such a run reaches, the duty cycle is at most 10000 and the speed at
most 3000 rpm in either direction, the controller's output is within its limits, and before the tuning, while the
stator waits for the rotor and after a safe stop the duty cycle is zero.\<close>

theorem stator_motor_safe:
  assumes "site_ok st"
    and "pov_stator_alloc st stator_mem port_mem has_ops mav_mem hall_mem w (timers_boot ()) = (Inr (Some s), w')"
    and "list_all port_preserving es" "stator_run st es s = Some s'"
  shows "pwm_duty (motor (env s')) \<le> 10000 \<and> \<bar>measured_rpm (motor (env s'))\<bar> \<le> 3000 \<and>
    p_out_min (stator_pid (env s')) \<le> p_prev_output (stator_pid (env s')) \<and>
    p_prev_output (stator_pid (env s')) \<le> p_out_max (stator_pid (env s')) \<and>
    (stator_state (env s') \<in> {STATOR_INIT, STATOR_WAIT_ROTOR, STATOR_SAFE_STOP} \<longrightarrow> pwm_duty (motor (env s')) = 0)"
proof -
  have "stator_ok (env s')"
    using stator_run_ok [OF assms(1) alloc_machine_ok [OF assms(1,2)] assms(3)] assms(4) by (auto simp: machine_ok_def)
  then show ?thesis using measured_range [of "motor (env s')"]
    by (simp add: stator_ok_def Motor_Correct.motor_ok_def pid_ready_def pid_ok_def)
qed

theorem stator_motor_safe_witness:
  "\<exists>s s'. pov_stator_alloc demo_site True True True True True () (timers_boot ()) = (Inr (Some s), ()) \<and>
     stator_run demo_site [Capture 66667] s = Some s' \<and> pwm_duty (motor (env s')) \<le> 10000"
proof -
  obtain s where s: "pov_stator_alloc demo_site True True True True True () (timers_boot ()) = (Inr (Some s), ())"
    using demo_alloc by blast
  have r: "stator_run demo_site [Capture 66667] s = Some (upd_env (capture_callback demo_site 66667) s)" by simp
  have "list_all port_preserving [Capture 66667 :: unit stator_event]" by (simp add: port_preserving_def)
  from stator_motor_safe [OF demo_site_ok s this r] s r show ?thesis by blast
qed

subsection \<open>Supervision of the link\<close>

lemma send_rx: "mavlink_send_encoded_data lk m (dev, w) = Some (r, dev', w') \<Longrightarrow> rx_count dev' = rx_count dev"
  by (erule sendE) simp

definition follows :: "('m, 'p, 'k, 'w) pov_stator \<Rightarrow> ('m, 'p, 'k, 'w) pov_stator \<Rightarrow> bool" where
  "follows x y \<longleftrightarrow> rx_count (mavlink y) = rx_count (mavlink x) \<and> motor y = motor x"

lemma reply_follows: "reply (mavlink_send_encoded_data lk m (mavlink x, world x)) x = Some y \<Longrightarrow> follows x y"
  using send_rx [of lk m "mavlink x" "world x"] by (auto simp: reply_def follows_def)

lemma handle_message_follows:
  assumes "handle_message st x = Some y"
  shows "follows x y"
  using assms reply_follows [of "site_link st" _ x y]
  by (auto simp: handle_message_def Let_def mavlink_send_motor_ack_def mavlink_send_motor_status_def set_stator_state_def
      follows_def split: mav_msg.splits if_splits prod.splits)

lemma note_rotor_follows: "follows x (note_rotor st x)"
  by (simp add: follows_def note_rotor_def Let_def set_stator_state_def printing_def split_beta)

lemma process_follows:
  assumes "process_motor_commands st x = Some y"
  shows "motor y = motor x" "rx_count (mavlink y) = rx_count (mavlink x) \<Longrightarrow> stator_state y = stator_state x"
proof -
  obtain n dev w where a: "data_available (mavlink x, world x) = (n, dev, w)" by (metis prod_cases3)
  obtain dev' w' where p: "(if rx_count dev' > rx_count (mavlink x) then handle_message st (note_rotor st (x\<lparr>mavlink := dev', world := w'\<rparr>))
      else if rx_count dev' = rx_count (mavlink x) then Some (x\<lparr>mavlink := dev', world := w'\<rparr>)
      else handle_message st (x\<lparr>mavlink := dev', world := w'\<rparr>)) = Some y"
    using assms by (auto simp: process_motor_commands_def a Let_def bind_eq_Some_conv)
  note h = handle_message_follows note_rotor_follows [of "x\<lparr>mavlink := dev', world := w'\<rparr>" st]
  show "motor y = motor x" "rx_count (mavlink y) = rx_count (mavlink x) \<Longrightarrow> stator_state y = stator_state x"
    using p h by (fastforce simp: follows_def split: if_splits)+
qed


definition late_site :: "(mav_msg, unit, unit, unit) site" where
  "late_site = demo_site\<lparr>site_link := ack_link\<lparr>get_ms := (\<lambda>_. 20000)\<rparr>\<rparr>"


subsection \<open>Tuning\<close>

text \<open>Ticks of the control task, with the speeds that are measured at them.\<close>

fun control_ticks :: "int list \<Rightarrow> ('m, 'p, 'k, 'w) pov_stator \<Rightarrow> ('m, 'p, 'k, 'w) pov_stator option" where
  "control_ticks [] x = Some x"
| "control_ticks (m # ms) x =
     Option.bind (control_motor (x\<lparr>motor := (motor x)\<lparr>measured_rpm := m\<rparr>\<rparr>)) (control_ticks ms)"

lemma control_tick:
  assumes "stator_state x = STATOR_TUNING_MOTOR" "tuning (relay_tuner x)"
  shows "\<exists>y. control_motor x = Some y \<and> stator_state y = STATOR_TUNING_MOTOR \<and> tuning (relay_tuner y) \<and>
    mavlink y = mavlink x \<and>
    (rt_state (relay_tuner y) = RELAY_RUNNING \<longrightarrow>
       unat (rt_sample_count (relay_tuner y)) = unat (rt_sample_count (relay_tuner x)) + 1)"
proof (cases "rt_state (relay_tuner x) = RELAY_RUNNING")
  case True
  obtain u t c where r: "pid_relay_update (relay_tuner x) (stator_pid x) (measured_rpm (motor x)) = Some (u, t, c)" "tuning t"
    "rt_state t = RELAY_RUNNING \<longrightarrow> unat (rt_sample_count t) = unat (rt_sample_count (relay_tuner x)) + 1"
    using relay_update_step [OF assms(2), of "stator_pid x" "measured_rpm (motor x)"] by blast
  then show ?thesis using True assms(1) by (simp add: control_motor_def Let_def)
next
  case False
  then show ?thesis using assms by (auto simp: control_motor_def Let_def split_beta)
qed

lemma control_ticks_end:
  "stator_state x = STATOR_TUNING_MOTOR \<Longrightarrow> tuning (relay_tuner x) \<Longrightarrow>
   \<exists>y. control_ticks ms x = Some y \<and> stator_state y = STATOR_TUNING_MOTOR \<and> tuning (relay_tuner y) \<and> mavlink y = mavlink x \<and>
     (rt_state (relay_tuner y) = RELAY_RUNNING \<longrightarrow> length ms + unat (rt_sample_count (relay_tuner x)) \<le> 1000)"
proof (induction ms arbitrary: x)
  case Nil
  then show ?case by (auto simp: tuning_def relay_inv_def)
next
  case (Cons m ms)
  let ?x = "x\<lparr>motor := (motor x)\<lparr>measured_rpm := m\<rparr>\<rparr>"
  obtain y where y: "control_motor ?x = Some y" "stator_state y = STATOR_TUNING_MOTOR" "tuning (relay_tuner y)" "mavlink y = mavlink x"
    "rt_state (relay_tuner y) = RELAY_RUNNING \<longrightarrow> unat (rt_sample_count (relay_tuner y)) = unat (rt_sample_count (relay_tuner x)) + 1"
    using control_tick [of ?x] Cons.prems by auto
  obtain z where z: "control_ticks ms y = Some z" "stator_state z = STATOR_TUNING_MOTOR" "tuning (relay_tuner z)" "mavlink z = mavlink y"
    "rt_state (relay_tuner z) = RELAY_RUNNING \<longrightarrow> length ms + unat (rt_sample_count (relay_tuner y)) \<le> 1000"
    using Cons.IH [OF y(2,3)] by blast
  have "rt_state (relay_tuner y) = RELAY_RUNNING" if "rt_state (relay_tuner z) = RELAY_RUNNING"
    using that z(1) y(2,3)
  proof (induction ms arbitrary: y)
    case (Cons n ns)
    then obtain v where "control_motor (y\<lparr>motor := (motor y)\<lparr>measured_rpm := n\<rparr>\<rparr>) = Some v" "control_ticks ns v = Some z"
      by (auto simp: bind_eq_Some_conv)
    then show ?case using Cons control_tick [of "y\<lparr>motor := (motor y)\<lparr>measured_rpm := n\<rparr>\<rparr>"]
      by (auto simp: control_motor_def Let_def split_beta split: if_splits)
  qed simp
  then show ?case using y z by auto
qed

text \<open>C38: tuning comes to an end.  Once the relay experiment runs, more than a thousand ticks of the control task,
whatever speeds are measured, all return and leave the tuner done or failed; the next step of the state machine stops
the motor, clears the target speed, starts the heartbeat and command tasks and waits for the rotor.\<close>

theorem tuning_ends:
  assumes "stator_state x = STATOR_TUNING_MOTOR" "tuning (relay_tuner x)" "1000 < length ms"
    "length (motors (mavlink x)) = MAVLINK_MOTOR_COUNT"
  shows "\<exists>y. control_ticks ms x = Some y \<and> rt_state (relay_tuner y) \<in> {RELAY_DONE, RELAY_FAILED} \<and>
    (\<forall>s st. env s = y \<longrightarrow> (let s' = pov_stator_fsm st s in
       stator_state (env s') = STATOR_WAIT_ROTOR \<and> pwm_duty (motor (env s')) = 0 \<and>
       target_speed (motors (mavlink (env s')) ! 0) = 0 \<and>
       tim_task_head s' = tim_task_head s @ [heartbeat_task, process_cmd_task]))"
proof -
  obtain y where y: "control_ticks ms x = Some y" "stator_state y = STATOR_TUNING_MOTOR" "tuning (relay_tuner y)" "mavlink y = mavlink x"
    "rt_state (relay_tuner y) = RELAY_RUNNING \<longrightarrow> length ms + unat (rt_sample_count (relay_tuner x)) \<le> 1000"
    using control_ticks_end [OF assms(1,2), of ms] by blast
  have r: "rt_state (relay_tuner y) \<noteq> RELAY_RUNNING" "rt_state (relay_tuner y) \<noteq> RELAY_IDLE"
    using y assms(3) by (auto simp: tuning_def)
  then have d: "rt_state (relay_tuner y) \<in> {RELAY_DONE, RELAY_FAILED}" by (cases "rt_state (relay_tuner y)") simp_all
  have env: "env (snd (tim_task_add t n i al sc cb s)) = env s" for t n i al sc cb and s :: "('a, 'b, 'c, 'd) machine"
    by (simp add: tim_task_add_def Let_def)
  have i: "(5000000 :: u32) \<le> 3600000000" "(100000 :: u32) \<le> 3600000000" by (simp_all add: word_le_nat_alt)
  have "let s' = pov_stator_fsm st s in
       stator_state (env s') = STATOR_WAIT_ROTOR \<and> pwm_duty (motor (env s')) = 0 \<and>
       target_speed (motors (mavlink (env s')) ! 0) = 0 \<and>
       tim_task_head s' = tim_task_head s @ [heartbeat_task, process_cmd_task]" if "env s = y" for s st
    using that y(2,4) r assms(4) i
    by (simp add: pov_stator_fsm_def Let_def finish_tuning_def upd_env_def env add_fields(2) set_stator_state_def set_target_speed_def)
  then show ?thesis using y(1) d by blast
qed

theorem tuning_ends_witness:
  "\<exists>s y. pov_stator_alloc demo_site True True True True True () (timers_boot ()) = (Inr (Some s), ()) \<and>
     control_ticks (replicate 1001 0) ((env s)\<lparr>stator_state := STATOR_TUNING_MOTOR,
       relay_tuner := pid_relay_start (relay_tuner (env s)) (stator_pid (env s))\<rparr>) = Some y \<and>
     rt_state (relay_tuner y) \<in> {RELAY_DONE, RELAY_FAILED}"
proof -
  obtain s where s: "pov_stator_alloc demo_site True True True True True () (timers_boot ()) = (Inr (Some s), ())"
    using demo_alloc by blast
  define x where "x = (env s)\<lparr>stator_state := STATOR_TUNING_MOTOR,
       relay_tuner := pid_relay_start (relay_tuner (env s)) (stator_pid (env s))\<rparr>"
  have ok: "stator_ok (env s)" using alloc_machine_ok [OF demo_site_ok s] by (simp add: machine_ok_def)
  then have "relay_ok (relay_tuner x)" by (simp add: x_def stator_ok_def relay_start_ok)
  moreover have "rt_state (relay_tuner x) = RELAY_RUNNING"
    using ok by (simp add: x_def pid_relay_start_def stator_ok_def relay_ok_def)
  ultimately have t: "tuning (relay_tuner x)" by (simp add: tuning_def relay_ok_def)
  have q: "stator_state x = STATOR_TUNING_MOTOR" "length (motors (mavlink x)) = 4"
    using ok by (simp_all add: x_def stator_ok_def dev_ok_def)
  have l: "1000 < length (replicate 1001 (0 :: int))" by (simp only: length_replicate)
  from tuning_ends [OF q(1) t l q(2)] s show ?thesis unfolding x_def by blast
qed

subsection \<open>Commands from the rotor\<close>

text \<open>C39: the answer to a motor command agrees with what the command did.  When the last message is a motor command,
the stator sends one acknowledgement; the requester's check of it gives 0 exactly when the command was accepted and
changed the target speeds, and otherwise \<open>- EINVAL\<close>, and the command then changed nothing.\<close>

theorem motor_command_answer:
  assumes "decode (site_link st) (raw_id (site_link st) (rx_msg (mavlink x))) (rx_msg (mavlink x)) = Motor_control target v direction"
  shows "\<exists>ack. handle_message st x = reply (mavlink_send_encoded_data (site_link st) ack (mavlink x, world x)) x \<and>
    motor_ack_verdict target ack = (if motor_control_ok target direction then 0 else - EINVAL) \<and>
    (\<forall>dev w. dispatch (site_link st) (Motor_control target v direction) (dev, w) =
       Some (if motor_ack_verdict target ack = 0 then (set_targets target v direction dev, w) else (dev, w)))"
proof -
  define ack where "ack = (if motor_control_ok target direction then Motor_ack (if target = 255 then 0 else target) MAV_ACK_RESULT_OK
     else Motor_ack target MAV_ACK_RESULT_INVALID_PARAM)"
  have h: "handle_message st x = reply (mavlink_send_encoded_data (site_link st) ack (mavlink x, world x)) x"
    using assms by (auto simp: handle_message_def Let_def ack_def motor_control_ok_def mavlink_send_motor_ack_def)
  have v: "motor_ack_verdict target ack = (if motor_control_ok target direction then 0 else - EINVAL)"
    by (auto simp: ack_def motor_ack_verdict_def)
  show ?thesis by (rule exI [of _ ack]) (use h v in simp)
qed

theorem motor_command_answer_witness:
  "\<exists>s ack. pov_stator_alloc demo_site True True True True True () (timers_boot ()) = (Inr (Some s), ()) \<and>
     handle_message demo_site ((env s)\<lparr>mavlink := (mavlink (env s))\<lparr>rx_msg := Motor_control 7 300 1\<rparr>\<rparr>)
       = reply (mavlink_send_encoded_data (site_link demo_site) ack ((mavlink (env s))\<lparr>rx_msg := Motor_control 7 300 1\<rparr>, world (env s)))
           ((env s)\<lparr>mavlink := (mavlink (env s))\<lparr>rx_msg := Motor_control 7 300 1\<rparr>\<rparr>) \<and>
     motor_ack_verdict 7 ack = - EINVAL"
proof -
  obtain s where s: "pov_stator_alloc demo_site True True True True True () (timers_boot ()) = (Inr (Some s), ())"
    using demo_alloc by blast
  define x where "x = (env s)\<lparr>mavlink := (mavlink (env s))\<lparr>rx_msg := Motor_control 7 300 1\<rparr>\<rparr>"
  have d: "decode (site_link demo_site) (raw_id (site_link demo_site) (rx_msg (mavlink x))) (rx_msg (mavlink x)) = Motor_control 7 300 1"
    by (simp add: x_def demo_site_def ack_link_def)
  have "\<not> motor_control_ok 7 1" by (simp add: motor_control_ok_def)
  then obtain ack where "handle_message demo_site x = reply (mavlink_send_encoded_data (site_link demo_site) ack (mavlink x, world x)) x"
    "motor_ack_verdict 7 ack = - EINVAL"
    using motor_command_answer [OF d] by auto
  then show ?thesis using s by (intro exI [of _ s] exI [of _ ack]) (simp add: x_def)
qed

end
