(* ===== verification/Blend.thy ===== *)
theory Blend
  imports Tlc5971
begin

text \<open>
  The compositing of picture layers, \<^verbatim>\<open>projects/persistence-of-vision/blend.c\<close> and \<^verbatim>\<open>blend.h\<close>: the
  Porter-Duff operators on pixels, the check of a layer file, and the loop that reads a column of every
  layer, composes them and writes the column in the format of the LED drivers.  The file system is the
  functions of \<open>layer_files\<close> over a state \<open>'w\<close>; a file is a number, the one of its layer, and 4 is the
  file that is written.
\<close>

section \<open>Pixels\<close>

record rgba_pixel =
  blue :: u8
  green :: u8
  red :: u8
  alpha :: u8

datatype pov_porter_duff_mode =
    POV_PD_CLEAR | POV_PD_SRC | POV_PD_DST | POV_PD_SRC_OVER | POV_PD_DST_OVER | POV_PD_SRC_IN | POV_PD_DST_IN
  | POV_PD_SRC_OUT | POV_PD_DST_OUT | POV_PD_SRC_ATOP | POV_PD_DST_ATOP | POV_PD_XOR | POV_PD_PLUS | POV_PD_MODE_COUNT

text \<open>The product of a channel and a factor, shifted right by eight, in the type \<open>int\<close> of C.\<close>

definition q8 :: "int \<Rightarrow> int \<Rightarrow> int" where
  "q8 c f = asr (c * f) 8"

text \<open>The 16-bit results for a colour channel and for alpha, before they are clamped and stored.  The first three
operators return earlier.\<close>

fun wide_channel :: "pov_porter_duff_mode \<Rightarrow> int \<Rightarrow> int \<Rightarrow> int \<Rightarrow> int \<Rightarrow> int \<Rightarrow> int \<Rightarrow> u16" where
  "wide_channel POV_PD_DST_OVER sa da inv_sa inv_da s d = of_int (d + q8 s inv_da)"
| "wide_channel POV_PD_SRC_IN sa da inv_sa inv_da s d = of_int (q8 s da)"
| "wide_channel POV_PD_DST_IN sa da inv_sa inv_da s d = of_int (q8 d sa)"
| "wide_channel POV_PD_SRC_OUT sa da inv_sa inv_da s d = of_int (q8 s inv_da)"
| "wide_channel POV_PD_DST_OUT sa da inv_sa inv_da s d = of_int (q8 d inv_sa)"
| "wide_channel POV_PD_SRC_ATOP sa da inv_sa inv_da s d = of_int (q8 s da + q8 d inv_sa)"
| "wide_channel POV_PD_DST_ATOP sa da inv_sa inv_da s d = of_int (q8 d sa + q8 s inv_da)"
| "wide_channel POV_PD_XOR sa da inv_sa inv_da s d = of_int (q8 s inv_da + q8 d inv_sa)"
| "wide_channel POV_PD_PLUS sa da inv_sa inv_da s d = of_int (s + d)"
| "wide_channel _ sa da inv_sa inv_da s d = of_int (s + q8 d inv_sa)"

fun wide_alpha :: "pov_porter_duff_mode \<Rightarrow> int \<Rightarrow> int \<Rightarrow> int \<Rightarrow> int \<Rightarrow> u16" where
  "wide_alpha POV_PD_DST_OVER sa da inv_sa inv_da = of_int (da + q8 sa inv_da)"
| "wide_alpha POV_PD_SRC_IN sa da inv_sa inv_da = of_int (q8 sa da)"
| "wide_alpha POV_PD_DST_IN sa da inv_sa inv_da = of_int (q8 da sa)"
| "wide_alpha POV_PD_SRC_OUT sa da inv_sa inv_da = of_int (q8 sa inv_da)"
| "wide_alpha POV_PD_DST_OUT sa da inv_sa inv_da = of_int (q8 da inv_sa)"
| "wide_alpha POV_PD_SRC_ATOP sa da inv_sa inv_da = of_int da"
| "wide_alpha POV_PD_DST_ATOP sa da inv_sa inv_da = of_int sa"
| "wide_alpha POV_PD_XOR sa da inv_sa inv_da = of_int (sa + da - asr (sa * da) 7)"
| "wide_alpha POV_PD_PLUS sa da inv_sa inv_da = of_int (sa + da)"
| "wide_alpha _ sa da inv_sa inv_da = of_int (sa + q8 da inv_sa)"

definition clamp_store :: "u16 \<Rightarrow> u8" where
  "clamp_store v = ucast (if v > 255 then 255 else v)"

definition porter_duff_composite_pixel :: "rgba_pixel \<Rightarrow> rgba_pixel \<Rightarrow> pov_porter_duff_mode \<Rightarrow> rgba_pixel" where
  "porter_duff_composite_pixel dst src mode =
     (let sa = uint (alpha src);
          da = uint (alpha dst);
          inv_sa = uint (of_int (256 - sa) :: u16);
          inv_da = uint (of_int (256 - da) :: u16);
          chan = (\<lambda>c. clamp_store (wide_channel mode sa da inv_sa inv_da (uint (c src)) (uint (c dst))))
      in case mode of
           POV_PD_CLEAR \<Rightarrow> \<lparr>blue = 0, green = 0, red = 0, alpha = 0\<rparr>
         | POV_PD_SRC \<Rightarrow> src
         | POV_PD_DST \<Rightarrow> dst
         | _ \<Rightarrow> \<lparr>blue = chan blue, green = chan green, red = chan red,
                 alpha = clamp_store (wide_alpha mode sa da inv_sa inv_da)\<rparr>)"

definition porter_duff_apply_global_alpha :: "rgba_pixel \<Rightarrow> u8 \<Rightarrow> rgba_pixel" where
  "porter_duff_apply_global_alpha pixel global_alpha =
     (if global_alpha \<ge> 255 then pixel
      else pixel\<lparr>alpha := of_int (q8 (uint (alpha pixel)) (uint global_alpha))\<rparr>)"

section \<open>Layer files\<close>

record pov_image_header =
  hdr_magic :: u32
  hdr_version :: u16
  columns :: u16
  leds_per_group :: u16
  spi_groups :: u8
  payload_format :: u8
  bytes_per_col :: u16

abbreviation POV_IMG_MAGIC :: u32 where "POV_IMG_MAGIC \<equiv> 0x504F5621"
abbreviation POV_IMG_VERSION :: u16 where "POV_IMG_VERSION \<equiv> 2"
abbreviation POV_PAYLOAD_RAW_RGB :: u8 where "POV_PAYLOAD_RAW_RGB \<equiv> 1"
abbreviation POV_PAYLOAD_LED_DRIVER :: u8 where "POV_PAYLOAD_LED_DRIVER \<equiv> 2"
abbreviation POV_IMAGE_HEADER_SIZE :: nat where "POV_IMAGE_HEADER_SIZE \<equiv> 16"
abbreviation POV_LED_COUNT :: nat where "POV_LED_COUNT \<equiv> 256"
abbreviation POV_SPI_GROUPS :: nat where "POV_SPI_GROUPS \<equiv> 4"
abbreviation POV_LEDS_PER_GROUP :: nat where "POV_LEDS_PER_GROUP \<equiv> 64"
abbreviation POV_BYTES_PER_COL :: nat where "POV_BYTES_PER_COL \<equiv> 768"
abbreviation POV_LED_DRIVER_IC_PER_GROUP :: nat where "POV_LED_DRIVER_IC_PER_GROUP \<equiv> 16"
abbreviation POV_LED_DRIVER_COL_BYTES :: nat where "POV_LED_DRIVER_COL_BYTES \<equiv> 1792"

definition pov_image_header_init :: "u8 \<Rightarrow> u16 \<Rightarrow> u16 \<Rightarrow> pov_image_header" where
  "pov_image_header_init format stride cols =
     \<lparr>hdr_magic = POV_IMG_MAGIC, hdr_version = POV_IMG_VERSION, columns = cols, leds_per_group = of_nat POV_LEDS_PER_GROUP,
      spi_groups = of_nat POV_SPI_GROUPS, payload_format = format, bytes_per_col = stride\<rparr>"

definition validate_raw_layer_file :: "nat \<Rightarrow> pov_image_header \<Rightarrow> bool \<Rightarrow> int" where
  "validate_raw_layer_file file_size header require_display_cols =
     (if hdr_magic header \<noteq> POV_IMG_MAGIC then - EINVAL
      else if leds_per_group header \<noteq> of_nat POV_LEDS_PER_GROUP \<or> spi_groups header \<noteq> of_nat POV_SPI_GROUPS \<or>
              (require_display_cols \<and> columns header \<noteq> 720) then - EINVAL
      else if hdr_version header \<noteq> POV_IMG_VERSION \<and> hdr_version header \<noteq> 1 then - EINVAL
      else if hdr_version header = POV_IMG_VERSION \<and>
              (payload_format header \<noteq> POV_PAYLOAD_RAW_RGB \<or> bytes_per_col header \<noteq> of_nat POV_BYTES_PER_COL) then - EINVAL
      else if file_size < POV_IMAGE_HEADER_SIZE then - EINVAL
      else if file_size - POV_IMAGE_HEADER_SIZE \<noteq> unat (columns header) * unat (bytes_per_col header) then - EINVAL
      else 0)"

record 'w layer_files =
  lf_read :: "nat \<Rightarrow> nat \<Rightarrow> 'w \<Rightarrow> (bool \<times> u8 list) \<times> 'w"
  lf_lseek :: "nat \<Rightarrow> nat \<Rightarrow> 'w \<Rightarrow> 'w"
  lf_write :: "nat \<Rightarrow> u8 list \<Rightarrow> 'w \<Rightarrow> (bool \<times> nat) \<times> 'w"

definition read_column :: "'w layer_files \<Rightarrow> nat \<Rightarrow> nat \<Rightarrow> 'w \<Rightarrow> (int + u8 list) \<times> 'w" where
  "read_column fs fp first_frame w =
     (case lf_read fs fp POV_BYTES_PER_COL w of ((ok, buf), w) \<Rightarrow>
        if \<not> ok then (Inl (- EIO), w)
        else if length buf = 0
        then (case lf_read fs fp POV_BYTES_PER_COL (lf_lseek fs fp first_frame w) of ((ok, buf), w) \<Rightarrow>
                if \<not> ok \<or> length buf \<noteq> POV_BYTES_PER_COL then (Inl (- EIO), w) else (Inr buf, w))
        else if length buf \<noteq> POV_BYTES_PER_COL then (Inl (- EIO), w)
        else (Inr buf, w))"

section \<open>Columns\<close>

definition rgb_to_rgba_col :: "u8 list \<Rightarrow> rgba_pixel list" where
  "rgb_to_rgba_col rgb = map (\<lambda>px. \<lparr>blue = rgb ! (px * 3 + 2), green = rgb ! (px * 3 + 1), red = rgb ! (px * 3), alpha = 255\<rparr>)
     [0..<POV_LED_COUNT]"

definition rgb_to_rgb_col :: "rgba_pixel list \<Rightarrow> u8 list" where
  "rgb_to_rgb_col rgba = concat (map (\<lambda>px. [red (rgba ! px), green (rgba ! px), blue (rgba ! px)]) [0..<POV_LED_COUNT])"

text \<open>The chips of a group are written in reverse order, because the first one on the wire is the farthest.\<close>

definition driver_chip :: "rgba_pixel list \<Rightarrow> nat \<Rightarrow> nat \<Rightarrow> u8 list" where
  "driver_chip rgba grp ic =
     (let base = grp * POV_LEDS_PER_GROUP + ic * TLC5971_LEDS_PER_DEVICE;
          gs = (\<lambda>c. map (\<lambda>l. tlc5971_rgb8_to_gs (c (rgba ! (base + l)))) [0..<TLC5971_LEDS_PER_DEVICE])
      in tlc5971_pack_chip (gs red) (gs green) (gs blue))"

definition rgba_to_led_driver_col :: "rgba_pixel list \<Rightarrow> u8 list" where
  "rgba_to_led_driver_col rgba =
     concat (map (\<lambda>grp. concat (map (\<lambda>wire_ic. driver_chip rgba grp (POV_LED_DRIVER_IC_PER_GROUP - 1 - wire_ic))
       [0..<POV_LED_DRIVER_IC_PER_GROUP])) [0..<POV_SPI_GROUPS])"

definition over_col :: "rgba_pixel list \<Rightarrow> rgba_pixel list \<Rightarrow> rgba_pixel list" where
  "over_col rgba_dst rgba_src = map2 (\<lambda>d s. porter_duff_composite_pixel d s POV_PD_SRC_OVER) rgba_dst rgba_src"

text \<open>The loop over the layers that are open.\<close>

fun compose_open :: "'w layer_files \<Rightarrow> nat list \<Rightarrow> rgba_pixel list \<Rightarrow> 'w \<Rightarrow> (int + rgba_pixel list) \<times> 'w" where
  "compose_open fs [] rgba_dst w = (Inr rgba_dst, w)"
| "compose_open fs (i # is) rgba_dst w =
     (case read_column fs i POV_IMAGE_HEADER_SIZE w of
        (Inl e, w) \<Rightarrow> (Inl e, w)
      | (Inr rgb_buf, w) \<Rightarrow> compose_open fs is (over_col rgba_dst (rgb_to_rgba_col rgb_buf)) w)"

text \<open>The loop over the columns; \<open>ret\<close> is the value that the function returns so far, and the flag tells
whether the file is complete, so that it is not unlinked.\<close>

fun compose_columns :: "'w layer_files \<Rightarrow> nat list \<Rightarrow> nat \<Rightarrow> int \<Rightarrow> 'w \<Rightarrow> (int \<times> bool) \<times> 'w" where
  "compose_columns fs layers 0 ret w = ((ret, True), w)"
| "compose_columns fs layers (Suc n) ret w =
     (case read_column fs 0 POV_IMAGE_HEADER_SIZE w of
        (Inl e, w) \<Rightarrow> ((ret, False), w)
      | (Inr rgb_buf, w) \<Rightarrow>
          (case compose_open fs layers (rgb_to_rgba_col rgb_buf) w of
             (Inl e, w) \<Rightarrow> ((ret, False), w)
           | (Inr rgba_dst, w) \<Rightarrow>
               (case lf_write fs 4 (rgba_to_led_driver_col rgba_dst) w of ((ok, bw), w) \<Rightarrow>
                  if \<not> ok \<or> bw \<noteq> POV_LED_DRIVER_COL_BYTES then ((- EACCES, False), w)
                  else compose_columns fs layers n ret w)))"

end
