(* ===== verification/Blend_Correct.thy ===== *)
theory Blend_Correct
  imports Blend
begin

text \<open>
  The properties of the compositing: the operators compute the Porter-Duff formulas without overflow, and what
  the loop makes of a column.
\<close>

section \<open>Pixels\<close>

text \<open>The factors of the Porter-Duff algebra, in units of 1/256: the share of the source and of the destination.\<close>

fun pd_factors :: "pov_porter_duff_mode \<Rightarrow> int \<Rightarrow> int \<Rightarrow> int \<times> int" where
  "pd_factors POV_PD_CLEAR sa da = (0, 0)"
| "pd_factors POV_PD_SRC sa da = (256, 0)"
| "pd_factors POV_PD_DST sa da = (0, 256)"
| "pd_factors POV_PD_SRC_OVER sa da = (256, 256 - sa)"
| "pd_factors POV_PD_DST_OVER sa da = (256 - da, 256)"
| "pd_factors POV_PD_SRC_IN sa da = (da, 0)"
| "pd_factors POV_PD_DST_IN sa da = (0, sa)"
| "pd_factors POV_PD_SRC_OUT sa da = (256 - da, 0)"
| "pd_factors POV_PD_DST_OUT sa da = (0, 256 - sa)"
| "pd_factors POV_PD_SRC_ATOP sa da = (da, 256 - sa)"
| "pd_factors POV_PD_DST_ATOP sa da = (256 - da, sa)"
| "pd_factors POV_PD_XOR sa da = (256 - da, 256 - sa)"
| "pd_factors POV_PD_PLUS sa da = (256, 256)"
| "pd_factors POV_PD_MODE_COUNT sa da = (256, 256 - sa)"

definition pd_mix :: "pov_porter_duff_mode \<Rightarrow> int \<Rightarrow> int \<Rightarrow> int \<Rightarrow> int \<Rightarrow> int" where
  "pd_mix mode sa da s d = (case pd_factors mode sa da of (fs, fd) \<Rightarrow> min 255 (s * fs div 256 + d * fd div 256))"

definition pd_alpha :: "pov_porter_duff_mode \<Rightarrow> int \<Rightarrow> int \<Rightarrow> int" where
  "pd_alpha mode sa da = (case mode of
     POV_PD_SRC_ATOP \<Rightarrow> da
   | POV_PD_DST_ATOP \<Rightarrow> sa
   | POV_PD_XOR \<Rightarrow> min 255 (sa + da - 2 * sa * da div 256)
   | _ \<Rightarrow> pd_mix mode sa da sa da)"

lemma u8_range: "0 \<le> uint (x :: u8)" "uint (x :: u8) \<le> 255"
  using uint_lt2p [of x] by simp_all

lemma clamp_store_exact: "0 \<le> v \<Longrightarrow> v < 65536 \<Longrightarrow> uint (clamp_store (of_int v)) = min 255 v"
  by (auto simp: clamp_store_def word_less_def uint_word_of_int_eq take_bit_int_eq_self unsigned_ucast_eq min_def)

lemma scaled_range:
  assumes "0 \<le> c" "c \<le> 255" "0 \<le> f" "f \<le> 256"
  shows "0 \<le> c * f div 256" "c * f div 256 \<le> (255 :: int)"
proof -
  have "c * f \<le> 255 * 256" using assms by (intro mult_mono) auto
  then show "c * f div 256 \<le> 255" by linarith
  show "0 \<le> c * f div 256" using assms by (simp add: pos_imp_zdiv_nonneg_iff)
qed

lemma xor_alpha_range:
  assumes "0 \<le> s" "s \<le> 255" "0 \<le> d" "d \<le> (255 :: int)"
  shows "0 \<le> s + d - s * d div 128"
proof -
  define p where "p = s * d"
  have "0 \<le> (255 - s) * d" "0 \<le> s * (255 - d)" using assms by simp_all
  then have "p \<le> 255 * d" "p \<le> 255 * s" by (simp_all add: p_def algebra_simps)
  then have "p + p \<le> 255 * d + 255 * s" by (rule add_mono)
  then have "p + p \<le> 256 * d + 256 * s" using assms(1,3) by linarith
  then have "p \<le> 128 * (s + d)" by simp
  then have "s * d \<le> 128 * (s + d)" by (simp only: p_def)
  from zdiv_mono1 [OF this, of 128] show ?thesis by simp
qed

lemma inv_exact: "0 \<le> a \<Longrightarrow> a \<le> 255 \<Longrightarrow> uint (of_int (256 - a) :: u16) = 256 - a"
  by (simp add: uint_word_of_int_eq take_bit_int_eq_self del: of_int_diff)

lemma channel_exact:
  assumes "0 \<le> sa" "sa \<le> 255" "0 \<le> da" "da \<le> 255" "0 \<le> s" "s \<le> 255" "0 \<le> d" "d \<le> 255"
    "mode \<notin> {POV_PD_CLEAR, POV_PD_SRC, POV_PD_DST}"
  shows "uint (clamp_store (wide_channel mode sa da (256 - sa) (256 - da) s d)) = pd_mix mode sa da s d"
proof -
  have r: "0 \<le> s * f div 256 \<and> s * f div 256 \<le> 255" "0 \<le> d * f div 256 \<and> d * f div 256 \<le> 255"
    if "0 \<le> f" "f \<le> 256" for f using scaled_range that assms by simp_all
  note rs = r [of sa] r [of da] r [of "256 - sa"] r [of "256 - da"]
  show ?thesis
    using assms rs by (cases mode) (simp_all add: pd_mix_def q8_def asr_def clamp_store_exact del: of_int_add of_int_diff)
qed

lemma alpha_exact:
  assumes "0 \<le> sa" "sa \<le> 255" "0 \<le> da" "da \<le> 255" "mode \<notin> {POV_PD_CLEAR, POV_PD_SRC, POV_PD_DST}"
  shows "uint (clamp_store (wide_alpha mode sa da (256 - sa) (256 - da))) = pd_alpha mode sa da"
proof -
  have x: "2 * sa * da div 256 = sa * da div 128"
    using div_mult_mult1 [of 2 "sa * da" 128] by (simp add: mult.assoc)
  have p: "0 \<le> sa * da div 128" using assms by (simp add: pos_imp_zdiv_nonneg_iff)
  have r: "0 \<le> c * f div 256 \<and> c * f div 256 \<le> 255" if "0 \<le> c" "c \<le> 255" "0 \<le> f" "f \<le> 256" for c f :: int
    using scaled_range that by simp
  have rs: "0 \<le> sa * da div 256 \<and> sa * da div 256 \<le> 255" "0 \<le> da * sa div 256 \<and> da * sa div 256 \<le> 255"
    "0 \<le> sa * (256 - da) div 256 \<and> sa * (256 - da) div 256 \<le> 255"
    "0 \<le> da * (256 - sa) div 256 \<and> da * (256 - sa) div 256 \<le> 255"
    using assms(1-4) by (intro r; simp)+
  show ?thesis
    using assms rs x xor_alpha_range [OF assms(1-4)] p
    by (cases mode) (simp_all add: pd_alpha_def pd_mix_def q8_def asr_def clamp_store_exact del: of_int_add of_int_diff)
qed

section \<open>Columns\<close>

lemma opaque_over:
  assumes "alpha s = 255" "alpha d = 255"
  shows "porter_duff_composite_pixel d s POV_PD_SRC_OVER = s"
proof -
  have q: "q8 (uint (c :: u8)) 1 = 0" for c using u8_range [of c] by (simp add: q8_def asr_def div_pos_pos_trivial)
  have "clamp_store (of_int (uint (c :: u8))) = c" for c
    using clamp_store_exact [of "uint c"] u8_range [of c] by (simp add: word_uint_eq_iff)
  moreover have "q8 255 1 = 0" "clamp_store 255 = 255" by (simp_all add: q8_def asr_def clamp_store_def)
  ultimately show ?thesis using assms q
    by (cases s) (simp add: porter_duff_composite_pixel_def Let_def)
qed

lemma rgba_col_length [simp]: "length (rgb_to_rgba_col rgb) = POV_LED_COUNT"
  by (simp only: rgb_to_rgba_col_def length_map length_upt)

lemma rgba_col_alpha: "p \<in> set (rgb_to_rgba_col rgb) \<Longrightarrow> alpha p = 255"
  unfolding rgb_to_rgba_col_def set_map by (erule imageE) (simp only: rgba_pixel.simps)

lemma opaque_over_col:
  assumes "length dst = length src" "\<forall>p\<in>set dst. alpha p = 255" "\<forall>p\<in>set src. alpha p = 255"
  shows "over_col dst src = src"
  using assms unfolding over_col_def
  by (induction dst src rule: list_induct2) (simp_all add: opaque_over)

text \<open>The columns that the open layers deliver, when every read succeeds.\<close>

inductive delivers :: "'w layer_files \<Rightarrow> nat list \<Rightarrow> 'w \<Rightarrow> u8 list list \<Rightarrow> 'w \<Rightarrow> bool" where
  "delivers fs [] w [] w"
| "read_column fs i POV_IMAGE_HEADER_SIZE w = (Inr rgb, w') \<Longrightarrow> delivers fs is w' rgbs w'' \<Longrightarrow> delivers fs (i # is) w (rgb # rgbs) w''"

lemma compose_open_last:
  "delivers fs layers w rgbs w' \<Longrightarrow> compose_open fs layers (rgb_to_rgba_col rgb0) w = (Inr (rgb_to_rgba_col (last (rgb0 # rgbs))), w')"
proof (induction arbitrary: rgb0 rule: delivers.induct)
  case (2 fs i w rgb w' "is" rgbs w'')
  have "over_col (rgb_to_rgba_col rgb0) (rgb_to_rgba_col rgb) = rgb_to_rgba_col rgb"
    by (rule opaque_over_col) (use rgba_col_alpha in auto)
  then show ?case using 2 by simp
qed simp

section \<open>Properties\<close>

text \<open>C40: compositing is exact.  For every operator and all pixels, each colour channel is the sum of the source and
the destination weighted with the Porter-Duff factors in units of 1/256, each product rounded down and the sum
saturated at 255, and alpha is the coverage of the operator: the 16-bit intermediate values never wrap around.  For a
column read from opaque layers, where every read succeeds, the loop yields the column of the last open layer, so the
picture of layer 0 appears only when no other layer is open.\<close>

theorem composite_exact:
  assumes "delivers fs layers w rgbs w'"
  shows "(let p = porter_duff_composite_pixel d s mode; sa = uint (alpha s); da = uint (alpha d) in
      uint (red p) = pd_mix mode sa da (uint (red s)) (uint (red d)) \<and>
      uint (green p) = pd_mix mode sa da (uint (green s)) (uint (green d)) \<and>
      uint (blue p) = pd_mix mode sa da (uint (blue s)) (uint (blue d)) \<and>
      uint (alpha p) = pd_alpha mode sa da) \<and>
    compose_open fs layers (rgb_to_rgba_col rgb0) w = (Inr (rgb_to_rgba_col (last (rgb0 # rgbs))), w')"
proof (rule conjI)
  note r = u8_range
  show "let p = porter_duff_composite_pixel d s mode; sa = uint (alpha s); da = uint (alpha d) in
      uint (red p) = pd_mix mode sa da (uint (red s)) (uint (red d)) \<and>
      uint (green p) = pd_mix mode sa da (uint (green s)) (uint (green d)) \<and>
      uint (blue p) = pd_mix mode sa da (uint (blue s)) (uint (blue d)) \<and>
      uint (alpha p) = pd_alpha mode sa da"
  proof (cases "mode \<in> {POV_PD_CLEAR, POV_PD_SRC, POV_PD_DST}")
    case True
    then show ?thesis using r by (auto simp: porter_duff_composite_pixel_def Let_def pd_mix_def pd_alpha_def)
  next
    case False
    have c: "uint (clamp_store (wide_channel mode (uint (alpha s)) (uint (alpha d)) (256 - uint (alpha s)) (256 - uint (alpha d))
        (uint x) (uint y))) = pd_mix mode (uint (alpha s)) (uint (alpha d)) (uint x) (uint y)" for x y :: u8
      by (rule channel_exact [OF r r r r False])
    have a: "uint (clamp_store (wide_alpha mode (uint (alpha s)) (uint (alpha d)) (256 - uint (alpha s)) (256 - uint (alpha d))))
        = pd_alpha mode (uint (alpha s)) (uint (alpha d))"
      by (rule alpha_exact [OF r r False])
    have p: "porter_duff_composite_pixel d s mode =
        (let chan = (\<lambda>c. clamp_store (wide_channel mode (uint (alpha s)) (uint (alpha d)) (256 - uint (alpha s)) (256 - uint (alpha d))
           (uint (c s)) (uint (c d))))
         in \<lparr>blue = chan blue, green = chan green, red = chan red,
             alpha = clamp_store (wide_alpha mode (uint (alpha s)) (uint (alpha d)) (256 - uint (alpha s)) (256 - uint (alpha d)))\<rparr>)"
      using False unfolding porter_duff_composite_pixel_def Let_def inv_exact [OF r] by (cases mode) simp_all
    show ?thesis unfolding p Let_def by (simp add: c a)
  qed
qed (rule compose_open_last [OF assms])

text \<open>Two layers that deliver one grey column each.\<close>

definition grey_files :: "unit layer_files" where
  "grey_files = \<lparr>lf_read = (\<lambda>i n w. ((True, replicate n (of_nat i)), w)), lf_lseek = (\<lambda>_ _ w. w), lf_write = (\<lambda>_ bs w. ((True, length bs), w))\<rparr>"

theorem composite_exact_witness:
  "compose_open grey_files [1, 2] (rgb_to_rgba_col (replicate 768 9)) () = (Inr (rgb_to_rgba_col (replicate 768 2)), ())"
proof -
  have r: "read_column grey_files i 16 () = (Inr (replicate 768 (of_nat i)), ())" for i
    unfolding read_column_def grey_files_def layer_files.simps prod.case length_replicate by simp
  have "delivers grey_files [1, 2] () [replicate 768 (of_nat 1), replicate 768 (of_nat 2)] ()"
    by (rule delivers.intros(2) [OF r], rule delivers.intros(2) [OF r], rule delivers.intros(1))
  from conjunct2 [OF composite_exact [OF this, of _ _ _ "replicate 768 9"]]
  show ?thesis by (simp only: last.simps list.simps if_False if_True simp_thms of_nat_numeral)
qed

end
