(* ===== verification/Spec2Isabelle.thy ===== *)
theory Spec2Isabelle
  imports Memory_Allocator_Properties Tim_Task_Correct Pid_Correct Tlc5971_Correct Spi_Soft_Correct Mavlink_Correct Motor_Correct Stator_Correct Blend_Correct
begin

text \<open>
  A verification development for the Kinetis firmware: drivers and services for small controllers under
  \<^verbatim>\<open>src/drivers/kinetis\<close>, and on top of them a persistence-of-vision display under
  \<^verbatim>\<open>src/projects/persistence-of-vision\<close>.  The display has a fixed end, the stator, that turns a motor, and a
  rotating end, the rotor, that lights the LEDs; they talk over a serial link.

  \<^bold>\<open>The program and its model.\<close>  Each component has a theory with its data and operations and one or more
  theories with the proofs, named after it with \<^verbatim>\<open>_Correct\<close>, \<^verbatim>\<open>_Spec\<close> or \<^verbatim>\<open>_Properties\<close> added.  Definitions
  have the names of the C functions.

  \<^item> \<^verbatim>\<open>Memory_Allocator\<close> (\<^verbatim>\<open>memory_allocator.c\<close>): regions and a table of blocks; \<open>mem_state\<close> is the file's static
    data.  C1 to C10: blocks are aligned, inside one region and disjoint for as long as they live; an allocation
    fails only when nothing fits; release, resize, zeroing, statistics, largest free block and sorting are exact.
  \<^item> \<^verbatim>\<open>Tim_Task\<close> (\<^verbatim>\<open>tim-task.c\<close>): cooperative timers on intrusive lists, with the poisoning of \<^verbatim>\<open>list_del\<close> as a
    fault.  C11 to C15: a pass runs every due task once and in order, the lists stay well formed, the next task and
    the clean-up are right, for callbacks that leave the lists alone.
  \<^item> \<^verbatim>\<open>Pid\<close> (\<^verbatim>\<open>pid.c\<close>): the controller and the relay tuner in fixed point.  C16 to C20: bounded output and slew,
    agreement with the controller on unbounded integers, bumpless transfer, end of tuning, the gains.
  \<^item> \<^verbatim>\<open>Tlc5971\<close> (\<^verbatim>\<open>tlc5971.c\<close>): the LED driver.  C21 to C23: what the chain of chips shows, the period, the errors.
  \<^item> \<^verbatim>\<open>Spi_Soft\<close> (\<^verbatim>\<open>spi_soft.c\<close>): the bit-banged master with the simulated slave.  C24: together they are a
    register file, in every clock mode and bit order and for every polling schedule.
  \<^item> \<^verbatim>\<open>Serial_Port\<close> (\<^verbatim>\<open>serial-port.c\<close>): the receive ring, the simulated wire and blocking receive.  C25 to C29.
  \<^item> \<^verbatim>\<open>Mavlink\<close> (\<^verbatim>\<open>mavlink.c\<close>) on top of the serial port: device state, dispatch and requests.  C30 to C32.
  \<^item> \<^verbatim>\<open>Motor\<close> (\<^verbatim>\<open>motor.c\<close>, \<^verbatim>\<open>hall.c\<close>): the simulated motor and the hall sensor.  C33 and C34.
  \<^item> \<^verbatim>\<open>Stator\<close> (\<^verbatim>\<open>stator.c\<close>, with the callbacks in \<^verbatim>\<open>motor.c\<close> and \<^verbatim>\<open>interface.c\<close>, the update flag of
    \<^verbatim>\<open>bootloader.c\<close> and the main loop of \<^verbatim>\<open>project.c\<close>): the composition of timers, controller, motor, sensor and
    messages.  \<open>pov_stator\<close> is the environment of the timers.  C35: no round gets stuck, although here a callback
    does move a task between the lists.  C36 and C37: the motor is safe and the link is supervised.  C38: tuning
    ends.  C39: the answer to a command agrees with its effect and with the requester's check.
  \<^item> \<^verbatim>\<open>Blend\<close> (\<^verbatim>\<open>blend.c\<close>, \<^verbatim>\<open>blend.h\<close>): compositing of picture layers.  C40: the fixed-point operators are exact,
    and the layer loop shows the last open layer.

  \<^bold>\<open>Interfaces.\<close>  \<open>allocator\<close>, \<open>register_bus\<close> and \<open>byte_stream\<close> are the contracts of the allocator, the bus and the
  port; \<open>event_driven\<close> gives invariants over sequences of events (controller, LED driver, wire), and \<open>settling\<close>
  convergence by a decreasing distance (motor).  Each is interpreted on the definitions of the component.

  \<^bold>\<open>Conventions.\<close>  Unsigned C integers are words, signed ones \<open>int\<close> with the wrap-around written as \<open>s32\<close> and
  \<open>s64\<close>; signed overflow, undefined in C, thus wraps.  Errors are negative integers.  A loop that may not end is a
  \<^verbatim>\<open>partial_function\<close> whose value is then \<open>None\<close>; there is no fuel, and where the code returns this is proved as
  such (C11, C29, C31, C35).  The bounds in statements are those of the code: 1000 samples of the relay tuner, a ring
  of 1024 bytes that holds 1023; 1536000 ticks of the motor is a bound from its distance to the target, not a tight
  one.  C31 excludes time-outs above 4294967290, where the counter of the code wraps.

  \<^bold>\<open>Assumptions.\<close>  Code outside the repository is a parameter: operations of a board (\<open>board_ok\<close>), generated message
  coding and sleeping (\<open>link_ok\<close>), console, file system and clock of the stator (\<open>site_ok\<close>), the Kalman library.
  C31 and C35 to C36 are about the build for the target, where \<^verbatim>\<open>KINETIS_FAKE_SIM\<close> is not set.  In the stator the clock
  moves only in calls that wait or transmit, in the one message printed between two readings, and between rounds;
  hardware activity comes between rounds and in waiting calls, not in the middle of other code.

  \<^bold>\<open>Not modelled.\<close>  The largest part of the tree is code taken over from the Linux kernel, FatFs and lrzsz.  Also left
  out: the rotor, the flow of the boot loader, set-up of the boards, drivers of single chips and services that the
  modelled programs do not call (such as buttons, soft I2C, hydrology and XMODEM), and test programs.  Within the
  modelled components: reports that only print; \<open>pov_stator_free\<close>; what the stator does after a failed
  \<^verbatim>\<open>serial_port_alloc\<close>, whose error pointer it goes on with; the boot loader run inside the simulation build; the
  set-up of the Kalman matrices; searching, opening and removing layer files; the threads of the simulation build.
\<close>

end
